(* ===== verification/Sponge_Prelude.thy ===== *)
theory Sponge_Prelude
  imports Main "HOL-Library.Word" "HOL-Library.Code_Target_Numeral"
begin

text \<open>
  Shared vocabulary of the development: the C++ integer types, 64-bit unsigned arithmetic with its
  wrap-around, the exceptions the code can raise, and generic facts on lists.

  \<^item> 8-, 16- and 32-bit protocol fields are words (\<open>u8\<close>, \<open>u16\<close>, \<open>u32\<close>).
  \<^item> \<open>size_t\<close>/\<open>uint64_t\<close> counters are natural numbers below \<open>2 ^ 64\<close> (\<open>u64\<close>); every addition,
    subtraction and multiplication the code does on them is \<open>add64\<close>, \<open>sub64\<close> or \<open>mul64\<close>, which
    wrap exactly as the C++ types do.  Lengths of strings are \<open>length\<close> itself.
  \<^item> A call that may throw, or whose behaviour C++ leaves undefined, has the result type
    \<open>cpp_error + 'a\<close>: \<open>Inl\<close> carries the failure, \<open>Inr\<close> the value.  A loop that may not end is a
    \<open>partial_function\<close>; not ending is the failure \<open>Nontermination\<close>.
\<close>

section \<open>Types\<close>

type_synonym u8 = "8 word"
type_synonym u16 = "16 word"
type_synonym u32 = "32 word"
type_synonym u64 = nat
type_synonym byte = "8 word"

datatype cpp_error =
    Out_of_range string
  | Runtime_error string
  | Length_error string
  | Unix_error string int
  | Bad_optional_access
  | Undefined_behaviour string
  | Nontermination

type_synonym 'a result = "cpp_error + 'a"

section \<open>Proof collections\<close>

named_theorems u64_exact \<open>64-bit operations on operands that do not wrap\<close>
named_theorems bytes_of \<open>the byte content of buffers, streams and packets after an operation\<close>

section \<open>Unsigned 64-bit arithmetic\<close>

abbreviation two64 :: nat where
  "two64 \<equiv> 18446744073709551616"

definition add64 :: "u64 \<Rightarrow> u64 \<Rightarrow> u64" where
  "add64 a b = (a + b) mod two64"

definition sub64 :: "u64 \<Rightarrow> u64 \<Rightarrow> u64" where
  "sub64 a b = (a + (two64 - b mod two64)) mod two64"

definition mul64 :: "u64 \<Rightarrow> u64 \<Rightarrow> u64" where
  "mul64 a b = (a * b) mod two64"

text \<open>Conversion of an integer to the C++ types \<open>int\<close>, \<open>ssize_t\<close> and \<open>size_t\<close>.\<close>

definition to_int32 :: "int \<Rightarrow> int" where
  "to_int32 i = signed_take_bit 31 i"

definition to_int64 :: "int \<Rightarrow> int" where
  "to_int64 i = signed_take_bit 63 i"

definition to_size_t :: "int \<Rightarrow> u64" where
  "to_size_t i = nat (i mod 18446744073709551616)"

section \<open>Results\<close>

definition rbind :: "'a result \<Rightarrow> ('a \<Rightarrow> 'b result) \<Rightarrow> 'b result" where
  "rbind m f = (case m of Inl e \<Rightarrow> Inl e | Inr x \<Rightarrow> f x)"

definition substr :: "'a list \<Rightarrow> nat \<Rightarrow> nat \<Rightarrow> 'a list" where
  "substr s i n = take n (drop i s)"

section \<open>Facts on 64-bit arithmetic\<close>

lemma two64_pow: "two64 = 2 ^ 64"
  by simp

lemma add64_less [simp]: "add64 a b < two64"
  by (simp add: add64_def)

lemma sub64_less [simp]: "sub64 a b < two64"
  by (simp add: sub64_def)

lemma mul64_less [simp]: "mul64 a b < two64"
  by (simp add: mul64_def)

lemma add64_exact [u64_exact]: "a + b < two64 \<Longrightarrow> add64 a b = a + b"
  by (simp add: add64_def)

lemma sub64_exact [u64_exact]: "b \<le> a \<Longrightarrow> a < two64 \<Longrightarrow> sub64 a b = a - b"
proof -
  assume "b \<le> a" "a < two64"
  then have "a + (two64 - b mod two64) = two64 + (a - b)" and "a - b < two64"
    by auto
  then show ?thesis
    unfolding sub64_def by (metis mod_add_self1 mod_less)
qed

lemma mul64_exact [u64_exact]: "a * b < two64 \<Longrightarrow> mul64 a b = a * b"
  by (simp add: mul64_def)

lemma sub64_wrap: "a < b \<Longrightarrow> b < two64 \<Longrightarrow> sub64 a b = two64 + a - b"
  unfolding sub64_def by (subst mod_less) auto

lemma add64_0 [simp]: "a < two64 \<Longrightarrow> add64 a 0 = a" "a < two64 \<Longrightarrow> add64 0 a = a"
  by (simp_all add: add64_def)

lemma sub64_0 [simp]: "a < two64 \<Longrightarrow> sub64 a 0 = a"
  by (simp add: sub64_exact)

lemma sub64_self [simp]: "a < two64 \<Longrightarrow> sub64 a a = 0"
  by (simp add: sub64_exact)

lemma add64_commute: "add64 a b = add64 b a"
  by (simp add: add64_def add.commute)

lemma add64_assoc: "add64 (add64 a b) c = add64 a (add64 b c)"
  by (simp add: add64_def mod_simps add.assoc)

lemma add64_sub64_cancel: "b < two64 \<Longrightarrow> a < two64 \<Longrightarrow> add64 (sub64 a b) b = a"
proof -
  assume "b < two64" "a < two64"
  then have "add64 (sub64 a b) b = (a + two64) mod two64"
    by (simp add: add64_def sub64_def mod_simps)
  also have "\<dots> = a" using \<open>a < two64\<close> by (metis mod_add_self2 mod_less)
  finally show ?thesis .
qed

lemma sub64_add64_cancel: "b < two64 \<Longrightarrow> a < two64 \<Longrightarrow> sub64 (add64 a b) b = a"
  by (cases "a + b < two64") (auto simp: add64_def sub64_def mod_if [of "a + b"] mod_if)

section \<open>Facts on results\<close>

lemma to_int32_small: "- (2 ^ 31) \<le> i \<Longrightarrow> i < 2 ^ 31 \<Longrightarrow> to_int32 i = i"
  by (simp add: to_int32_def signed_take_bit_int_eq_self)

lemma to_int64_small: "- (2 ^ 63) \<le> i \<Longrightarrow> i < 2 ^ 63 \<Longrightarrow> to_int64 i = i"
  by (simp add: to_int64_def signed_take_bit_int_eq_self)

lemma to_size_t_nat: "0 \<le> i \<Longrightarrow> i < 18446744073709551616 \<Longrightarrow> to_size_t i = nat i"
  by (simp add: to_size_t_def)

lemma to_size_t_bound: "to_size_t i < two64"
  by (simp add: to_size_t_def nat_less_iff)

lemma rbind_simps [simp]:
  "rbind (Inl e) f = Inl e"
  "rbind (Inr x) f = f x"
  by (simp_all add: rbind_def)

lemma rbind_cong [fundef_cong]:
  "m = m' \<Longrightarrow> (\<And>x. m' = Inr x \<Longrightarrow> f x = f' x) \<Longrightarrow> rbind m f = rbind m' f'"
  by (cases m') auto

lemma rbind_Inr_conv: "rbind m f = Inr y \<longleftrightarrow> (\<exists>x. m = Inr x \<and> f x = Inr y)"
  by (cases m) auto

lemma rbind_split:
  "P (rbind m f) \<longleftrightarrow> (\<forall>e. m = Inl e \<longrightarrow> P (Inl e)) \<and> (\<forall>x. m = Inr x \<longrightarrow> P (f x))"
  by (cases m) auto

lemma rbind_rbind: "rbind (rbind m f) h = rbind m (\<lambda>x. rbind (f x) h)"
  by (cases m) simp_all

section \<open>Facts on lists\<close>

lemma length_substr [simp]: "length (substr s i n) = min n (length s - i)"
  by (simp add: substr_def min.commute)

lemma substr_0 [simp]: "substr s i 0 = []"
  by (simp add: substr_def)

lemma substr_full: "substr s 0 (length s) = s"
  by (simp add: substr_def)

lemma substr_append: "substr s i m @ substr s (i + m) n = substr s i (m + n)"
  unfolding substr_def by (simp add: take_add add.commute)

lemma take_substr: "take k (substr s i n) = substr s i (min k n)"
  by (simp add: substr_def)

lemma drop_substr: "drop k (substr s i n) = substr s (i + k) (n - k)"
  by (simp add: substr_def drop_take add.commute)

lemma take_append_substr: "i \<le> length s \<Longrightarrow> take i s @ substr s i n = take (i + n) s"
  by (simp add: substr_def take_add)

section \<open>Facts on words\<close>

lemma word_bounds:
  "unat (a :: u8) < 256" "unat (b :: u16) < 65536" "unat (c :: u32) < 4294967296"
proof -
  have "unat a < 2 ^ LENGTH(8)" "unat b < 2 ^ LENGTH(16)" "unat c < 2 ^ LENGTH(32)"
    by (rule unsigned_less)+
  then show "unat a < 256" "unat b < 65536" "unat c < 4294967296" by simp_all
qed

lemma unat_take_bit: "unat (take_bit n w) = unat w mod 2 ^ n" for w :: "'a::len word"
proof -
  have "unat (take_bit n w) = take_bit n (unat w)" by (rule unsigned_take_bit_eq)
  then show ?thesis by (simp only: take_bit_eq_mod [of n "unat w"])
qed

lemma unat_drop_bit: "unat (drop_bit n w) = unat w div 2 ^ n" for w :: "'a::len word"
proof -
  have "unat (drop_bit n w) = drop_bit n (unat w)" by (rule unat_drop_bit_eq)
  then show ?thesis by (simp only: drop_bit_eq_div [of n "unat w"])
qed

lemma unat_ucast: "unat (ucast w :: 'b::len word) = unat w mod 2 ^ LENGTH('b)" for w :: "'a::len word"
proof -
  have "unat (ucast w :: 'b word) = take_bit LENGTH('b) (unat w)" by (rule unsigned_ucast_eq)
  then show ?thesis by (simp only: take_bit_eq_mod [of "LENGTH('b)" "unat w"])
qed

lemma unat_push_bit: "unat (push_bit n w) = unat w * 2 ^ n mod 2 ^ LENGTH('a)" for w :: "'a::len word"
proof -
  have "unat (push_bit n w) = take_bit LENGTH('a) (push_bit n (unat w))" by (rule unsigned_push_bit_eq)
  then show ?thesis
    by (simp only: take_bit_eq_mod [of "LENGTH('a)" "unat w * 2 ^ n"] push_bit_eq_mult [of n "unat w"])
qed

section \<open>Runs of a component\<close>

text \<open>
  A component that reacts to operations one after the other: the run ends at the first failure.
  \<open>ops_ok\<close> asks a condition of each operation in the state in which it happens.
\<close>

fun run_steps :: "('s \<Rightarrow> 'op \<Rightarrow> 's result) \<Rightarrow> 's \<Rightarrow> 'op list \<Rightarrow> 's result" where
  "run_steps step s [] = Inr s"
| "run_steps step s (p # ops) = rbind (step s p) (\<lambda>s'. run_steps step s' ops)"

fun ops_ok :: "('s \<Rightarrow> 'op \<Rightarrow> 's result) \<Rightarrow> ('s \<Rightarrow> 'op \<Rightarrow> bool) \<Rightarrow> 's \<Rightarrow> 'op list \<Rightarrow> bool" where
  "ops_ok step ok s [] = True"
| "ops_ok step ok s (p # ops) =
     (ok s p \<and> (case step s p of Inl _ \<Rightarrow> False | Inr s' \<Rightarrow> ops_ok step ok s' ops))"

text \<open>
  The contract of such a component: an operation that meets its condition succeeds and keeps the
  invariant.  Then so does every run, and a quantity that no step decreases never decreases.
\<close>

locale step_system =
  fixes step :: "'s \<Rightarrow> 'op \<Rightarrow> 's result"
    and ok :: "'s \<Rightarrow> 'op \<Rightarrow> bool"
    and inv :: "'s \<Rightarrow> bool"
    and level :: "'s \<Rightarrow> nat"
  assumes preserve: "inv s \<Longrightarrow> ok s p \<Longrightarrow> \<exists>s'. step s p = Inr s' \<and> inv s' \<and> level s \<le> level s'"
begin

lemma run_inv:
  "inv s \<Longrightarrow> ops_ok step ok s ops \<Longrightarrow>
   \<exists>s'. run_steps step s ops = Inr s' \<and> inv s' \<and> level s \<le> level s'"
proof (induction ops arbitrary: s)
  case (Cons p ops)
  then obtain t where t: "step s p = Inr t" "inv t" "level s \<le> level t"
    using preserve[of s p] by auto
  with Cons.prems have "ops_ok step ok t ops" by simp
  from Cons.IH[OF t(2) this] t(1,3) show ?case by (auto intro: order_trans)
qed simp

lemma ops_ok_always:
  assumes "inv s" and "\<And>t p. p \<in> set ops \<Longrightarrow> inv t \<Longrightarrow> ok t p"
  shows "ops_ok step ok s ops"
  using assms
proof (induction ops arbitrary: s)
  case (Cons p ops)
  then obtain t where "step s p = Inr t" "inv t" using preserve[of s p] by auto
  with Cons show ?case by auto
qed simp

end

end
