(* ===== verification/Buffers.thy ===== *)
theory Buffers
  imports Sponge_Prelude
begin

text \<open>
  \<^verbatim>\<open>libsponge/util/buffer.hh\<close> and \<^verbatim>\<open>buffer.cc\<close>: \<open>Buffer\<close> (a shared read-only string with a starting
  offset), \<open>BufferList\<close> (a deque of buffers) and \<open>BufferViewList\<close> (a deque of string views).  The
  shared string is never written after construction, so sharing is not observable and a buffer is a
  value.  The lemmas show that every operation is the corresponding operation on the byte string the
  buffer denotes, and where each \<open>out_of_range\<close> is thrown.
\<close>

section \<open>Buffer\<close>

record buffer =
  buf_storage :: "byte list option"
  buf_starting_offset :: u64

definition Buffer_default :: buffer where
  "Buffer_default = \<lparr>buf_storage = None, buf_starting_offset = 0\<rparr>"

definition Buffer_of :: "byte list \<Rightarrow> buffer" where
  "Buffer_of str = \<lparr>buf_storage = Some str, buf_starting_offset = 0\<rparr>"

definition Buffer_str :: "buffer \<Rightarrow> byte list" where
  "Buffer_str b = (case buf_storage b of None \<Rightarrow> [] | Some s \<Rightarrow> drop (buf_starting_offset b) s)"

definition Buffer_at :: "buffer \<Rightarrow> u64 \<Rightarrow> u8 result" where
  "Buffer_at b n =
     (if n < length (Buffer_str b) then Inr (Buffer_str b ! n)
      else Inl (Out_of_range ''basic_string_view::at''))"

definition Buffer_size :: "buffer \<Rightarrow> u64" where
  "Buffer_size b = length (Buffer_str b)"

definition Buffer_copy :: "buffer \<Rightarrow> byte list" where
  "Buffer_copy b = Buffer_str b"

definition Buffer_remove_prefix :: "buffer \<Rightarrow> u64 \<Rightarrow> buffer result" where
  "Buffer_remove_prefix b n =
     (if length (Buffer_str b) < n then Inl (Out_of_range ''Buffer::remove_prefix'')
      else let off = add64 (buf_starting_offset b) n
           in Inr \<lparr>buf_storage =
                     (case buf_storage b of
                        None \<Rightarrow> None
                      | Some s \<Rightarrow> if off = length s then None else Some s),
                   buf_starting_offset = off\<rparr>)"

section \<open>BufferList\<close>

type_synonym buffer_list = "buffer list"

definition BufferList_of_Buffer :: "buffer \<Rightarrow> buffer_list" where
  "BufferList_of_Buffer b = [b]"

fun BufferList_append :: "buffer_list \<Rightarrow> buffer_list \<Rightarrow> buffer_list" where
  "BufferList_append bl [] = bl"
| "BufferList_append bl (b # other) = BufferList_append (bl @ [b]) other"

definition BufferList_of_string :: "byte list \<Rightarrow> buffer_list" where
  "BufferList_of_string str = BufferList_append [] (BufferList_of_Buffer (Buffer_of str))"

fun BufferList_to_Buffer :: "buffer_list \<Rightarrow> buffer result" where
  "BufferList_to_Buffer [] = Inr Buffer_default"
| "BufferList_to_Buffer [b] = Inr b"
| "BufferList_to_Buffer _ =
     Inl (Runtime_error ''BufferList: please use concatenate() to combine a multi-Buffer BufferList into one Buffer'')"

fun BufferList_concatenate_loop :: "byte list \<Rightarrow> buffer_list \<Rightarrow> byte list" where
  "BufferList_concatenate_loop ret [] = ret"
| "BufferList_concatenate_loop ret (b # bl) = BufferList_concatenate_loop (ret @ Buffer_str b) bl"

definition BufferList_concatenate :: "buffer_list \<Rightarrow> byte list" where
  "BufferList_concatenate bl = BufferList_concatenate_loop [] bl"

fun BufferList_concatenate_n_loop :: "u64 \<Rightarrow> byte list \<Rightarrow> buffer_list \<Rightarrow> byte list" where
  "BufferList_concatenate_n_loop n ret [] = ret"
| "BufferList_concatenate_n_loop n ret (b # bl) =
     BufferList_concatenate_n_loop n
       (if add64 (length ret) (Buffer_size b) \<le> n then ret @ Buffer_str b
        else ret @ take (sub64 n (length ret)) (Buffer_str b)) bl"

definition BufferList_concatenate_n :: "buffer_list \<Rightarrow> u64 \<Rightarrow> byte list" where
  "BufferList_concatenate_n bl n = BufferList_concatenate_n_loop n [] bl"

fun BufferList_size_loop :: "u64 \<Rightarrow> buffer_list \<Rightarrow> u64" where
  "BufferList_size_loop ret [] = ret"
| "BufferList_size_loop ret (b # bl) = BufferList_size_loop (add64 ret (Buffer_size b)) bl"

definition BufferList_size :: "buffer_list \<Rightarrow> u64" where
  "BufferList_size bl = BufferList_size_loop 0 bl"

fun BufferList_remove_prefix :: "buffer_list \<Rightarrow> u64 \<Rightarrow> buffer_list result" where
  "BufferList_remove_prefix [] n =
     (if n = 0 then Inr [] else Inl (Out_of_range ''BufferList::remove_prefix''))"
| "BufferList_remove_prefix (b # bl) n =
     (if n = 0 then Inr (b # bl)
      else if n < length (Buffer_str b)
        then rbind (Buffer_remove_prefix b n) (\<lambda>b'. Inr (b' # bl))
        else BufferList_remove_prefix bl (sub64 n (length (Buffer_str b))))"

section \<open>BufferViewList\<close>

type_synonym buffer_view_list = "byte list list"

definition BufferViewList_of_string :: "byte list \<Rightarrow> buffer_view_list" where
  "BufferViewList_of_string str = [str]"

fun BufferViewList_of_loop :: "buffer_view_list \<Rightarrow> buffer_list \<Rightarrow> buffer_view_list" where
  "BufferViewList_of_loop vs [] = vs"
| "BufferViewList_of_loop vs (b # bl) = BufferViewList_of_loop (vs @ [Buffer_str b]) bl"

definition BufferViewList_of_BufferList :: "buffer_list \<Rightarrow> buffer_view_list" where
  "BufferViewList_of_BufferList bl = BufferViewList_of_loop [] bl"

fun BufferViewList_remove_prefix :: "buffer_view_list \<Rightarrow> u64 \<Rightarrow> buffer_view_list result" where
  "BufferViewList_remove_prefix [] n =
     (if n = 0 then Inr [] else Inl (Out_of_range ''BufferListView::remove_prefix''))"
| "BufferViewList_remove_prefix (v # vs) n =
     (if n = 0 then Inr (v # vs)
      else if n < length v then Inr (drop n v # vs)
      else BufferViewList_remove_prefix vs (sub64 n (length v)))"

fun BufferViewList_size_loop :: "u64 \<Rightarrow> buffer_view_list \<Rightarrow> u64" where
  "BufferViewList_size_loop ret [] = ret"
| "BufferViewList_size_loop ret (v # vs) = BufferViewList_size_loop (add64 ret (length v)) vs"

definition BufferViewList_size :: "buffer_view_list \<Rightarrow> u64" where
  "BufferViewList_size vs = BufferViewList_size_loop 0 vs"

text \<open>An \<open>iovec\<close> is a base pointer and a length; here, the bytes between them.\<close>

definition BufferViewList_as_iovecs :: "buffer_view_list \<Rightarrow> byte list list" where
  "BufferViewList_as_iovecs vs = map (\<lambda>v. v) vs"

section \<open>Abstraction and well-formedness\<close>

text \<open>A buffer denotes the string it exposes; a list of buffers, the concatenation.\<close>

definition bl_bytes :: "buffer_list \<Rightarrow> byte list" where
  "bl_bytes bl = concat (map Buffer_str bl)"

definition buffer_wf :: "buffer \<Rightarrow> bool" where
  "buffer_wf b \<longleftrightarrow>
     (case buf_storage b of None \<Rightarrow> True
      | Some s \<Rightarrow> buf_starting_offset b \<le> length s \<and> length s < two64)"

definition bl_wf :: "buffer_list \<Rightarrow> bool" where
  "bl_wf bl \<longleftrightarrow> list_all buffer_wf bl \<and> length (bl_bytes bl) < two64"

section \<open>Lemmas on single buffers\<close>

lemma Buffer_str_default [simp, bytes_of]: "Buffer_str Buffer_default = []"
  by (simp add: Buffer_str_def Buffer_default_def)

lemma Buffer_str_of [simp, bytes_of]: "Buffer_str (Buffer_of s) = s"
  by (simp add: Buffer_str_def Buffer_of_def)

lemma buffer_wf_default [simp]: "buffer_wf Buffer_default"
  by (simp add: buffer_wf_def Buffer_default_def)

lemma buffer_wf_of [simp]: "buffer_wf (Buffer_of s) \<longleftrightarrow> length s < two64"
  by (simp add: buffer_wf_def Buffer_of_def)

lemma buffer_wf_length: "buffer_wf b \<Longrightarrow> length (Buffer_str b) < two64"
  by (auto simp: buffer_wf_def Buffer_str_def split: option.splits)

text \<open>Dropping a prefix: exactly the requests longer than the string fail; the others drop it.\<close>

lemma Buffer_remove_prefix_Inl:
  "length (Buffer_str b) < n \<Longrightarrow>
   Buffer_remove_prefix b n = Inl (Out_of_range ''Buffer::remove_prefix'')"
  by (simp add: Buffer_remove_prefix_def)

lemma Buffer_remove_prefix_Inr:
  assumes "buffer_wf b" and "n \<le> length (Buffer_str b)"
  obtains b' where "Buffer_remove_prefix b n = Inr b'" and "buffer_wf b'"
    and "Buffer_str b' = drop n (Buffer_str b)"
proof (cases "buf_storage b")
  case None
  with assms show ?thesis
    by (intro that[of "\<lparr>buf_storage = None, buf_starting_offset = add64 (buf_starting_offset b) n\<rparr>"])
       (auto simp: Buffer_remove_prefix_def Buffer_str_def buffer_wf_def)
next
  case (Some s)
  have "buf_starting_offset b \<le> length s" and "length s < two64"
    using assms(1) Some by (auto simp: buffer_wf_def)
  moreover from this have n: "buf_starting_offset b + n \<le> length s"
    using assms(2) Some by (auto simp: Buffer_str_def)
  ultimately have "add64 (buf_starting_offset b) n = buf_starting_offset b + n"
    by (simp add: add64_exact)
  with assms Some n show ?thesis
    by (intro that[of "\<lparr>buf_storage = (if buf_starting_offset b + n = length s then None else Some s),
                        buf_starting_offset = buf_starting_offset b + n\<rparr>"])
       (auto simp: Buffer_remove_prefix_def Buffer_str_def buffer_wf_def add.commute)
qed

section \<open>Lemmas on buffer lists\<close>

lemma bl_bytes_simps [simp, bytes_of]:
  "bl_bytes [] = []"
  "bl_bytes (b # bl) = Buffer_str b @ bl_bytes bl"
  "bl_bytes (bl @ bl') = bl_bytes bl @ bl_bytes bl'"
  by (simp_all add: bl_bytes_def)

lemma BufferList_append_eq [simp]: "BufferList_append bl other = bl @ other"
  by (induction bl other rule: BufferList_append.induct) auto

lemma bl_bytes_of_string [simp, bytes_of]: "bl_bytes (BufferList_of_string s) = s"
  by (simp add: BufferList_of_string_def BufferList_of_Buffer_def)

lemma bl_bytes_of_Buffer [simp, bytes_of]: "bl_bytes (BufferList_of_Buffer b) = Buffer_str b"
  by (simp add: BufferList_of_Buffer_def)

lemma bl_wf_Nil [simp]: "bl_wf []"
  by (simp add: bl_wf_def)

lemma bl_wf_Cons: "bl_wf (b # bl) \<Longrightarrow> buffer_wf b \<and> bl_wf bl"
  by (auto simp: bl_wf_def)

lemma bl_wf_append:
  "bl_wf (bl @ bl') \<longleftrightarrow> bl_wf bl \<and> bl_wf bl' \<and> length (bl_bytes bl) + length (bl_bytes bl') < two64"
  by (auto simp: bl_wf_def)

lemma bl_wf_of_string [simp]: "bl_wf (BufferList_of_string s) \<longleftrightarrow> length s < two64"
  by (auto simp: bl_wf_def BufferList_of_string_def BufferList_of_Buffer_def)

lemma bl_wf_of_Buffer [simp]: "bl_wf (BufferList_of_Buffer b) \<longleftrightarrow> buffer_wf b"
  by (auto simp: bl_wf_def BufferList_of_Buffer_def dest: buffer_wf_length)

lemma concatenate_loop: "BufferList_concatenate_loop ret bl = ret @ bl_bytes bl"
  by (induction ret bl rule: BufferList_concatenate_loop.induct) auto

lemma concatenate_bytes [simp, bytes_of]: "BufferList_concatenate bl = bl_bytes bl"
  by (simp add: BufferList_concatenate_def concatenate_loop)

lemma size_loop:
  "ret + length (bl_bytes bl) < two64 \<Longrightarrow> BufferList_size_loop ret bl = ret + length (bl_bytes bl)"
  by (induction ret bl rule: BufferList_size_loop.induct) (auto simp: Buffer_size_def u64_exact)

lemma size_bytes [simp]: "bl_wf bl \<Longrightarrow> BufferList_size bl = length (bl_bytes bl)"
  by (simp add: BufferList_size_def size_loop bl_wf_def)

lemma concatenate_n_loop:
  "length ret \<le> n \<Longrightarrow> n < two64 \<Longrightarrow> length ret + length (bl_bytes bl) < two64 \<Longrightarrow>
   BufferList_concatenate_n_loop n ret bl = ret @ take (n - length ret) (bl_bytes bl)"
proof (induction n ret bl rule: BufferList_concatenate_n_loop.induct)
  case (2 n ret b bl)
  then show ?case
    by (cases "length ret + length (Buffer_str b) \<le> n") (auto simp: Buffer_size_def u64_exact)
qed simp

lemma concatenate_n_bytes [simp, bytes_of]:
  "bl_wf bl \<Longrightarrow> n < two64 \<Longrightarrow> BufferList_concatenate_n bl n = take n (bl_bytes bl)"
  by (simp add: BufferList_concatenate_n_def concatenate_n_loop bl_wf_def)

lemma BufferList_remove_prefix_Inl:
  assumes "bl_wf bl" and "n < two64" and "length (bl_bytes bl) < n"
  shows "BufferList_remove_prefix bl n = Inl (Out_of_range ''BufferList::remove_prefix'')"
  using assms
proof (induction bl n rule: BufferList_remove_prefix.induct)
  case (2 b bl n)
  then show ?case by (auto simp: u64_exact dest: bl_wf_Cons)
qed simp

lemma BufferList_remove_prefix_Inr:
  assumes "bl_wf bl" and "n < two64" and "n \<le> length (bl_bytes bl)"
  shows "\<exists>bl'. BufferList_remove_prefix bl n = Inr bl' \<and> bl_wf bl'
               \<and> bl_bytes bl' = drop n (bl_bytes bl)"
  using assms
proof (induction bl n rule: BufferList_remove_prefix.induct)
  case (1 n)
  then show ?case by simp
next
  case (2 b bl n)
  note wf = bl_wf_Cons[OF "2.prems"(1)]
  consider "n = 0" | "0 < n" "n < length (Buffer_str b)" | "0 < n" "length (Buffer_str b) \<le> n"
    by linarith
  then show ?case
  proof cases
    case 1
    with "2.prems" show ?thesis by simp
  next
    case 2
    then obtain b' where "Buffer_remove_prefix b n = Inr b'" "buffer_wf b'"
      "Buffer_str b' = drop n (Buffer_str b)"
      using wf Buffer_remove_prefix_Inr[of b n] by auto
    with 2 wf "2.prems" show ?thesis by (auto simp: bl_wf_def)
  next
    case 3
    with "2.IH" "2.prems" wf show ?thesis by (auto simp: u64_exact)
  qed
qed

section \<open>Lemmas on view lists\<close>

lemma view_of_loop: "BufferViewList_of_loop vs bl = vs @ map Buffer_str bl"
  by (induction vs bl rule: BufferViewList_of_loop.induct) auto

lemma concat_view_of [simp, bytes_of]: "concat (BufferViewList_of_BufferList bl) = bl_bytes bl"
  by (simp add: BufferViewList_of_BufferList_def view_of_loop bl_bytes_def)

lemma view_size_loop:
  "ret + length (concat vs) < two64 \<Longrightarrow> BufferViewList_size_loop ret vs = ret + length (concat vs)"
  by (induction ret vs rule: BufferViewList_size_loop.induct) (auto simp: u64_exact)

lemma view_size [simp]:
  "length (concat vs) < two64 \<Longrightarrow> BufferViewList_size vs = length (concat vs)"
  by (simp add: BufferViewList_size_def view_size_loop)

lemma BufferViewList_remove_prefix_Inr:
  "n \<le> length (concat vs) \<Longrightarrow> length (concat vs) < two64 \<Longrightarrow>
   \<exists>vs'. BufferViewList_remove_prefix vs n = Inr vs' \<and> concat vs' = drop n (concat vs)"
  by (induction vs n rule: BufferViewList_remove_prefix.induct) (auto simp: u64_exact)

lemma BufferViewList_remove_prefix_Inl:
  "length (concat vs) < n \<Longrightarrow> n < two64 \<Longrightarrow>
   BufferViewList_remove_prefix vs n = Inl (Out_of_range ''BufferListView::remove_prefix'')"
  by (induction vs n rule: BufferViewList_remove_prefix.induct) (auto simp: u64_exact)

text \<open>The definitions a concrete evaluation unfolds.\<close>

lemmas buffer_eval =
  Buffer_default_def Buffer_of_def Buffer_str_def Buffer_size_def Buffer_remove_prefix_def
  BufferList_of_Buffer_def BufferList_of_string_def BufferList_concatenate_def
  BufferList_concatenate_n_def BufferList_size_def substr_def add64_def sub64_def

section \<open>Properties\<close>

text \<open>Removing a prefix from a buffer list drops exactly that many bytes of its contents, across
  buffer boundaries, and throws exactly when more is asked for than is stored.\<close>

theorem buffer_list_remove_prefix:
  assumes "bl_wf bl" and "n < two64"
  shows "case BufferList_remove_prefix bl n of
      Inl e \<Rightarrow> e = Out_of_range ''BufferList::remove_prefix'' \<and> length (BufferList_concatenate bl) < n
    | Inr bl' \<Rightarrow> bl_wf bl' \<and> n \<le> length (BufferList_concatenate bl) \<and>
        BufferList_concatenate bl' = drop n (BufferList_concatenate bl)"
  using BufferList_remove_prefix_Inl[OF assms] BufferList_remove_prefix_Inr[OF assms]
  by (cases "n \<le> length (bl_bytes bl)") auto

theorem buffer_list_remove_prefix_witness:
  "case BufferList_remove_prefix [Buffer_of [1, 2], Buffer_of [3, 4]] 3 of
      Inl e \<Rightarrow> False | Inr bl' \<Rightarrow> BufferList_concatenate bl' = [4]"
  using buffer_list_remove_prefix[of "[Buffer_of [1, 2], Buffer_of [3, 4]]" 3]
  by (simp add: bl_wf_def split: sum.splits del: BufferList_remove_prefix.simps)

end
