(* ===== verification/Byte_Stream.thy ===== *)
theory Byte_Stream
  imports Buffers
begin

text \<open>
  \<^verbatim>\<open>libsponge/byte_stream.hh\<close> and \<^verbatim>\<open>byte_stream.cc\<close>: a bounded in-order byte stream.  The contract the
  rest of the stack relies on, a bounded first-in first-out queue of bytes, is the locale
  \<open>bounded_fifo\<close>; its lemma on whole runs is proved once from the laws, and the stream's \<open>write\<close> and
  \<open>read\<close> are an interpretation of it.
\<close>

section \<open>The stream\<close>

record byte_stream =
  bs_stream_buffer :: buffer_list
  bs_size :: u64
  bs_capacity :: u64
  bs_num_write :: u64
  bs_num_read :: u64
  bs_if_end :: bool
  bs_error :: bool

definition ByteStream_new :: "u64 \<Rightarrow> byte_stream" where
  "ByteStream_new capacity =
     \<lparr>bs_stream_buffer = [], bs_size = 0, bs_capacity = capacity, bs_num_write = 0, bs_num_read = 0,
      bs_if_end = False, bs_error = False\<rparr>"

definition ByteStream_write :: "byte_stream \<Rightarrow> byte list \<Rightarrow> u64 \<times> byte_stream" where
  "ByteStream_write s data =
     (let l = min (length data) (sub64 (bs_capacity s) (bs_size s));
          tmp = take l data
      in (l, s\<lparr>bs_stream_buffer := BufferList_append (bs_stream_buffer s) (BufferList_of_string tmp),
               bs_size := add64 (bs_size s) l,
               bs_num_write := add64 (bs_num_write s) l\<rparr>))"

definition ByteStream_peek_output :: "byte_stream \<Rightarrow> u64 \<Rightarrow> byte list" where
  "ByteStream_peek_output s len = BufferList_concatenate_n (bs_stream_buffer s) (min len (bs_size s))"

definition ByteStream_pop_output :: "byte_stream \<Rightarrow> u64 \<Rightarrow> byte_stream result" where
  "ByteStream_pop_output s len =
     (let l = min len (bs_size s)
      in rbind (BufferList_remove_prefix (bs_stream_buffer s) l) (\<lambda>bl.
         Inr (s\<lparr>bs_stream_buffer := bl,
                bs_size := sub64 (bs_size s) l,
                bs_num_read := add64 (bs_num_read s) l\<rparr>)))"

definition ByteStream_read :: "byte_stream \<Rightarrow> u64 \<Rightarrow> (byte list \<times> byte_stream) result" where
  "ByteStream_read s len =
     (let ret = ByteStream_peek_output s len
      in rbind (ByteStream_pop_output s len) (\<lambda>s'. Inr (ret, s')))"

definition ByteStream_end_input :: "byte_stream \<Rightarrow> byte_stream" where
  "ByteStream_end_input s = s\<lparr>bs_if_end := True\<rparr>"

definition ByteStream_set_error :: "byte_stream \<Rightarrow> byte_stream" where
  "ByteStream_set_error s = s\<lparr>bs_error := True\<rparr>"

definition ByteStream_error :: "byte_stream \<Rightarrow> bool" where
  "ByteStream_error s = bs_error s"

definition ByteStream_input_ended :: "byte_stream \<Rightarrow> bool" where
  "ByteStream_input_ended s = bs_if_end s"

definition ByteStream_buffer_size :: "byte_stream \<Rightarrow> u64" where
  "ByteStream_buffer_size s = bs_size s"

definition ByteStream_buffer_empty :: "byte_stream \<Rightarrow> bool" where
  "ByteStream_buffer_empty s = (bs_size s = 0)"

definition ByteStream_eof :: "byte_stream \<Rightarrow> bool" where
  "ByteStream_eof s = (bs_if_end s \<and> bs_size s = 0)"

definition ByteStream_bytes_written :: "byte_stream \<Rightarrow> u64" where
  "ByteStream_bytes_written s = bs_num_write s"

definition ByteStream_bytes_read :: "byte_stream \<Rightarrow> u64" where
  "ByteStream_bytes_read s = bs_num_read s"

definition ByteStream_remaining_capacity :: "byte_stream \<Rightarrow> u64" where
  "ByteStream_remaining_capacity s = sub64 (bs_capacity s) (bs_size s)"

section \<open>Abstraction and invariant\<close>

definition bs_bytes :: "byte_stream \<Rightarrow> byte list" where
  "bs_bytes s = bl_bytes (bs_stream_buffer s)"

definition bs_inv :: "byte_stream \<Rightarrow> bool" where
  "bs_inv s \<longleftrightarrow>
     bl_wf (bs_stream_buffer s) \<and> bs_size s = length (bs_bytes s) \<and>
     bs_size s \<le> bs_capacity s \<and> bs_capacity s < two64 \<and>
     bs_num_read s < two64 \<and> bs_num_write s = add64 (bs_num_read s) (bs_size s)"

section \<open>The interface: a bounded first-in first-out queue\<close>

datatype 'a fifo_op = Put "'a list" | Get nat

text \<open>
  A run of the queue under a list of operations: what was accepted, what was read, and the final state.
\<close>

fun fifo_run ::
  "('s \<Rightarrow> 'a list \<Rightarrow> nat \<times> 's) \<Rightarrow> ('s \<Rightarrow> nat \<Rightarrow> ('a list \<times> 's) result) \<Rightarrow> 's \<Rightarrow> 'a fifo_op list
   \<Rightarrow> ('a list \<times> 'a list \<times> 's) result" where
  "fifo_run put get s [] = Inr ([], [], s)"
| "fifo_run put get s (Put d # ops) =
     (let (n, s') = put s d
      in rbind (fifo_run put get s' ops) (\<lambda>(acc, out, t). Inr (take n d @ acc, out, t)))"
| "fifo_run put get s (Get n # ops) =
     rbind (get s n) (\<lambda>(d, s').
       rbind (fifo_run put get s' ops) (\<lambda>(acc, out, t). Inr (acc, d @ out, t)))"

definition fifo_op_ok :: "'a fifo_op \<Rightarrow> bool" where
  "fifo_op_ok p \<longleftrightarrow> (case p of Put d \<Rightarrow> True | Get n \<Rightarrow> n < two64)"

locale bounded_fifo =
  fixes inv :: "'s \<Rightarrow> bool"
    and contents :: "'s \<Rightarrow> 'a list"
    and cap :: "'s \<Rightarrow> nat"
    and put :: "'s \<Rightarrow> 'a list \<Rightarrow> nat \<times> 's"
    and get :: "'s \<Rightarrow> nat \<Rightarrow> ('a list \<times> 's) result"
  assumes put_law:
      "inv s \<Longrightarrow> put s d = (n, s') \<Longrightarrow>
       n = min (length d) (cap s - length (contents s)) \<and> inv s' \<and> cap s' = cap s \<and>
       contents s' = contents s @ take n d"
    and get_law:
      "inv s \<Longrightarrow> n < two64 \<Longrightarrow>
       \<exists>s'. get s n = Inr (take n (contents s), s') \<and> inv s' \<and> cap s' = cap s \<and>
            contents s' = drop n (contents s)"
    and bounded: "inv s \<Longrightarrow> length (contents s) \<le> cap s"
begin

text \<open>
  Every run ends without an exception, keeps the invariant and the capacity, and neither loses,
  duplicates nor reorders anything: initial contents followed by the accepted data is exactly the
  data read followed by the final contents.
\<close>

lemma run_fifo:
  "inv s \<Longrightarrow> list_all fifo_op_ok ops \<Longrightarrow>
   \<exists>acc out t. fifo_run put get s ops = Inr (acc, out, t) \<and> inv t \<and> cap t = cap s \<and>
     contents s @ acc = out @ contents t"
proof (induction ops arbitrary: s)
  case (Cons p ops)
  show ?case
  proof (cases p)
    case (Put d)
    obtain n s' where ns: "put s d = (n, s')" by (cases "put s d")
    with Cons.prems have law: "inv s'" "cap s' = cap s" "contents s' = contents s @ take n d"
      using put_law by blast+
    with Cons.IH[of s'] Cons.prems obtain acc out t
      where "fifo_run put get s' ops = Inr (acc, out, t)" "inv t" "cap t = cap s"
        "contents s' @ acc = out @ contents t"
      by auto
    with law ns Put show ?thesis by auto
  next
    case (Get n)
    with Cons.prems obtain s' where gs: "get s n = Inr (take n (contents s), s')"
      and law: "inv s'" "cap s' = cap s" "contents s' = drop n (contents s)"
      using get_law[of s n] by (auto simp: fifo_op_ok_def)
    with Cons.IH[of s'] Cons.prems obtain acc out t
      where "fifo_run put get s' ops = Inr (acc, out, t)" "inv t" "cap t = cap s"
        "contents s' @ acc = out @ contents t"
      by auto
    with law gs Get show ?thesis
      by (auto simp: append_assoc [symmetric] simp del: append_assoc)
         (metis append.assoc append_take_drop_id)
  qed
qed simp

lemma run_bounded:
  assumes "inv s" and "list_all fifo_op_ok ops" and "fifo_run put get s ops = Inr (acc, out, t)"
  shows "length (contents t) \<le> cap s"
  using run_fifo[OF assms(1,2)] assms(3) bounded by force

end

section \<open>Lemmas on the operations\<close>

lemmas ByteStream_accessors =
  ByteStream_error_def ByteStream_input_ended_def ByteStream_buffer_size_def
  ByteStream_buffer_empty_def ByteStream_eof_def ByteStream_bytes_written_def
  ByteStream_bytes_read_def

lemma bs_new_inv [simp]: "bs_inv (ByteStream_new c) \<longleftrightarrow> c < two64"
  by (auto simp: bs_inv_def ByteStream_new_def bs_bytes_def)

lemma bs_new_bytes [simp, bytes_of]: "bs_bytes (ByteStream_new c) = []"
  by (simp add: ByteStream_new_def bs_bytes_def)

lemma bs_new_fields [simp]:
  "bs_size (ByteStream_new c) = 0" "bs_capacity (ByteStream_new c) = c"
  "bs_num_write (ByteStream_new c) = 0" "bs_num_read (ByteStream_new c) = 0"
  "bs_if_end (ByteStream_new c) = False" "bs_error (ByteStream_new c) = False"
  by (simp_all add: ByteStream_new_def)

lemma bs_remaining: "bs_inv s \<Longrightarrow> ByteStream_remaining_capacity s = bs_capacity s - bs_size s"
  by (simp add: ByteStream_remaining_capacity_def bs_inv_def u64_exact)

lemma bs_flags [simp]:
  "bs_inv (ByteStream_end_input s) = bs_inv s"
  "bs_inv (ByteStream_set_error s) = bs_inv s"
  "bs_bytes (ByteStream_end_input s) = bs_bytes s"
  "bs_bytes (ByteStream_set_error s) = bs_bytes s"
  by (simp_all add: bs_inv_def bs_bytes_def ByteStream_end_input_def ByteStream_set_error_def)

lemma end_input_fields [simp]:
  "bs_stream_buffer (ByteStream_end_input s) = bs_stream_buffer s"
  "bs_size (ByteStream_end_input s) = bs_size s"
  "bs_capacity (ByteStream_end_input s) = bs_capacity s"
  "bs_num_write (ByteStream_end_input s) = bs_num_write s"
  "bs_num_read (ByteStream_end_input s) = bs_num_read s"
  "bs_if_end (ByteStream_end_input s)"
  "bs_error (ByteStream_end_input s) = bs_error s"
  by (simp_all add: ByteStream_end_input_def)

lemma set_error_fields [simp]:
  "bs_stream_buffer (ByteStream_set_error s) = bs_stream_buffer s"
  "bs_size (ByteStream_set_error s) = bs_size s"
  "bs_capacity (ByteStream_set_error s) = bs_capacity s"
  "bs_num_write (ByteStream_set_error s) = bs_num_write s"
  "bs_num_read (ByteStream_set_error s) = bs_num_read s"
  "bs_if_end (ByteStream_set_error s) = bs_if_end s"
  "bs_error (ByteStream_set_error s)"
  by (simp_all add: ByteStream_set_error_def)

lemma write_length:
  "bs_inv s \<Longrightarrow> fst (ByteStream_write s d) = min (length d) (bs_capacity s - bs_size s)"
  by (simp add: ByteStream_write_def Let_def bs_inv_def u64_exact)

lemma write_bytes [bytes_of]:
  "bs_bytes (snd (ByteStream_write s d)) = bs_bytes s @ take (fst (ByteStream_write s d)) d"
  by (simp add: ByteStream_write_def Let_def bs_bytes_def)

lemma write_frame [simp]:
  "bs_capacity (snd (ByteStream_write s d)) = bs_capacity s"
  "bs_num_read (snd (ByteStream_write s d)) = bs_num_read s"
  "bs_if_end (snd (ByteStream_write s d)) = bs_if_end s"
  "bs_error (snd (ByteStream_write s d)) = bs_error s"
  by (simp_all add: ByteStream_write_def Let_def)

lemma write_counts:
  "bs_inv s \<Longrightarrow> bs_size (snd (ByteStream_write s d)) = bs_size s + fst (ByteStream_write s d)"
  "bs_num_write (snd (ByteStream_write s d)) = add64 (bs_num_write s) (fst (ByteStream_write s d))"
  by (auto simp: ByteStream_write_def Let_def bs_inv_def u64_exact)

lemma write_inv: "bs_inv s \<Longrightarrow> bs_inv (snd (ByteStream_write s d))"
proof -
  assume inv: "bs_inv s"
  let ?n = "fst (ByteStream_write s d)"
  have n: "?n \<le> bs_capacity s - bs_size s" "?n \<le> length d"
    using inv by (simp_all add: write_length)
  have "bl_wf (bs_stream_buffer (snd (ByteStream_write s d)))"
    using inv n
    by (auto simp: ByteStream_write_def Let_def bs_inv_def bl_wf_append bs_bytes_def sub64_exact)
  moreover have "add64 (add64 (bs_num_read s) (bs_size s)) ?n = add64 (bs_num_read s) (bs_size s + ?n)"
    using inv n by (auto simp: add64_assoc bs_inv_def u64_exact)
  ultimately show ?thesis
    using inv n unfolding bs_inv_def
    by (auto simp: write_bytes write_counts(1)[OF inv] write_counts(2) bs_inv_def)
qed

lemma peek_bytes [bytes_of]:
  "bs_inv s \<Longrightarrow> n < two64 \<Longrightarrow> ByteStream_peek_output s n = take n (bs_bytes s)"
  by (auto simp: ByteStream_peek_output_def bs_inv_def bs_bytes_def min_def)

text \<open>
  Popping never throws: the requested length is clamped to what is buffered, and the buffer holds
  exactly that many bytes.
\<close>

lemma pop_ok:
  assumes "bs_inv s" and "n < two64"
  shows "\<exists>s'. ByteStream_pop_output s n = Inr s' \<and> bs_inv s' \<and> bs_bytes s' = drop n (bs_bytes s) \<and>
    bs_size s' = bs_size s - min n (bs_size s) \<and> bs_capacity s' = bs_capacity s \<and>
    bs_num_write s' = bs_num_write s \<and> bs_num_read s' = add64 (bs_num_read s) (min n (bs_size s)) \<and>
    bs_if_end s' = bs_if_end s \<and> bs_error s' = bs_error s"
proof -
  let ?l = "min n (bs_size s)"
  have l: "?l < two64" "?l \<le> length (bl_bytes (bs_stream_buffer s))"
    using assms by (auto simp: bs_inv_def bs_bytes_def)
  then obtain bl where bl: "BufferList_remove_prefix (bs_stream_buffer s) ?l = Inr bl" "bl_wf bl"
      "bl_bytes bl = drop ?l (bl_bytes (bs_stream_buffer s))"
    using assms BufferList_remove_prefix_Inr[of "bs_stream_buffer s" ?l] by (auto simp: bs_inv_def)
  have drop: "drop ?l (bl_bytes (bs_stream_buffer s)) = drop n (bl_bytes (bs_stream_buffer s))"
    using assms by (auto simp: bs_inv_def bs_bytes_def min_def)
  have "add64 (add64 (bs_num_read s) ?l) (bs_size s - ?l) = add64 (bs_num_read s) (bs_size s)"
    using assms by (auto simp: add64_assoc bs_inv_def u64_exact)
  then show ?thesis
    using assms bl drop
    by (auto simp: ByteStream_pop_output_def Let_def bs_inv_def bs_bytes_def u64_exact min_def)
qed

lemma read_ok:
  assumes "bs_inv s" and "n < two64"
  shows "\<exists>s'. ByteStream_read s n = Inr (take n (bs_bytes s), s') \<and> bs_inv s' \<and>
    bs_bytes s' = drop n (bs_bytes s) \<and>
    bs_size s' = bs_size s - min n (bs_size s) \<and> bs_capacity s' = bs_capacity s \<and>
    bs_num_write s' = bs_num_write s \<and> bs_num_read s' = add64 (bs_num_read s) (min n (bs_size s)) \<and>
    bs_if_end s' = bs_if_end s \<and> bs_error s' = bs_error s"
  using pop_ok[OF assms] peek_bytes[OF assms] by (auto simp: ByteStream_read_def)

section \<open>The stream implements the interface\<close>

interpretation byte_fifo: bounded_fifo bs_inv bs_bytes bs_capacity ByteStream_write ByteStream_read
proof unfold_locales
  fix s d n s' assume "bs_inv s" "ByteStream_write s d = (n, s')"
  then show "n = min (length d) (bs_capacity s - length (bs_bytes s)) \<and> bs_inv s' \<and>
      bs_capacity s' = bs_capacity s \<and> bs_bytes s' = bs_bytes s @ take n d"
    using write_length[of s d] write_inv[of s d] write_bytes[of s d] write_frame(1)[of s d]
    by (simp add: bs_inv_def)
next
  fix s n assume "bs_inv s" "n < two64"
  then show "\<exists>s'. ByteStream_read s n = Inr (take n (bs_bytes s), s') \<and> bs_inv s' \<and>
      bs_capacity s' = bs_capacity s \<and> bs_bytes s' = drop n (bs_bytes s)"
    using read_ok by blast
next
  fix s assume "bs_inv s"
  then show "length (bs_bytes s) \<le> bs_capacity s" by (simp add: bs_inv_def)
qed

text \<open>The definitions a concrete evaluation unfolds.\<close>

lemmas bs_eval =
  ByteStream_new_def ByteStream_write_def ByteStream_peek_output_def ByteStream_pop_output_def
  ByteStream_read_def ByteStream_end_input_def ByteStream_buffer_size_def
  ByteStream_remaining_capacity_def ByteStream_bytes_read_def ByteStream_bytes_written_def

section \<open>Properties\<close>

text \<open>C12: over any sequence of writes and reads on a fresh stream no call throws, the bytes the writes
  accepted are exactly the bytes the reads returned followed by the bytes still buffered, in order,
  and never more than the capacity is buffered.\<close>

theorem byte_stream_fifo:
  assumes "c < two64" and "list_all fifo_op_ok ops"
  shows "\<exists>acc out s. fifo_run ByteStream_write ByteStream_read (ByteStream_new c) ops = Inr (acc, out, s) \<and>
    acc = out @ bs_bytes s \<and> ByteStream_buffer_size s = length (bs_bytes s) \<and>
    length (bs_bytes s) \<le> c \<and> bs_inv s"
proof -
  have "bs_inv (ByteStream_new c)" using assms(1) by simp
  from byte_fifo.run_fifo[OF this assms(2)] obtain acc out s
    where run: "fifo_run ByteStream_write ByteStream_read (ByteStream_new c) ops = Inr (acc, out, s)"
      and inv: "bs_inv s" "bs_capacity s = c" and eq: "acc = out @ bs_bytes s"
    by (auto simp: bytes_of)
  then show ?thesis by (auto simp: bs_inv_def ByteStream_buffer_size_def)
qed

theorem byte_stream_fifo_witness:
  "\<exists>acc out s. fifo_run ByteStream_write ByteStream_read (ByteStream_new 3)
      [Put [1, 2], Get 1, Put [3, 4, 5]] = Inr (acc, out, s) \<and>
    acc = out @ bs_bytes s \<and> ByteStream_buffer_size s = length (bs_bytes s) \<and>
    length (bs_bytes s) \<le> 3 \<and> bs_inv s"
  by (rule byte_stream_fifo) (simp_all add: fifo_op_ok_def)

text \<open>A write accepts as many bytes as fit, appends exactly those, and keeps the counters: the
  number written minus the number read is the buffered size.\<close>

theorem byte_stream_write_accepts:
  assumes "bs_inv s"
  shows "fst (ByteStream_write s d) = min (length d) (ByteStream_remaining_capacity s) \<and>
    bs_bytes (snd (ByteStream_write s d)) = bs_bytes s @ take (fst (ByteStream_write s d)) d \<and>
    bs_inv (snd (ByteStream_write s d)) \<and>
    ByteStream_bytes_written (snd (ByteStream_write s d))
      = add64 (ByteStream_bytes_written s) (fst (ByteStream_write s d))"
  using write_length[OF assms, of d] bs_remaining[OF assms] write_bytes[of s d] write_inv[OF assms, of d]
    write_counts(2)[of s d]
  by (simp add: ByteStream_bytes_written_def)

theorem byte_stream_write_accepts_witness:
  "bs_inv (ByteStream_new 2) \<and> fst (ByteStream_write (ByteStream_new 2) [7, 8, 9]) = 2"
  using byte_stream_write_accepts[of "ByteStream_new 2" "[7, 8, 9]"]
  by (simp add: ByteStream_remaining_capacity_def ByteStream_buffer_size_def sub64_def)

text \<open>Writing after \<open>end_input\<close> is not refused: the flag is never read by \<open>write\<close>.\<close>

lemma write_after_end_accepted:
  "ByteStream_bytes_written (snd (ByteStream_write (ByteStream_end_input (ByteStream_new 4)) [1])) = 1"
  by (simp add: bs_eval buffer_eval)

end
