(* ===== verification/Stream_Reassembler.thy ===== *)
theory Stream_Reassembler
  imports Byte_Stream
begin

text \<open>
  \<^verbatim>\<open>libsponge/stream_reassembler.hh\<close> and \<^verbatim>\<open>stream_reassembler.cc\<close>.  The ordered set of pending
  substrings is a list strictly sorted by index, an iterator is a position in it (the length of the
  list is \<open>end()\<close>), and a string built from an iterator range that is not inside the string is
  \<open>Undefined_behaviour\<close>.
\<close>

section \<open>The reassembler\<close>

record typeUnassembled =
  ua_index :: u64
  ua_data :: "byte list"

record reassembler =
  ra_output :: byte_stream
  ra_unassembled :: "typeUnassembled list"
  ra_first_unassemble_byte :: u64
  ra_num_unassembled_byte :: u64
  ra_capacity :: u64
  ra_eof :: bool

definition StreamReassembler_new :: "u64 \<Rightarrow> reassembler" where
  "StreamReassembler_new capacity =
     \<lparr>ra_output = ByteStream_new capacity, ra_unassembled = [], ra_first_unassemble_byte = 0,
      ra_num_unassembled_byte = 0, ra_capacity = capacity, ra_eof = False\<rparr>"

text \<open>\<open>std::string(s.begin() + b, s.begin() + e)\<close>.\<close>

definition string_range :: "byte list \<Rightarrow> u64 \<Rightarrow> u64 \<Rightarrow> byte list result" where
  "string_range s b e =
     (if b \<le> e \<and> e \<le> length s then Inr (take (e - b) (drop b s))
      else Inl (Undefined_behaviour ''std::string: invalid iterator range''))"

text \<open>The operations of \<open>std::set<typeUnassembled>\<close>, ordered by \<open>index\<close>.\<close>

definition set_lower_bound :: "typeUnassembled list \<Rightarrow> u64 \<Rightarrow> nat" where
  "set_lower_bound us i = length (takeWhile (\<lambda>u. ua_index u < i) us)"

definition set_erase :: "typeUnassembled list \<Rightarrow> nat \<Rightarrow> typeUnassembled list" where
  "set_erase us p = take p us @ drop (Suc p) us"

fun set_insert :: "typeUnassembled \<Rightarrow> typeUnassembled list \<Rightarrow> typeUnassembled list" where
  "set_insert x [] = [x]"
| "set_insert x (u # us) =
     (if ua_index x < ua_index u then x # u # us
      else if ua_index x = ua_index u then u # us
      else u # set_insert x us)"

definition merge_substring ::
  "u64 \<Rightarrow> byte list \<Rightarrow> u64 \<Rightarrow> byte list \<Rightarrow> (bool \<times> u64 \<times> byte list) result" where
  "merge_substring index data index2 data2 =
     (let l1 = index; r1 = sub64 (add64 l1 (length data)) 1;
          l2 = index2; r2 = sub64 (add64 l2 (length data2)) 1
      in if add64 r1 1 < l2 \<or> add64 r2 1 < l1 then Inr (False, index, data)
         else if l1 \<le> l2 then
           (if r1 < r2
            then rbind (string_range data2 (add64 (sub64 r1 l2) 1) (length data2))
                   (\<lambda>t. Inr (True, min l1 l2, data @ t))
            else Inr (True, min l1 l2, data))
         else
           (if r2 < r1
            then rbind (string_range data (add64 (sub64 r2 l1) 1) (length data))
                   (\<lambda>t. Inr (True, min l1 l2, data2 @ t))
            else Inr (True, min l1 l2, data2)))"

text \<open>
  The first loop of \<open>push_substring\<close>, lines 56 to 75: from the iterator backwards.
\<close>

function merge_backward ::
  "nat \<Rightarrow> u64 \<Rightarrow> byte list \<Rightarrow> typeUnassembled list \<Rightarrow> u64
   \<Rightarrow> (u64 \<times> byte list \<times> typeUnassembled list \<times> u64) result" where
  "merge_backward iter resIndex resData us num =
     (if iter = 0 then Inr (resIndex, resData, us, num)
      else
        let it = (if iter = length us then iter - 1 else iter)
        in if length us \<le> it then Inl (Undefined_behaviour ''std::set: dereference of end()'')
           else rbind (merge_substring resIndex resData (ua_index (us ! it)) (ua_data (us ! it)))
             (\<lambda>(merged, resIndex', resData').
                if merged then
                  (if it \<noteq> 0
                   then merge_backward (it - 1) resIndex' resData' (set_erase us it)
                          (sub64 num (length (ua_data (us ! it))))
                   else Inr (resIndex', resData', set_erase us it,
                          sub64 num (length (ua_data (us ! it)))))
                else Inr (resIndex', resData', us, num)))"
  by pat_completeness auto
termination
  by (relation "measure (\<lambda>(iter, ri, rd, us, num). length us)") (auto simp: set_erase_def)

text \<open>
  The second loop, lines 82 to 89: from the iterator forwards.  The argument is the part of the set
  from the iterator on; the part before it is not touched.
\<close>

fun merge_forward ::
  "u64 \<Rightarrow> byte list \<Rightarrow> typeUnassembled list \<Rightarrow> u64
   \<Rightarrow> (u64 \<times> byte list \<times> typeUnassembled list \<times> u64) result" where
  "merge_forward resIndex resData [] num = Inr (resIndex, resData, [], num)"
| "merge_forward resIndex resData (u # us) num =
     rbind (merge_substring resIndex resData (ua_index u) (ua_data u))
       (\<lambda>(merged, resIndex', resData').
          if merged then merge_forward resIndex' resData' us (sub64 num (length (ua_data u)))
          else Inr (resIndex', resData', u # us, num))"

definition StreamReassembler_unassembled_bytes :: "reassembler \<Rightarrow> u64" where
  "StreamReassembler_unassembled_bytes r = ra_num_unassembled_byte r"

definition StreamReassembler_empty :: "reassembler \<Rightarrow> bool" where
  "StreamReassembler_empty r = (ra_num_unassembled_byte r = 0)"

definition StreamReassembler_stream_out :: "reassembler \<Rightarrow> byte_stream" where
  "StreamReassembler_stream_out r = ra_output r"

definition StreamReassembler_first_unassembled_byte :: "reassembler \<Rightarrow> u64" where
  "StreamReassembler_first_unassembled_byte r = ra_first_unassemble_byte r"

definition StreamReassembler_eof :: "reassembler \<Rightarrow> bool" where
  "StreamReassembler_eof r = ra_eof r"

text \<open>
  \<open>push_substring\<close>, in the parts its text has: the early return, the trimming to the window, the
  two loops, and the final write or insertion.
\<close>

definition first_unacceptable_byte :: "reassembler \<Rightarrow> u64" where
  "first_unacceptable_byte r =
     sub64 (add64 (ra_first_unassemble_byte r) (ra_capacity r)) (ByteStream_buffer_size (ra_output r))"

definition push_trim :: "reassembler \<Rightarrow> byte list \<Rightarrow> u64 \<Rightarrow> (u64 \<times> byte list) result" where
  "push_trim r data index =
     (let resIndex = (if index < ra_first_unassemble_byte r then ra_first_unassemble_byte r else index);
          beginIndex = (if index < ra_first_unassemble_byte r
                        then sub64 (ra_first_unassemble_byte r) index else 0);
          endIndex = (if first_unacceptable_byte r \<le> add64 index (length data)
                      then sub64 (first_unacceptable_byte r) index else length data)
      in rbind (string_range data beginIndex endIndex) (\<lambda>resData. Inr (resIndex, resData)))"

definition push_merge ::
  "reassembler \<Rightarrow> u64 \<Rightarrow> byte list \<Rightarrow> (u64 \<times> byte list \<times> typeUnassembled list \<times> u64) result" where
  "push_merge r resIndex resData =
     rbind (merge_backward (set_lower_bound (ra_unassembled r) resIndex) resIndex resData
              (ra_unassembled r) (ra_num_unassembled_byte r))
       (\<lambda>(resIndex1, resData1, us1, num1).
          let p = set_lower_bound us1 resIndex1
          in rbind (merge_forward resIndex1 resData1 (drop p us1) num1)
               (\<lambda>(resIndex2, resData2, us2, num2). Inr (resIndex2, resData2, take p us1 @ us2, num2)))"

definition push_store ::
  "reassembler \<Rightarrow> bool \<Rightarrow> u64 \<Rightarrow> byte list \<Rightarrow> typeUnassembled list \<Rightarrow> u64 \<Rightarrow> reassembler" where
  "push_store r eof resIndex resData us num =
     (let r1 = r\<lparr>ra_unassembled := us, ra_num_unassembled_byte := num\<rparr>;
          r2 = (if resIndex = ra_first_unassemble_byte r1 then
                  (let (wSize, out) = ByteStream_write (ra_output r1) resData;
                       rw = (if wSize = length resData \<and> eof
                             then r1\<lparr>ra_eof := True, ra_output := ByteStream_end_input out\<rparr>
                             else r1\<lparr>ra_output := out\<rparr>)
                   in rw\<lparr>ra_first_unassemble_byte := add64 (ra_first_unassemble_byte rw) wSize\<rparr>)
                else r1);
          r3 = (if resData \<noteq> [] \<and> ra_first_unassemble_byte r2 < resIndex
                then r2\<lparr>ra_unassembled :=
                          set_insert \<lparr>ua_index = resIndex, ua_data = resData\<rparr> (ra_unassembled r2),
                        ra_num_unassembled_byte :=
                          add64 (ra_num_unassembled_byte r2) (length resData)\<rparr>
                else r2)
      in if StreamReassembler_empty r3 \<and> ra_eof r3
         then r3\<lparr>ra_output := ByteStream_end_input (ra_output r3)\<rparr> else r3)"

definition StreamReassembler_push_substring ::
  "reassembler \<Rightarrow> byte list \<Rightarrow> u64 \<Rightarrow> bool \<Rightarrow> reassembler result" where
  "StreamReassembler_push_substring r0 data index eof =
     (let r = r0\<lparr>ra_eof := ra_eof r0 \<or> eof\<rparr>
      in if data = [] \<or> add64 index (length data) \<le> ra_first_unassemble_byte r
         then Inr (if ra_num_unassembled_byte r = 0 \<and> ra_eof r
                   then r\<lparr>ra_output := ByteStream_end_input (ra_output r)\<rparr> else r)
         else rbind (push_trim r data index) (\<lambda>(resIndex, resData).
              rbind (push_merge r resIndex resData) (\<lambda>(resIndex', resData', us, num).
              Inr (push_store r eof resIndex' resData' us num))))"

declare merge_backward.simps [simp del]

end
