(* ===== verification/Reassembler_Correct.thy ===== *)
theory Reassembler_Correct
  imports Stream_Reassembler
begin

text \<open>
  Correctness of the reassembler against the stream \<open>S\<close> the peer is sending.  A substring is
  consistent with \<open>S\<close> when it is a piece of it (\<open>piece_of\<close>); the invariant \<open>ra_inv S\<close> says that the
  output stream holds exactly the bytes of \<open>S\<close> between what was read and the first unassembled byte,
  and that every pending substring is a piece of \<open>S\<close> beyond it and inside the window.  \<open>ra_known\<close> is the
  set of stream positions the reassembler has: \<open>push_substring\<close> adds to it exactly the part of the new
  substring that is inside the window, and the first unassembled byte is the least position missing.
\<close>

section \<open>Specification vocabulary\<close>

definition piece_of :: "byte list \<Rightarrow> nat \<Rightarrow> byte list \<Rightarrow> bool" where
  "piece_of S i d \<longleftrightarrow> i + length d \<le> length S \<and> d = substr S i (length d)"

definition ua_end :: "typeUnassembled \<Rightarrow> nat" where
  "ua_end u = ua_index u + length (ua_data u)"

definition us_range :: "typeUnassembled list \<Rightarrow> nat set" where
  "us_range us = (\<Union>u\<in>set us. {ua_index u..<ua_end u})"

definition us_total :: "typeUnassembled list \<Rightarrow> nat" where
  "us_total us = sum_list (map (\<lambda>u. length (ua_data u)) us)"

definition us_sorted :: "typeUnassembled list \<Rightarrow> bool" where
  "us_sorted us \<longleftrightarrow> sorted_wrt (<) (map ua_index us)"

definition us_pieces :: "byte list \<Rightarrow> typeUnassembled list \<Rightarrow> bool" where
  "us_pieces S us \<longleftrightarrow>
     (\<forall>u\<in>set us. piece_of S (ua_index u) (ua_data u) \<and> ua_data u \<noteq> [] \<and> 0 < ua_index u)"

definition ra_limit :: "reassembler \<Rightarrow> nat" where
  "ra_limit r = bs_num_read (ra_output r) + ra_capacity r"

definition ra_known :: "reassembler \<Rightarrow> nat set" where
  "ra_known r = {..<ra_first_unassemble_byte r} \<union> us_range (ra_unassembled r)"

definition ra_inv :: "byte list \<Rightarrow> reassembler \<Rightarrow> bool" where
  "ra_inv S r \<longleftrightarrow>
     bs_inv (ra_output r) \<and> bs_capacity (ra_output r) = ra_capacity r \<and> ra_capacity r < 2 ^ 32 \<and>
     length S < 2 ^ 63 \<and> ra_first_unassemble_byte r \<le> length S \<and>
     bs_num_read (ra_output r) + bs_size (ra_output r) = ra_first_unassemble_byte r \<and>
     bs_bytes (ra_output r) = substr S (bs_num_read (ra_output r)) (bs_size (ra_output r)) \<and>
     us_sorted (ra_unassembled r) \<and> us_pieces S (ra_unassembled r) \<and>
     (\<forall>u\<in>set (ra_unassembled r). ra_first_unassemble_byte r < ua_index u \<and> ua_end u \<le> ra_limit r) \<and>
     ra_num_unassembled_byte r = us_total (ra_unassembled r)"

section \<open>Pieces and pending sets\<close>

lemma piece_of_substr [simp]: "piece_of S i (substr S i n) \<longleftrightarrow> i + min n (length S - i) \<le> length S"
  by (auto simp: piece_of_def substr_def min_def)

lemma us_range_simps [simp]:
  "us_range [] = {}"
  "us_range (u # us) = {ua_index u..<ua_end u} \<union> us_range us"
  "us_range (us @ vs) = us_range us \<union> us_range vs"
  by (auto simp: us_range_def)

lemma us_total_simps [simp]:
  "us_total [] = 0"
  "us_total (u # us) = length (ua_data u) + us_total us"
  "us_total (us @ vs) = us_total us + us_total vs"
  by (auto simp: us_total_def)

lemma us_pieces_simps [simp]:
  "us_pieces S []"
  "us_pieces S (u # us) \<longleftrightarrow>
     (piece_of S (ua_index u) (ua_data u) \<and> ua_data u \<noteq> [] \<and> 0 < ua_index u) \<and> us_pieces S us"
  "us_pieces S (us @ vs) \<longleftrightarrow> us_pieces S us \<and> us_pieces S vs"
  by (auto simp: us_pieces_def)

lemma us_sorted_simps [simp]:
  "us_sorted []"
  "us_sorted (u # us) \<longleftrightarrow> (\<forall>v\<in>set us. ua_index u < ua_index v) \<and> us_sorted us"
  "us_sorted (us @ vs) \<longleftrightarrow>
     us_sorted us \<and> us_sorted vs \<and> (\<forall>u\<in>set us. \<forall>v\<in>set vs. ua_index u < ua_index v)"
  by (auto simp: us_sorted_def sorted_wrt_append)

lemma us_range_set: "set us = set vs \<Longrightarrow> us_range us = us_range vs"
  by (simp add: us_range_def)

lemma set_erase_split:
  assumes "p < length us"
  obtains A B where "us = A @ (us ! p) # B" and "set_erase us p = A @ B"
  using id_take_nth_drop[OF assms] that by (auto simp: set_erase_def)

lemma set_lower_bound_le: "set_lower_bound us i \<le> length us"
  by (simp add: set_lower_bound_def length_takeWhile_le)

lemma take_lower_bound: "u \<in> set (take (set_lower_bound us i) us) \<Longrightarrow> ua_index u < i"
  unfolding set_lower_bound_def by (metis set_takeWhileD takeWhile_eq_take)

lemma drop_lower_bound:
  assumes "us_sorted us" and "u \<in> set (drop (set_lower_bound us i) us)"
  shows "i \<le> ua_index u"
proof -
  have "u \<in> set (dropWhile (\<lambda>u. ua_index u < i) us)"
    using assms(2) by (simp add: set_lower_bound_def dropWhile_eq_drop)
  with assms(1) show ?thesis
    by (induction us) (auto split: if_splits)
qed

lemma lower_bound_0: "\<forall>u\<in>set us. i \<le> ua_index u \<Longrightarrow> set_lower_bound us i = 0"
  by (cases us) (auto simp: set_lower_bound_def)

lemma set_insert_new:
  assumes "us_sorted us" and "\<forall>u\<in>set us. ua_index u \<noteq> ua_index x"
  shows "set (set_insert x us) = insert x (set us) \<and> us_sorted (set_insert x us) \<and>
         us_total (set_insert x us) = length (ua_data x) + us_total us"
  using assms by (induction x us rule: set_insert.induct) auto

text \<open>
  The counter of pending bytes cannot wrap: the pending substrings start at different positions of
  the window and none is longer than the window.
\<close>

lemma us_total_le:
  assumes "us_sorted us" and "\<forall>u\<in>set us. fu < ua_index u \<and> ua_end u \<le> fu + c" and "us_pieces S us"
  shows "us_total us \<le> c * c"
proof -
  have "distinct (map ua_index us)"
    using assms(1) by (simp add: us_sorted_def strict_sorted_iff)
  then have "length us = card (set (map ua_index us))"
    by (metis distinct_card length_map)
  also have "\<dots> \<le> card {Suc fu..<fu + c}"
  proof (rule card_mono)
    show "set (map ua_index us) \<subseteq> {Suc fu..<fu + c}"
    proof
      fix i assume "i \<in> set (map ua_index us)"
      then obtain u where u: "u \<in> set us" "i = ua_index u" by auto
      with assms(3) have "0 < length (ua_data u)" by (simp add: us_pieces_def)
      moreover have "fu < ua_index u" "ua_end u \<le> fu + c" using assms(2) u by auto
      ultimately show "i \<in> {Suc fu..<fu + c}" using u
        by (simp add: ua_end_def del: length_greater_0_conv)
    qed
  qed simp
  finally have len: "length us \<le> c" by simp
  have "us_total us \<le> length us * c"
    using assms(2) by (induction us) (fastforce simp: ua_end_def)+
  also have "\<dots> \<le> c * c" using len by simp
  finally show ?thesis .
qed

section \<open>Merging two substrings\<close>

lemma pred_sub_succ:
  assumes "0 < a" and "b \<le> a" and "a < two64"
  shows "add64 (sub64 (a - Suc 0) b) (Suc 0) = a - b"
proof (cases "b = a")
  case True
  with assms have "sub64 (a - Suc 0) b = two64 - 1" by (subst sub64_wrap) auto
  with True show ?thesis by (simp add: add64_def)
next
  case False
  with assms show ?thesis by (simp add: u64_exact)
qed

lemma succ_pred: "a < two64 \<Longrightarrow> add64 (sub64 a (Suc 0)) (Suc 0) = a"
  by (rule add64_sub64_cancel) auto

lemma pred_succ: "0 < a \<Longrightarrow> a < two64 \<Longrightarrow> add64 (a - Suc 0) (Suc 0) = a"
  by (simp add: add64_exact)

lemma string_range_suffix: "k \<le> length s \<Longrightarrow> string_range s k (length s) = Inr (drop k s)"
  by (simp add: string_range_def)

lemma piece_append:
  assumes "piece_of S i d" and "piece_of S j e" and "j \<le> i + length d" and "i + length d \<le> j + length e"
  shows "d @ drop (i + length d - j) e = substr S i (j + length e - i)"
proof -
  let ?b = "i + length d"
  have "drop (?b - j) e = substr S ?b (length e - (?b - j))"
    using assms drop_substr[of "?b - j" S j "length e"] by (simp add: piece_of_def)
  moreover have "d = substr S i (length d)"
    using assms(1) by (simp add: piece_of_def)
  moreover have "length d + (length e - (?b - j)) = j + length e - i"
    using assms by linarith
  ultimately show ?thesis by (metis substr_append)
qed

lemma merge_substring_spec:
  assumes "length S < two64" and "piece_of S i d" and "piece_of S j e" and "e \<noteq> []" and "0 < j"
  shows "merge_substring i d j e =
    (if i + length d < j \<or> j + length e < i then Inr (False, i, d)
     else Inr (True, min i j, substr S (min i j) (max (i + length d) (j + length e) - min i j)))"
proof -
  let ?a = "i + length d" and ?b = "j + length e"
  have le: "?a < two64" "?b < two64" "0 < ?b"
    using assms by (auto simp: piece_of_def)
  have ends: "add64 i (length d) = ?a" "add64 j (length e) = ?b"
    "add64 (sub64 ?a (Suc 0)) (Suc 0) = ?a" "add64 (sub64 ?b (Suc 0)) (Suc 0) = ?b"
    "sub64 ?b (Suc 0) = ?b - Suc 0" "add64 (?b - Suc 0) (Suc 0) = ?b"
    using le assms(5) by (auto simp: succ_pred intro!: add64_exact sub64_exact pred_succ)
  show ?thesis
  proof (cases "?a < j \<or> ?b < i")
    case True
    then show ?thesis by (simp add: merge_substring_def Let_def ends)
  next
    case False
    then have "j \<le> ?a" by auto
    with assms(5) have pos: "0 < ?a" "Suc 0 \<le> ?a" by linarith+
    have a1: "sub64 ?a (Suc 0) = ?a - Suc 0" "add64 (?a - Suc 0) (Suc 0) = ?a"
      by (rule sub64_exact[OF pos(2) le(1)], rule pred_succ[OF pos(1) le(1)])
    have lt: "?a - Suc 0 < ?b - Suc 0 \<longleftrightarrow> ?a < ?b" "?b - Suc 0 < ?a - Suc 0 \<longleftrightarrow> ?b < ?a"
      using pos(1) le(3) by linarith+
    show ?thesis
    proof (cases "i \<le> j")
      case True
      show ?thesis
      proof (cases "?a < ?b")
        case True
        have "string_range e (?a - j) (length e) = Inr (drop (?a - j) e)"
          using True by (intro string_range_suffix) auto
        with True \<open>i \<le> j\<close> False show ?thesis
          using pred_sub_succ[of ?a j] piece_append[OF assms(2,3)] pos le
          by (simp add: merge_substring_def Let_def ends a1 lt min_def max_def)
      next
        case b: False
        with True False assms(2) show ?thesis
          by (simp add: merge_substring_def Let_def ends a1 lt min_def max_def piece_of_def)
      qed
    next
      case ij: False
      show ?thesis
      proof (cases "?b < ?a")
        case True
        have "string_range d (?b - i) (length d) = Inr (drop (?b - i) d)"
          using True by (intro string_range_suffix) auto
        with True ij False show ?thesis
          using pred_sub_succ[of ?b i] piece_append[OF assms(3,2)] pos le
          by (simp add: merge_substring_def Let_def ends a1 lt min_def max_def)
      next
        case b: False
        with ij False assms(3) show ?thesis
          by (simp add: merge_substring_def Let_def ends a1 lt min_def max_def piece_of_def)
      qed
    qed
  qed
qed

section \<open>The two loops\<close>

text \<open>
  What both loops keep: the merged substring stays a piece of the stream, the set only shrinks, the
  positions covered stay the same, and the new ends are ends of what was merged.
\<close>

definition merge_post ::
  "byte list \<Rightarrow> nat \<Rightarrow> byte list \<Rightarrow> typeUnassembled list
   \<Rightarrow> nat \<Rightarrow> byte list \<Rightarrow> typeUnassembled list \<Rightarrow> bool" where
  "merge_post S i d us i' d' us' \<longleftrightarrow>
     piece_of S i' d' \<and> set us' \<subseteq> set us \<and> us_sorted us' \<and> us_total us' \<le> us_total us \<and>
     {i'..<i' + length d'} \<union> us_range us' = {i..<i + length d} \<union> us_range us \<and>
     i' \<le> i \<and> i + length d \<le> i' + length d' \<and>
     i' \<in> insert i (ua_index ` set us) \<and>
     i' + length d' \<in> insert (i + length d) (ua_end ` set us)"

lemma merge_post_refl: "piece_of S i d \<Longrightarrow> us_sorted us \<Longrightarrow> merge_post S i d us i d us"
  by (simp add: merge_post_def)

lemma merge_post_trans:
  assumes "merge_post S i d us i1 d1 us1" and "merge_post S i1 d1 us1 i2 d2 us2"
  shows "merge_post S i d us i2 d2 us2"
proof -
  have sub: "set us1 \<subseteq> set us" using assms(1) by (simp add: merge_post_def)
  then have "ua_index ` set us1 \<subseteq> ua_index ` set us" "ua_end ` set us1 \<subseteq> ua_end ` set us"
    by auto
  with assms sub show ?thesis unfolding merge_post_def
    by (smt (verit) insert_iff order.trans subset_iff)
qed

text \<open>One merge: taking \<open>u\<close> out of the set and into the substring.\<close>

lemma merge_post_one:
  assumes "length S < two64" and "piece_of S i d" and "us_pieces S (A @ u # B)"
    and "us_sorted (A @ u # B)" and "\<not> (i + length d < ua_index u \<or> ua_end u < i)"
  shows "merge_post S i d (A @ u # B) (min i (ua_index u))
           (substr S (min i (ua_index u)) (max (i + length d) (ua_end u) - min i (ua_index u))) (A @ B)"
proof -
  let ?lo = "min i (ua_index u)" and ?hi = "max (i + length d) (ua_end u)"
  have "?hi \<le> length S" "?lo \<le> ?hi"
    using assms(2,3) by (auto simp: piece_of_def ua_end_def)
  then have len: "length (substr S ?lo (?hi - ?lo)) = ?hi - ?lo" "?lo + (?hi - ?lo) = ?hi"
    by auto
  have "{?lo..<?hi} = {i..<i + length d} \<union> {ua_index u..<ua_end u}"
    using assms(5) by (auto simp: ua_end_def)
  then show ?thesis
    using assms(4) \<open>?hi \<le> length S\<close> len by (auto simp: merge_post_def min_def max_def)
qed

lemma merge_substring_entry:
  assumes "length S < two64" and "piece_of S i d" and "us_pieces S us" and "u \<in> set us"
  shows "merge_substring i d (ua_index u) (ua_data u) =
    (if i + length d < ua_index u \<or> ua_end u < i then Inr (False, i, d)
     else Inr (True, min i (ua_index u),
            substr S (min i (ua_index u)) (max (i + length d) (ua_end u) - min i (ua_index u))))"
  using merge_substring_spec[OF assms(1,2)] assms(3,4) by (simp add: us_pieces_def ua_end_def)

lemma us_pieces_subset: "us_pieces S us \<Longrightarrow> set vs \<subseteq> set us \<Longrightarrow> us_pieces S vs"
  by (auto simp: us_pieces_def)

lemma merge_backward_ok:
  assumes "length S < two64" and "piece_of S i d" and "us_pieces S us" and "us_sorted us"
    and "us_total us < two64" and "iter \<le> length us" and "num = us_total us"
  shows "\<exists>i' d' us'. merge_backward iter i d us num = Inr (i', d', us', us_total us') \<and>
           merge_post S i d us i' d' us'"
  using assms(2-)
proof (induction iter i d us num rule: merge_backward.induct)
  case (1 iter i d us num)
  define it where "it = (if iter = length us then iter - 1 else iter)"
  show ?case
  proof (cases "iter = 0")
    case True
    with "1.prems" show ?thesis
      by (subst merge_backward.simps) (auto intro: merge_post_refl)
  next
    case nz: False
    then have it: "it < length us" using "1.prems"(5) by (auto simp: it_def)
    then have entry: "us ! it \<in> set us" by simp
    obtain A B where split: "us = A @ (us ! it) # B" and erase: "set_erase us it = A @ B"
      using set_erase_split[OF it] .
    let ?u = "us ! it"
    note ms = merge_substring_entry[OF assms(1) "1.prems"(1,2) entry]
    note step = merge_backward.simps[of iter i d us num] it_def[symmetric]
    show ?thesis
    proof (cases "i + length d < ua_index ?u \<or> ua_end ?u < i")
      case True
      with ms nz it have "merge_backward iter i d us num = Inr (i, d, us, num)"
        by (simp add: step Let_def)
      with "1.prems" show ?thesis by (auto intro: merge_post_refl)
    next
      case False
      let ?i = "min i (ua_index ?u)"
      let ?d = "substr S ?i (max (i + length d) (ua_end ?u) - ?i)"
      have post: "merge_post S i d us ?i ?d (A @ B)"
        using merge_post_one[OF assms(1) "1.prems"(1), of A ?u B] "1.prems"(2,3) split False by metis
      have tot: "us_total us = length (ua_data ?u) + us_total (A @ B)"
        by (subst split) simp
      then have num: "sub64 num (length (ua_data ?u)) = us_total (A @ B)"
        using "1.prems"(4,6) by (simp add: sub64_exact)
      have AB: "piece_of S ?i ?d" "us_pieces S (A @ B)" "us_sorted (A @ B)" "us_total (A @ B) < two64"
        using post[unfolded merge_post_def] us_pieces_subset[OF "1.prems"(2), of "A @ B"] "1.prems"(4)
        by (blast, blast, blast, linarith)
      show ?thesis
      proof (cases "it = 0")
        case True
        with ms False nz it num erase
        have "merge_backward iter i d us num = Inr (?i, ?d, A @ B, us_total (A @ B))"
          by (simp add: step Let_def)
        with post show ?thesis by blast
      next
        case it0: False
        have "length us = Suc (length (A @ B))" by (subst split) simp
        then have le: "it - 1 \<le> length (A @ B)" using it by simp
        have call: "merge_substring i d (ua_index ?u) (ua_data ?u) = Inr (True, ?i, ?d)"
          and nle: "\<not> length us \<le> it"
          using ms False it by simp_all
        obtain i' d' us' where
          rec: "merge_backward (it - 1) ?i ?d (A @ B) (us_total (A @ B)) = Inr (i', d', us', us_total us')"
          and rpost: "merge_post S ?i ?d (A @ B) i' d' us'"
          using "1.IH"[OF nz it_def nle call refl refl TrueI it0, unfolded erase num, OF AB le refl]
          by blast
        have "merge_backward iter i d us num = Inr (i', d', us', us_total us')"
          using ms False nz it it0 rec num erase by (simp add: step Let_def)
        with merge_post_trans[OF post rpost] show ?thesis by blast
      qed
    qed
  qed
qed

lemma merge_forward_ok:
  assumes "length S < two64" and "piece_of S i d" and "us_pieces S us" and "us_sorted us"
    and "\<forall>u\<in>set us. i \<le> ua_index u" and "k + us_total us < two64"
  shows "\<exists>d' us'. merge_forward i d us (k + us_total us) = Inr (i, d', us', k + us_total us') \<and>
           merge_post S i d us i d' us' \<and> (\<forall>u\<in>set us'. i + length d' < ua_index u)"
  using assms(2-)
proof (induction us arbitrary: d)
  case Nil
  then show ?case by (simp add: merge_post_refl)
next
  case (Cons u us)
  note ms = merge_substring_entry[OF assms(1) Cons.prems(1,2), of u]
  have iu: "min i (ua_index u) = i" "\<not> ua_end u < i"
    using Cons.prems(4) by (auto simp: ua_end_def)
  show ?case
  proof (cases "i + length d < ua_index u")
    case True
    with ms Cons.prems show ?thesis by (auto simp: merge_post_refl)
  next
    case False
    let ?d = "substr S i (max (i + length d) (ua_end u) - i)"
    have post: "merge_post S i d (u # us) i ?d us"
      using merge_post_one[OF assms(1) Cons.prems(1), of "[]" u us] Cons.prems(2,3) False iu by simp
    have num: "sub64 (k + us_total (u # us)) (length (ua_data u)) = k + us_total us"
      using Cons.prems(5) by (simp add: sub64_exact)
    obtain d' us' where rec: "merge_forward i ?d us (k + us_total us) = Inr (i, d', us', k + us_total us')"
      and rpost: "merge_post S i ?d us i d' us'" and gap: "\<forall>u\<in>set us'. i + length d' < ua_index u"
      using Cons.IH[of ?d] Cons.prems post by (auto simp: merge_post_def)
    have "merge_forward i d (u # us) (k + us_total (u # us)) = Inr (i, d', us', k + us_total us')"
      using ms False iu num rec by simp
    with merge_post_trans[OF post rpost] gap show ?thesis by blast
  qed
qed

section \<open>The parts of push_substring\<close>

lemmas ra_invD = ra_inv_def [THEN iffD1]

lemma ra_inv_basic:
  assumes "ra_inv S r"
  shows "bs_inv (ra_output r)" and "bs_capacity (ra_output r) = ra_capacity r"
    and "ra_capacity r < 2 ^ 32" and "length S < 2 ^ 63" and "ra_first_unassemble_byte r \<le> length S"
    and "bs_num_read (ra_output r) + bs_size (ra_output r) = ra_first_unassemble_byte r"
    and "us_sorted (ra_unassembled r)" and "us_pieces S (ra_unassembled r)"
    and "ra_num_unassembled_byte r = us_total (ra_unassembled r)"
    and "bs_bytes (ra_output r) = substr S (bs_num_read (ra_output r)) (bs_size (ra_output r))"
  using assms unfolding ra_inv_def by blast+

lemma ra_inv_derived:
  assumes "ra_inv S r"
  shows "bs_size (ra_output r) \<le> ra_capacity r" and "ra_first_unassemble_byte r \<le> ra_limit r"
    and "bs_num_read (ra_output r) \<le> ra_first_unassemble_byte r" and "ra_limit r < two64"
    and "ra_first_unassemble_byte r < two64" and "length S < two64"
proof -
  note b = ra_inv_basic[OF assms]
  show size: "bs_size (ra_output r) \<le> ra_capacity r"
    using b(1,2) unfolding bs_inv_def by simp
  show "ra_first_unassemble_byte r \<le> ra_limit r" "bs_num_read (ra_output r) \<le> ra_first_unassemble_byte r"
    using b(6) size unfolding ra_limit_def by linarith+
  have "length S < 9223372036854775808" "ra_capacity r < 4294967296"
    using b(3,4) by simp_all
  then show "ra_limit r < two64" "ra_first_unassemble_byte r < two64" "length S < two64"
    using b(5,6) unfolding ra_limit_def by linarith+
qed

lemma ra_inv_entry:
  "ra_inv S r \<Longrightarrow> u \<in> set (ra_unassembled r) \<Longrightarrow>
   ra_first_unassemble_byte r < ua_index u \<and> ua_end u \<le> ra_limit r"
  by (simp add: ra_inv_def)

lemma ra_inv_eof [simp]: "ra_inv S (r\<lparr>ra_eof := b\<rparr>) = ra_inv S r"
  by (simp add: ra_inv_def ra_limit_def)

lemma ra_inv_end_input [simp]:
  "ra_inv S (r\<lparr>ra_output := ByteStream_end_input (ra_output r)\<rparr>) = ra_inv S r"
  by (simp add: ra_inv_def ra_limit_def ByteStream_end_input_def bs_inv_def bs_bytes_def)

lemma us_total_window:
  assumes "ra_inv S r" and "us_sorted us" and "us_pieces S us"
    and "\<forall>u\<in>set us. ra_first_unassemble_byte r < ua_index u \<and> ua_end u \<le> ra_limit r"
  shows "us_total us < two64"
proof -
  let ?c = "ra_capacity r"
  have "us_total us \<le> ?c * ?c"
    using assms(4) ra_inv_derived(3)[OF assms(1)]
    by (intro us_total_le[OF assms(2) _ assms(3), of "ra_first_unassemble_byte r"])
       (fastforce simp: ra_limit_def)
  also have "\<dots> \<le> (2 ^ 32 - 1) * (2 ^ 32 - 1)"
    using ra_inv_basic(3)[OF assms(1)] by (intro mult_le_mono) auto
  finally show ?thesis by simp
qed

lemma us_total_0: "us_pieces S us \<Longrightarrow> us_total us = 0 \<longleftrightarrow> us = []"
  by (cases us) auto

lemma first_unacceptable_eq: "ra_inv S r \<Longrightarrow> first_unacceptable_byte r = ra_limit r"
proof -
  assume inv: "ra_inv S r"
  note b = ra_inv_basic[OF inv] and d = ra_inv_derived[OF inv]
  have "ra_first_unassemble_byte r + ra_capacity r < two64"
    using b(3,4,5) by simp
  then show ?thesis
    using b(6) d(1) by (simp add: first_unacceptable_byte_def ByteStream_buffer_size_def ra_limit_def u64_exact)
qed

lemma push_trim_ok:
  assumes "ra_inv S r" and "piece_of S index data"
    and "ra_first_unassemble_byte r < index + length data" and "index \<le> ra_limit r"
  shows "push_trim r data index =
    Inr (max index (ra_first_unassemble_byte r),
         substr S (max index (ra_first_unassemble_byte r))
           (min (index + length data) (ra_limit r) - max index (ra_first_unassemble_byte r)))"
proof -
  let ?fu = "ra_first_unassemble_byte r" and ?lim = "ra_limit r"
  let ?b = "max index ?fu - index" and ?e = "min (index + length data) ?lim - index"
  note b = ra_inv_derived[OF assms(1)]
  have lens: "index + length data < two64" "?lim < two64" "?fu < two64"
    using assms(2) b(4-6) by (simp_all add: piece_of_def)
  have "string_range data ?b ?e = Inr (take (?e - ?b) (drop ?b data))"
    using assms(3,4) b(2) by (auto simp: string_range_def min_def max_def)
  also have "take (?e - ?b) (drop ?b data) = substr S (index + ?b) (min (?e - ?b) (length data - ?b))"
    using assms(2) unfolding piece_of_def by (metis drop_substr take_substr)
  also have "index + ?b = max index ?fu" by simp
  also have "min (?e - ?b) (length data - ?b) = min (index + length data) ?lim - max index ?fu"
    by (auto simp: min_def max_def)
  finally have range: "string_range data ?b ?e = Inr (substr S (max index ?fu)
      (min (index + length data) ?lim - max index ?fu))" .
  have "(if index < ?fu then sub64 ?fu index else 0) = ?b"
    "(if ?lim \<le> add64 index (length data) then sub64 ?lim index else length data) = ?e"
    "(if index < ?fu then ?fu else index) = max index ?fu"
    using lens assms(4) by (auto simp: u64_exact max_def min_def)
  then show ?thesis
    by (simp only: push_trim_def Let_def first_unacceptable_eq[OF assms(1)] range rbind_simps)
qed

lemma merge_post_frame:
  assumes "merge_post S i d us i' d' us'" and "us_sorted (P @ us)"
  shows "merge_post S i d (P @ us) i' d' (P @ us')"
  using assms unfolding merge_post_def by auto

lemma push_merge_ok:
  assumes "ra_inv S r" and "piece_of S i d"
  shows "\<exists>i' d' us'. push_merge r i d = Inr (i', d', us', us_total us') \<and>
    merge_post S i d (ra_unassembled r) i' d' us' \<and>
    (\<forall>u\<in>set us'. ua_index u < i' \<or> i' + length d' < ua_index u) \<and>
    (i \<le> ra_first_unassemble_byte r \<longrightarrow> i' = i)"
proof -
  let ?us = "ra_unassembled r"
  note b = ra_inv_basic[OF assms(1)]
  have S: "length S < two64" by (rule ra_inv_derived[OF assms(1)])
  have tot: "us_total ?us < two64"
    using us_total_window[OF assms(1) b(7,8)] ra_inv_entry[OF assms(1)] by blast
  obtain i1 d1 us1 where bw: "merge_backward (set_lower_bound ?us i) i d ?us (us_total ?us)
      = Inr (i1, d1, us1, us_total us1)" and post1: "merge_post S i d ?us i1 d1 us1"
    using merge_backward_ok[OF S assms(2) b(8,7) tot set_lower_bound_le refl] by blast
  define p where "p = set_lower_bound us1 i1"
  have us1: "us_sorted (take p us1 @ drop p us1)" "us_pieces S us1" "us_total us1 < two64"
    "piece_of S i1 d1"
    using post1 us_pieces_subset[OF b(8)] tot by (auto simp: merge_post_def)
  have tot1: "us_total us1 = us_total (take p us1) + us_total (drop p us1)"
    by (metis append_take_drop_id us_total_simps(3))
  have sorted: "us_sorted us1" "us_sorted (drop p us1)"
    using us1(1) by (simp, simp only: us_sorted_simps)
  have ge: "\<forall>u\<in>set (drop p us1). i1 \<le> ua_index u"
    using drop_lower_bound[OF sorted(1)] by (auto simp: p_def)
  obtain d2 us2 where fw: "merge_forward i1 d1 (drop p us1) (us_total us1)
        = Inr (i1, d2, us2, us_total (take p us1) + us_total us2)"
      and post2: "merge_post S i1 d1 (drop p us1) i1 d2 us2"
      and gap: "\<forall>u\<in>set us2. i1 + length d2 < ua_index u"
    using merge_forward_ok[OF S us1(4) us_pieces_subset[OF us1(2) set_drop_subset] sorted(2) ge,
        of "us_total (take p us1)"] us1(3)
    unfolding tot1 by blast
  have "merge_post S i d ?us i1 d2 (take p us1 @ us2)"
    using merge_post_trans[OF post1] merge_post_frame[OF post2 us1(1)] by simp
  moreover have "push_merge r i d = Inr (i1, d2, take p us1 @ us2, us_total (take p us1 @ us2))"
    using bw fw by (simp add: push_merge_def b(9) p_def[symmetric])
  moreover have "i1 = i" if "i \<le> ra_first_unassemble_byte r"
  proof -
    have "\<forall>u\<in>set ?us. i \<le> ua_index u"
      using ra_inv_entry[OF assms(1)] that by fastforce
    then show ?thesis using bw lower_bound_0 by (auto simp: merge_backward.simps)
  qed
  ultimately show ?thesis
    using gap take_lower_bound[of _ us1 i1] unfolding p_def by (metis Un_iff set_append)
qed

text \<open>
  Writing the merged substring: it starts at the first unassembled byte, fits the free space, and the
  remaining entries all lie beyond its end.
\<close>

lemma write_fits:
  assumes "ra_inv S r" and "piece_of S (ra_first_unassemble_byte r) d"
    and "ra_first_unassemble_byte r + length d \<le> ra_limit r"
  defines "w \<equiv> ByteStream_write (ra_output r) d"
  shows "fst w = length d" and "bs_inv (snd w)" and "bs_size (snd w) = bs_size (ra_output r) + length d"
    and "bs_bytes (snd w) = substr S (bs_num_read (ra_output r)) (bs_size (ra_output r) + length d)"
proof -
  note b = ra_inv_basic[OF assms(1)]
  show n: "fst w = length d"
    using assms(3) b(2,6) unfolding w_def write_length[OF b(1)] ra_limit_def by linarith
  show "bs_inv (snd w)" unfolding w_def by (rule write_inv[OF b(1)])
  show "bs_size (snd w) = bs_size (ra_output r) + length d"
    using write_counts(1)[OF b(1)] n unfolding w_def by simp
  have "bs_bytes (snd w) = substr S (bs_num_read (ra_output r)) (bs_size (ra_output r)) @
      substr S (bs_num_read (ra_output r) + bs_size (ra_output r)) (length d)"
    using write_bytes[of "ra_output r" d] n b(6,10) assms(2) unfolding w_def by (simp add: piece_of_def)
  then show "bs_bytes (snd w) = substr S (bs_num_read (ra_output r)) (bs_size (ra_output r) + length d)"
    by (simp only: substr_append)
qed

definition push_post :: "byte list \<Rightarrow> reassembler \<Rightarrow> reassembler \<Rightarrow> nat set \<Rightarrow> bool" where
  "push_post S r r' new \<longleftrightarrow>
     ra_inv S r' \<and> ra_known r' = ra_known r \<union> new \<and>
     bs_num_read (ra_output r') = bs_num_read (ra_output r) \<and> ra_capacity r' = ra_capacity r \<and>
     bs_error (ra_output r') = bs_error (ra_output r)"

text \<open>The final step with the window arithmetic done: \<open>fin\<close> is the closing \<open>end_input\<close>.\<close>

lemma push_store_write:
  fixes eof :: bool
  assumes inv: "ra_inv S r" and "piece_of S i d" and i: "i = ra_first_unassemble_byte r"
    and "i + length d \<le> ra_limit r" and "us_sorted us" and "us_pieces S us"
    and us: "\<forall>u\<in>set us. i + length d < ua_index u \<and> ua_end u \<le> ra_limit r"
  defines "r' \<equiv> push_store r eof i d us (us_total us)"
  shows "ra_inv S r'" and "ra_first_unassemble_byte r' = i + length d"
    and "ra_unassembled r' = us" and "ra_eof r' = (ra_eof r \<or> eof)"
    and "bs_num_read (ra_output r') = bs_num_read (ra_output r)" and "ra_capacity r' = ra_capacity r"
    and "bs_error (ra_output r') = bs_error (ra_output r)"
    and "bs_if_end (ra_output r') = (bs_if_end (ra_output r) \<or> eof \<or> us = [] \<and> ra_eof r)"
proof -
  note b = ra_inv_basic[OF inv] and dd = ra_inv_derived[OF inv]
  obtain n out where w: "ByteStream_write (ra_output r) d = (n, out)"
    by (cases "ByteStream_write (ra_output r) d")
  have wf: "n = length d" "bs_inv out" "bs_size out = bs_size (ra_output r) + length d"
    "bs_bytes out = substr S (bs_num_read (ra_output r)) (bs_size (ra_output r) + length d)"
    using write_fits[OF inv, of d] assms(2,4) i w by auto
  have fr: "bs_capacity out = ra_capacity r" "bs_num_read out = bs_num_read (ra_output r)"
    "bs_if_end out = bs_if_end (ra_output r)" "bs_error out = bs_error (ra_output r)"
    using write_frame[of "ra_output r" d] w b(2) by auto
  have le: "i + length d \<le> length S" using assms(2) by (simp add: piece_of_def)
  then have fu: "add64 i (length d) = i + length d"
    using dd(6) by (simp add: add64_exact)
  have fu0: "add64 i 0 = i" using dd(5) i by simp
  have emp: "us_total us = 0 \<longleftrightarrow> us = []" by (rule us_total_0[OF assms(6)])
  have eq: "r' = r\<lparr>ra_unassembled := us, ra_num_unassembled_byte := us_total us,
      ra_output := (if eof \<or> us = [] \<and> ra_eof r then ByteStream_end_input out else out),
      ra_eof := ra_eof r \<or> eof, ra_first_unassemble_byte := i + length d\<rparr>"
    unfolding r'_def push_store_def Let_def
    by (cases eof; cases "us = []"; cases "ra_eof r"; intro reassembler.equality)
       (simp_all add: i[symmetric] w wf(1) fu fu0 StreamReassembler_empty_def emp ByteStream_end_input_def)
  have out: "bs_inv (ra_output r')" "bs_capacity (ra_output r') = ra_capacity r"
    "bs_num_read (ra_output r') = bs_num_read (ra_output r)"
    "bs_size (ra_output r') = bs_size (ra_output r) + length d"
    "bs_bytes (ra_output r') = substr S (bs_num_read (ra_output r)) (bs_size (ra_output r) + length d)"
    by (simp_all add: eq wf fr)
  have us': "\<forall>u\<in>set us. i + length d < ua_index u \<and> ua_end u \<le> ra_limit r'"
    using us out(3) by (simp add: ra_limit_def eq)
  show "ra_inv S r'"
    unfolding ra_inv_def out using b(3,4,6) le i us' assms(5,6) out(1)
    by (simp add: eq)
  show "ra_first_unassemble_byte r' = i + length d" "ra_unassembled r' = us"
    "ra_eof r' = (ra_eof r \<or> eof)" "ra_capacity r' = ra_capacity r"
    by (simp_all add: eq)
  show "bs_num_read (ra_output r') = bs_num_read (ra_output r)"
    "bs_error (ra_output r') = bs_error (ra_output r)"
    "bs_if_end (ra_output r') = (bs_if_end (ra_output r) \<or> eof \<or> us = [] \<and> ra_eof r)"
    by (auto simp: eq fr)
qed

lemma push_store_insert:
  fixes eof :: bool
  assumes inv: "ra_inv S r" and piece: "piece_of S i d" and i: "ra_first_unassemble_byte r < i"
    and "i + length d \<le> ra_limit r" and "us_sorted us" and "us_pieces S us"
    and us: "\<forall>u\<in>set us. ra_first_unassemble_byte r < ua_index u \<and> ua_end u \<le> ra_limit r"
    and gap: "\<forall>u\<in>set us. ua_index u \<noteq> i"
  defines "r' \<equiv> push_store r eof i d us (us_total us)"
  shows "ra_inv S r'" and "ra_first_unassemble_byte r' = ra_first_unassemble_byte r"
    and "us_range (ra_unassembled r') = us_range us \<union> {i..<i + length d}"
    and "ra_eof r' = ra_eof r"
    and "bs_num_read (ra_output r') = bs_num_read (ra_output r)" and "ra_capacity r' = ra_capacity r"
    and "bs_error (ra_output r') = bs_error (ra_output r)"
    and "bs_if_end (ra_output r') = (bs_if_end (ra_output r) \<or> ra_unassembled r' = [] \<and> ra_eof r)"
proof -
  note b = ra_inv_basic[OF inv] and dd = ra_inv_derived[OF inv]
  let ?x = "\<lparr>ua_index = i, ua_data = d\<rparr>"
  define vs where "vs = (if d = [] then us else set_insert ?x us)"
  have ins: "set (set_insert ?x us) = insert ?x (set us)" "us_sorted (set_insert ?x us)"
    "us_total (set_insert ?x us) = length d + us_total us"
    using set_insert_new[OF assms(5), of ?x] gap by simp_all
  have vs: "us_sorted vs" "us_pieces S vs" "us_range vs = us_range us \<union> {i..<i + length d}"
    "\<forall>u\<in>set vs. ra_first_unassemble_byte r < ua_index u \<and> ua_end u \<le> ra_limit r"
    "us_total vs = length d + us_total us"
    using ins assms(4-6) us piece i
    by (auto simp: vs_def us_pieces_def us_range_def ua_end_def)
  have "us_total vs < two64" by (rule us_total_window[OF inv vs(1,2,4)])
  then have num: "add64 (us_total us) (length d) = us_total vs"
    using vs(5) by (simp add: add64_exact)
  have emp: "us_total vs = 0 \<longleftrightarrow> vs = []" by (rule us_total_0[OF vs(2)])
  have eq: "r' = r\<lparr>ra_unassembled := vs, ra_num_unassembled_byte := us_total vs,
      ra_output := (if vs = [] \<and> ra_eof r then ByteStream_end_input (ra_output r) else ra_output r)\<rparr>"
    unfolding r'_def push_store_def Let_def using i num emp
    by (intro reassembler.equality) (auto simp: StreamReassembler_empty_def vs_def)
  have out: "bs_inv (ra_output r')" "bs_capacity (ra_output r') = ra_capacity r"
    "bs_num_read (ra_output r') = bs_num_read (ra_output r)"
    "bs_size (ra_output r') = bs_size (ra_output r)"
    "bs_bytes (ra_output r') = bs_bytes (ra_output r)"
    by (simp_all add: eq b(1,2))
  have vs': "\<forall>u\<in>set vs. ra_first_unassemble_byte r < ua_index u \<and> ua_end u \<le> ra_limit r'"
    using vs(4) out(3) by (simp add: ra_limit_def eq)
  show "ra_inv S r'"
    unfolding ra_inv_def out using b(3-6,10) vs(1,2) vs' out(1) by (simp add: eq)
  show "ra_first_unassemble_byte r' = ra_first_unassemble_byte r" "ra_eof r' = ra_eof r"
    "us_range (ra_unassembled r') = us_range us \<union> {i..<i + length d}" "ra_capacity r' = ra_capacity r"
    by (simp_all add: eq vs(3))
  show "bs_num_read (ra_output r') = bs_num_read (ra_output r)"
    "bs_error (ra_output r') = bs_error (ra_output r)"
    "bs_if_end (ra_output r') = (bs_if_end (ra_output r) \<or> ra_unassembled r' = [] \<and> ra_eof r)"
    by (auto simp: eq)
qed

section \<open>push_substring\<close>

lemma ra_inv_eof_end [simp]:
  "ra_inv S (r\<lparr>ra_eof := b, ra_output := ByteStream_end_input (ra_output r)\<rparr>) = ra_inv S r"
  by (simp add: ra_inv_def ra_limit_def)

lemma push_early:
  fixes eof :: bool
  assumes inv: "ra_inv S r" and piece: "piece_of S index data"
    and early: "data = [] \<or> index + length data \<le> ra_first_unassemble_byte r"
  defines "r1 \<equiv> r\<lparr>ra_eof := ra_eof r \<or> eof\<rparr>"
  shows "StreamReassembler_push_substring r data index eof =
    Inr (if ra_unassembled r = [] \<and> (ra_eof r \<or> eof)
         then r1\<lparr>ra_output := ByteStream_end_input (ra_output r1)\<rparr> else r1)"
proof -
  note b = ra_inv_basic[OF inv] and d = ra_inv_derived[OF inv]
  have "add64 index (length data) = index + length data"
    using piece d(6) by (simp add: piece_of_def add64_exact)
  then show ?thesis
    using early us_total_0[OF b(8)] b(9)
    by (auto simp: StreamReassembler_push_substring_def r1_def)
qed

lemma piece_trim:
  assumes inv: "ra_inv S r" and piece: "piece_of S index data"
    and fu: "ra_first_unassemble_byte r < index + length data" and lim: "index \<le> ra_limit r"
  defines "i \<equiv> max index (ra_first_unassemble_byte r)"
  defines "e \<equiv> min (index + length data) (ra_limit r)"
  shows "piece_of S i (substr S i (e - i))" and "i + length (substr S i (e - i)) = e" and "i \<le> e"
proof -
  have "e \<le> length S" using piece by (auto simp: e_def piece_of_def)
  moreover show "i \<le> e" using fu lim ra_inv_derived(2)[OF inv] by (simp add: i_def e_def)
  ultimately show "i + length (substr S i (e - i)) = e" by simp
  with \<open>e \<le> length S\<close> show "piece_of S i (substr S i (e - i))"
    by (simp add: piece_of_def substr_def)
qed

text \<open>
  The general correctness statement of \<open>push_substring\<close>: no exception, the invariant is kept, the
  positions inside the window are added to what is known, and the three facts on the end of input.
\<close>

lemma push_ok:
  assumes inv: "ra_inv S r" and piece: "piece_of S index data" and lim: "index \<le> ra_limit r"
  shows "\<exists>r'. StreamReassembler_push_substring r data index eof = Inr r' \<and>
    push_post S r r' ({index..<index + length data} \<inter> {..<ra_limit r}) \<and>
    ra_first_unassemble_byte r \<le> ra_first_unassemble_byte r' \<and>
    ra_eof r' = (ra_eof r \<or> eof) \<and>
    (bs_if_end (ra_output r) \<longrightarrow> bs_if_end (ra_output r')) \<and>
    (ra_eof r' \<and> ra_unassembled r' = [] \<longrightarrow> bs_if_end (ra_output r')) \<and>
    (bs_if_end (ra_output r') \<longrightarrow> bs_if_end (ra_output r) \<or>
       ra_eof r' \<and> (ra_unassembled r' = [] \<or>
         eof \<and> min (index + length data) (ra_limit r) \<le> ra_first_unassemble_byte r'))"
proof (cases "data = [] \<or> index + length data \<le> ra_first_unassemble_byte r")
  case True
  then have new: "ra_known r \<union> ({index..<index + length data} \<inter> {..<ra_limit r}) = ra_known r"
    by (auto simp: ra_known_def)
  then show ?thesis
    unfolding push_early[OF inv piece True] push_post_def new
    using inv by (auto simp: ra_known_def)
next
  case False
  let ?fu = "ra_first_unassemble_byte r" and ?lim = "ra_limit r" and ?us = "ra_unassembled r"
  let ?r = "r\<lparr>ra_eof := ra_eof r \<or> eof\<rparr>"
  define i where "i = max index ?fu"
  define e where "e = min (index + length data) ?lim"
  define d where "d = substr S i (e - i)"
  have late: "?fu < index + length data" using False by simp
  note d6 = ra_inv_derived(6)[OF inv]
  have inv1: "ra_inv S ?r" and eqs: "ra_first_unassemble_byte ?r = ?fu" "ra_limit ?r = ?lim"
    using inv by (simp_all add: ra_limit_def)
  have tr: "piece_of S i d" "i + length d = e" "i \<le> e"
    using piece_trim[OF inv piece late lim] by (simp_all add: i_def e_def d_def)
  have trim: "push_trim ?r data index = Inr (i, d)"
    using push_trim_ok[OF inv1 piece] late lim eqs by (simp add: i_def e_def d_def)
  obtain i' d' us' where merge: "push_merge ?r i d = Inr (i', d', us', us_total us')"
    and post: "merge_post S i d ?us i' d' us'"
    and gap: "\<forall>u\<in>set us'. ua_index u < i' \<or> i' + length d' < ua_index u"
    and same: "i \<le> ?fu \<longrightarrow> i' = i"
    using push_merge_ok[OF inv1 tr(1)] by auto
  have sub: "set us' \<subseteq> set ?us" and sorted: "us_sorted us'" and piece': "piece_of S i' d'"
    and cover: "{i'..<i' + length d'} \<union> us_range us' = {i..<e} \<union> us_range ?us"
    using post tr(2) by (simp_all add: merge_post_def)
  have pieces: "us_pieces S us'" using us_pieces_subset[OF ra_inv_basic(8)[OF inv] sub] .
  have us': "\<forall>u\<in>set us'. ?fu < ua_index u \<and> ua_end u \<le> ?lim"
    using sub ra_inv_entry[OF inv] by blast
  have "i' + length d' \<in> insert e (ua_end ` set ?us)" "i' \<in> insert i (ua_index ` set ?us)"
    using post tr(2) by (simp_all add: merge_post_def)
  then have end': "i' + length d' \<le> ?lim" and lo: "i' = i \<or> ?fu < i'"
    using ra_inv_entry[OF inv] by (auto simp: e_def)
  define r' where "r' = push_store ?r eof i' d' us' (us_total us')"
  have early: "\<not> (data = [] \<or> add64 index (length data) \<le> ra_first_unassemble_byte ?r)"
    using False piece d6 by (simp add: piece_of_def add64_exact)
  have call: "StreamReassembler_push_substring r data index eof = Inr r'"
    using early trim merge by (simp add: StreamReassembler_push_substring_def r'_def)
  have known: "ra_known r \<union> ({index..<index + length data} \<inter> {..<?lim})
      = {..<?fu} \<union> {i..<e} \<union> us_range ?us"
    by (auto simp: ra_known_def i_def e_def)
  show ?thesis
  proof (cases "i = ?fu")
    case True
    then have i': "i' = ra_first_unassemble_byte ?r" using same by simp
    have beyond: "\<forall>u\<in>set us'. i' + length d' < ua_index u \<and> ua_end u \<le> ra_limit ?r"
      using gap us' i' eqs by fastforce
    note st = push_store_write[OF inv1 piece' i' end'[folded eqs(2)] sorted pieces beyond, of eof,
        folded r'_def]
    have le: "e \<le> i' + length d'" using post tr(2) by (simp add: merge_post_def)
    have "{..<i' + length d'} = {..<?fu} \<union> {i'..<i' + length d'}"
      using i' by (simp add: ivl_disj_un)
    then have kn: "ra_known r' = {..<?fu} \<union> {i..<e} \<union> us_range ?us"
      unfolding ra_known_def st(2,3) by (simp only: Un_assoc cover)
    show ?thesis
      unfolding call push_post_def known e_def[symmetric]
      by (intro exI[of _ r'] conjI; use st i' kn le in simp)
  next
    case False
    then have lt: "ra_first_unassemble_byte ?r < i'"
      using lo by (auto simp: i_def max_def split: if_splits)
    have ne: "\<forall>u\<in>set us'. ua_index u \<noteq> i'" using gap by fastforce
    note st = push_store_insert[OF inv1 piece' lt end'[folded eqs(2)] sorted pieces
        us'[folded eqs] ne, of eof, folded r'_def]
    have kn: "ra_known r' = {..<?fu} \<union> {i..<e} \<union> us_range ?us"
      unfolding ra_known_def st(2,3) using cover by auto
    show ?thesis
      unfolding call push_post_def known e_def[symmetric]
      by (intro exI[of _ r'] conjI; use st kn in simp)
  qed
qed

section \<open>Consequences\<close>

lemma first_unassembled_unknown: "ra_inv S r \<Longrightarrow> ra_first_unassemble_byte r \<notin> ra_known r"
  using ra_inv_entry[of S r] by (fastforce simp: ra_known_def us_range_def)

lemma known_all_assembled:
  assumes "ra_inv S r" and "{..<length S} \<subseteq> ra_known r"
  shows "ra_first_unassemble_byte r = length S"
proof (rule ccontr)
  assume "ra_first_unassemble_byte r \<noteq> length S"
  then have "ra_first_unassemble_byte r < length S" using ra_inv_basic(5)[OF assms(1)] by simp
  with assms(2) first_unassembled_unknown[OF assms(1)] show False by blast
qed

lemma ra_new_inv: "c < 2 ^ 32 \<Longrightarrow> length S < 2 ^ 63 \<Longrightarrow> ra_inv S (StreamReassembler_new c)"
  by (simp add: ra_inv_def StreamReassembler_new_def)

lemma ra_new_known: "ra_known (StreamReassembler_new c) = {}"
  by (simp add: ra_known_def StreamReassembler_new_def)

text \<open>Reading from the output stream keeps the invariant and opens the window.\<close>

lemma ra_read_ok:
  assumes inv: "ra_inv S r" and n: "n < two64"
  shows "\<exists>d out. ByteStream_read (ra_output r) n = Inr (d, out) \<and> ra_inv S (r\<lparr>ra_output := out\<rparr>) \<and>
    d = substr S (bs_num_read (ra_output r)) (min n (bs_size (ra_output r))) \<and>
    bs_num_read out = bs_num_read (ra_output r) + min n (bs_size (ra_output r)) \<and>
    bs_if_end out = bs_if_end (ra_output r)"
proof -
  let ?o = "ra_output r" and ?m = "min n (bs_size (ra_output r))"
  note b = ra_inv_basic[OF inv] and d = ra_inv_derived[OF inv]
  obtain out where rd: "ByteStream_read ?o n = Inr (take n (bs_bytes ?o), out)" "bs_inv out"
    "bs_bytes out = drop n (bs_bytes ?o)" "bs_size out = bs_size ?o - ?m"
    "bs_capacity out = bs_capacity ?o" "bs_num_read out = add64 (bs_num_read ?o) ?m"
    "bs_if_end out = bs_if_end ?o"
    using read_ok[OF b(1) n] by blast
  have "bs_num_read ?o + ?m \<le> ra_first_unassemble_byte r" using b(6) by simp
  then have nr: "bs_num_read out = bs_num_read ?o + ?m"
    using rd(6) d(5) by (simp add: add64_exact)
  have len: "length (bs_bytes ?o) = bs_size ?o" using b(1) by (simp add: bs_inv_def)
  have "take n (bs_bytes ?o) = substr S (bs_num_read ?o) ?m"
    using b(10) by (simp add: take_substr)
  moreover have "bs_bytes out = substr S (bs_num_read ?o + ?m) (bs_size ?o - ?m)"
    using rd(3) b(10) len by (cases "n \<le> bs_size ?o") (simp_all add: drop_substr min_def)
  moreover have "\<forall>u\<in>set (ra_unassembled r). ua_end u \<le> ra_limit r + ?m"
    using ra_inv_entry[OF inv] by fastforce
  ultimately show ?thesis
    using rd inv nr b(6) unfolding ra_inv_def by (simp add: ra_limit_def add.commute add.left_commute)
qed

text \<open>
  A run: the network pushes substrings, the application reads.  \<open>ra_ops_ok\<close> asks that each
  substring pushed is a piece of the stream that starts no later than the end of the window at that
  moment.
\<close>

datatype ra_op = Ra_push "byte list" u64 bool | Ra_read u64

fun ra_run :: "reassembler \<Rightarrow> ra_op list \<Rightarrow> (byte list \<times> reassembler) result" where
  "ra_run r [] = Inr ([], r)"
| "ra_run r (Ra_push data index eof # ops) =
     rbind (StreamReassembler_push_substring r data index eof) (\<lambda>r'. ra_run r' ops)"
| "ra_run r (Ra_read n # ops) =
     rbind (ByteStream_read (ra_output r) n) (\<lambda>(d, out).
       rbind (ra_run (r\<lparr>ra_output := out\<rparr>) ops) (\<lambda>(d', r'). Inr (d @ d', r')))"

fun ra_ops_ok :: "byte list \<Rightarrow> reassembler \<Rightarrow> ra_op list \<Rightarrow> bool" where
  "ra_ops_ok S r [] = True"
| "ra_ops_ok S r (Ra_push data index eof # ops) =
     (piece_of S index data \<and> index \<le> first_unacceptable_byte r \<and>
      (case StreamReassembler_push_substring r data index eof of
         Inl _ \<Rightarrow> False | Inr r' \<Rightarrow> ra_ops_ok S r' ops))"
| "ra_ops_ok S r (Ra_read n # ops) =
     (n < two64 \<and>
      (case ByteStream_read (ra_output r) n of
         Inl _ \<Rightarrow> False | Inr (d, out) \<Rightarrow> ra_ops_ok S (r\<lparr>ra_output := out\<rparr>) ops))"

lemma ra_run_ok:
  "ra_inv S r \<Longrightarrow> ra_ops_ok S r ops \<Longrightarrow>
   \<exists>out r'. ra_run r ops = Inr (out, r') \<and> ra_inv S r' \<and>
     take (bs_num_read (ra_output r)) S @ out @ bs_bytes (ra_output r')
       = take (ra_first_unassemble_byte r') S"
proof (induction ops arbitrary: r)
  case Nil
  note b = ra_inv_basic[OF Nil.prems(1)] and d = ra_inv_derived[OF Nil.prems(1)]
  have "bs_num_read (ra_output r) \<le> length S" using b(5) d(3) by simp
  then show ?case using Nil b(6,10) by (simp add: take_append_substr)
next
  case (Cons p ops)
  show ?case
  proof (cases p)
    case (Ra_push data index eof)
    with Cons.prems have ok: "piece_of S index data" "index \<le> ra_limit r"
      using first_unacceptable_eq[OF Cons.prems(1)] by simp_all
    obtain r1 where r1: "StreamReassembler_push_substring r data index eof = Inr r1"
      and "push_post S r r1 ({index..<index + length data} \<inter> {..<ra_limit r})"
      using push_ok[OF Cons.prems(1) ok, of eof] by blast
    then show ?thesis
      using Cons.IH[of r1] Cons.prems Ra_push by (simp add: push_post_def)
  next
    case (Ra_read n)
    with Cons.prems have n: "n < two64" by simp
    obtain d out where rd: "ByteStream_read (ra_output r) n = Inr (d, out)"
      and inv: "ra_inv S (r\<lparr>ra_output := out\<rparr>)"
      and dd: "d = substr S (bs_num_read (ra_output r)) (min n (bs_size (ra_output r)))"
      and nr: "bs_num_read out = bs_num_read (ra_output r) + min n (bs_size (ra_output r))"
      using ra_read_ok[OF Cons.prems(1) n] by blast
    obtain out' r' where run: "ra_run (r\<lparr>ra_output := out\<rparr>) ops = Inr (out', r')" "ra_inv S r'"
      "take (bs_num_read out) S @ out' @ bs_bytes (ra_output r') = take (ra_first_unassemble_byte r') S"
      using Cons.IH[OF inv] Cons.prems Ra_read rd by auto
    have "bs_num_read (ra_output r) \<le> length S"
      using ra_inv_basic(5)[OF Cons.prems(1)] ra_inv_derived(3)[OF Cons.prems(1)] by simp
    then have "take (bs_num_read (ra_output r)) S @ d = take (bs_num_read out) S"
      unfolding dd nr by (rule take_append_substr)
    with run rd Ra_read show ?thesis by (auto simp: append_assoc[symmetric] simp del: append_assoc)
  qed
qed

section \<open>End of input\<close>

text \<open>
  The flag \<open>eof\<close> of a push is honest when the substring ends where the stream ends, the end lies
  inside the window, and an empty substring is in order.  Under honest flags the end of the output
  stream is signalled exactly when the flag was seen and every byte was assembled.
\<close>

definition eof_honest :: "byte list \<Rightarrow> reassembler \<Rightarrow> byte list \<Rightarrow> u64 \<Rightarrow> bool" where
  "eof_honest S r data index \<longleftrightarrow>
     index + length data = length S \<and> length S \<le> first_unacceptable_byte r \<and>
     (data \<noteq> [] \<or> index \<le> ra_first_unassemble_byte r)"

definition ra_eof_inv :: "byte list \<Rightarrow> reassembler \<Rightarrow> bool" where
  "ra_eof_inv S r \<longleftrightarrow>
     (ra_eof r \<longrightarrow> length S \<le> ra_first_unassemble_byte r \<or> length S - 1 \<in> ra_known r) \<and>
     bs_if_end (ra_output r) = (ra_eof r \<and> ra_first_unassemble_byte r = length S)"

fun ra_eofs_ok :: "byte list \<Rightarrow> reassembler \<Rightarrow> ra_op list \<Rightarrow> bool" where
  "ra_eofs_ok S r [] = True"
| "ra_eofs_ok S r (Ra_push data index eof # ops) =
     ((eof \<longrightarrow> eof_honest S r data index) \<and>
      (case StreamReassembler_push_substring r data index eof of
         Inl _ \<Rightarrow> False | Inr r' \<Rightarrow> ra_eofs_ok S r' ops))"
| "ra_eofs_ok S r (Ra_read n # ops) =
     (case ByteStream_read (ra_output r) n of
         Inl _ \<Rightarrow> False | Inr (d, out) \<Rightarrow> ra_eofs_ok S (r\<lparr>ra_output := out\<rparr>) ops)"

lemma ra_new_eof: "ra_eof_inv S (StreamReassembler_new c)"
  by (simp add: ra_eof_inv_def StreamReassembler_new_def ByteStream_new_def)

lemma assembled_no_entries:
  assumes "ra_inv S r" and "length S \<le> ra_first_unassemble_byte r"
  shows "ra_unassembled r = []"
proof (rule ccontr)
  assume "ra_unassembled r \<noteq> []"
  then obtain u where u: "u \<in> set (ra_unassembled r)" by (meson list.set_sel(1))
  then have "ua_end u \<le> length S"
    using ra_inv_basic(8)[OF assms(1)] by (simp add: us_pieces_def piece_of_def ua_end_def)
  then show False using ra_inv_entry[OF assms(1) u] assms(2) by (simp add: ua_end_def)
qed

lemma no_entries_assembled:
  assumes "ra_inv S r" "ra_unassembled r = []"
    and "length S \<le> ra_first_unassemble_byte r \<or> length S - 1 \<in> ra_known r"
  shows "ra_first_unassemble_byte r = length S"
  using assms(2,3) ra_inv_basic(5)[OF assms(1)] by (auto simp: ra_known_def)

lemma push_eof_ok:
  assumes inv: "ra_inv S r" and ei: "ra_eof_inv S r" and piece: "piece_of S index data"
    and lim: "index \<le> first_unacceptable_byte r" and hon: "eof \<longrightarrow> eof_honest S r data index"
    and call: "StreamReassembler_push_substring r data index eof = Inr r'"
  shows "ra_eof_inv S r'"
proof -
  note lim' = lim[unfolded first_unacceptable_eq[OF inv]]
  have post: "push_post S r r' ({index..<index + length data} \<inter> {..<ra_limit r})"
    and mono: "ra_first_unassemble_byte r \<le> ra_first_unassemble_byte r'"
    and eof': "ra_eof r' = (ra_eof r \<or> eof)"
    and fin1: "bs_if_end (ra_output r) \<longrightarrow> bs_if_end (ra_output r')"
    and fin2: "ra_eof r' \<and> ra_unassembled r' = [] \<longrightarrow> bs_if_end (ra_output r')"
    and fin3: "bs_if_end (ra_output r') \<longrightarrow> bs_if_end (ra_output r) \<or>
       ra_eof r' \<and> (ra_unassembled r' = [] \<or>
         eof \<and> min (index + length data) (ra_limit r) \<le> ra_first_unassemble_byte r')"
    using push_ok[OF inv piece lim', of eof] call by auto
  have inv': "ra_inv S r'"
    and kn: "ra_known r' = ra_known r \<union> ({index..<index + length data} \<inter> {..<ra_limit r})"
    using post by (simp_all add: push_post_def)
  note fu' = ra_inv_basic(5)[OF inv']
  have hon': "index + length data = length S \<and> length S \<le> ra_limit r \<and>
      (data \<noteq> [] \<or> index \<le> ra_first_unassemble_byte r)" if eof
    using hon that first_unacceptable_eq[OF inv] by (simp add: eof_honest_def)
  have last: "length S \<le> ra_first_unassemble_byte r' \<or> length S - 1 \<in> ra_known r'" if "ra_eof r'"
  proof (cases "ra_eof r")
    case True
    then have "length S \<le> ra_first_unassemble_byte r \<or> length S - 1 \<in> ra_known r"
      using ei unfolding ra_eof_inv_def by blast
    then show ?thesis unfolding kn using mono by (meson UnI1 le_trans)
  next
    case False
    then have e: eof using that eof' by simp
    show ?thesis
    proof (cases "data = []")
      case True
      then show ?thesis using hon'[OF e] mono by simp
    next
      case False
      then have "length S - 1 \<in> {index..<index + length data} \<inter> {..<ra_limit r}"
        using hon'[OF e] by (cases data) auto
      then show ?thesis unfolding kn by blast
    qed
  qed
  have "ra_first_unassemble_byte r' = length S" if fin: "bs_if_end (ra_output r')"
  proof -
    consider "bs_if_end (ra_output r)" | "ra_eof r'" "ra_unassembled r' = []"
      | "eof" "min (index + length data) (ra_limit r) \<le> ra_first_unassemble_byte r'"
      using fin3 fin by blast
    then show ?thesis
      using mono fu' ei no_entries_assembled[OF inv' _ last] hon'
      by cases (auto simp: ra_eof_inv_def)
  qed
  moreover have "ra_eof r'" if "bs_if_end (ra_output r')"
    using fin3 that ei eof' by (auto simp: ra_eof_inv_def)
  moreover have "bs_if_end (ra_output r')" if "ra_eof r'" "ra_first_unassemble_byte r' = length S"
    using fin2 that assembled_no_entries[OF inv'] by simp
  ultimately show ?thesis unfolding ra_eof_inv_def using last by blast
qed

lemma ra_run_eof:
  "ra_inv S r \<Longrightarrow> ra_eof_inv S r \<Longrightarrow> ra_ops_ok S r ops \<Longrightarrow> ra_eofs_ok S r ops \<Longrightarrow>
   ra_run r ops = Inr (out, r') \<Longrightarrow> ra_eof_inv S r'"
proof (induction ops arbitrary: r out)
  case Nil
  then show ?case by simp
next
  case (Cons p ops)
  show ?case
  proof (cases p)
    case (Ra_push data index eof)
    with Cons.prems have ok: "piece_of S index data" "index \<le> first_unacceptable_byte r"
      "eof \<longrightarrow> eof_honest S r data index" by simp_all
    obtain r1 where r1: "StreamReassembler_push_substring r data index eof = Inr r1"
      and "push_post S r r1 ({index..<index + length data} \<inter> {..<ra_limit r})"
      using push_ok[OF Cons.prems(1) ok(1), of eof] ok(2)
      unfolding first_unacceptable_eq[OF Cons.prems(1)] by blast
    then have "ra_inv S r1" by (simp add: push_post_def)
    then show ?thesis
      using Cons.IH[of r1] Cons.prems Ra_push r1 push_eof_ok[OF Cons.prems(1,2) ok r1] by simp
  next
    case (Ra_read n)
    with Cons.prems have n: "n < two64" by simp
    obtain d out where rd: "ByteStream_read (ra_output r) n = Inr (d, out)"
      and inv: "ra_inv S (r\<lparr>ra_output := out\<rparr>)" and fin: "bs_if_end out = bs_if_end (ra_output r)"
      using ra_read_ok[OF Cons.prems(1) n] by blast
    have "ra_eof_inv S (r\<lparr>ra_output := out\<rparr>)"
      using Cons.prems(2) fin by (simp add: ra_eof_inv_def ra_known_def)
    then show ?thesis
      using Cons.IH[OF inv] Cons.prems Ra_read rd by (auto simp: rbind_Inr_conv)
  qed
qed

section \<open>Properties\<close>

lemmas ra_eval =
  StreamReassembler_push_substring_def push_trim_def push_merge_def push_store_def
  first_unacceptable_byte_def StreamReassembler_new_def StreamReassembler_empty_def
  StreamReassembler_unassembled_bytes_def
  string_range_def set_lower_bound_def set_erase_def merge_substring_def merge_backward.simps
  buffer_eval bs_eval Let_def





text \<open>The push that covers the last missing positions makes the whole stream available: when the
  known positions and the accepted part of the pushed piece together cover the stream, every byte is
  assembled and nothing stays in the store.\<close>

theorem last_missing_byte_completes:
  assumes "ra_inv S r" and "piece_of S index data" and "index \<le> first_unacceptable_byte r"
    and "{..<length S} \<subseteq>
      ra_known r \<union> ({index..<index + length data} \<inter> {..<first_unacceptable_byte r})"
  shows "\<exists>r'. StreamReassembler_push_substring r data index eof = Inr r' \<and>
    ra_first_unassemble_byte r' = length S \<and> StreamReassembler_empty r'"
proof -
  obtain r' where r': "StreamReassembler_push_substring r data index eof = Inr r'"
    and post: "push_post S r r' ({index..<index + length data} \<inter> {..<ra_limit r})"
    using push_ok[OF assms(1,2), of eof] assms(3) unfolding first_unacceptable_eq[OF assms(1)] by blast
  then have inv: "ra_inv S r'" and "{..<length S} \<subseteq> ra_known r'"
    using assms(4) unfolding push_post_def first_unacceptable_eq[OF assms(1)] by blast+
  then have fu: "ra_first_unassemble_byte r' = length S" by (rule known_all_assembled)
  then have "ra_unassembled r' = []" using assembled_no_entries[OF inv] by simp
  then show ?thesis
    using r' fu ra_inv_basic(9)[OF inv] by (simp add: StreamReassembler_empty_def)
qed

theorem last_missing_byte_completes_witness:
  "\<exists>r r'. StreamReassembler_push_substring (StreamReassembler_new 4) [6, 7] 1 False = Inr r \<and>
    StreamReassembler_push_substring r [5] 0 False = Inr r' \<and>
    ra_first_unassemble_byte r' = 3 \<and> StreamReassembler_empty r'"
proof -
  let ?S = "[5, 6, 7 :: byte]"
  have piece: "piece_of ?S 1 [6, 7]" "piece_of ?S 0 [5]" by (simp_all add: piece_of_def substr_def)
  have new: "ra_inv ?S (StreamReassembler_new 4)" by (rule ra_new_inv) simp_all
  have lim: "ra_limit (StreamReassembler_new 4) = 4" by (simp add: ra_limit_def ra_eval)
  have "1 \<le> ra_limit (StreamReassembler_new 4)" by (simp add: lim)
  then obtain r where r: "StreamReassembler_push_substring (StreamReassembler_new 4) [6, 7] 1 False = Inr r"
    and post: "push_post ?S (StreamReassembler_new 4) r ({1..<1 + length [6, 7 :: byte]} \<inter> {..<4})"
    using push_ok[OF new piece(1), of False] unfolding lim by blast
  have "{1..<1 + length [6, 7 :: byte]} \<inter> {..<4} = {1..<3}" by auto
  with post have inv: "ra_inv ?S r" and kn: "ra_known r = {1..<3}"
    unfolding push_post_def ra_new_known by simp_all
  have fub: "first_unacceptable_byte r = 4" using r by (auto simp: ra_eval)
  have "{..<length ?S} \<subseteq> ra_known r \<union> ({0..<0 + length [5 :: byte]} \<inter> {..<first_unacceptable_byte r})"
    unfolding kn fub by auto
  from last_missing_byte_completes[OF inv piece(2) _ this, of False] r show ?thesis by auto
qed



section \<open>Where the code and its documentation part\<close>

text \<open>
  Four behaviours outside the hypotheses above: bytes covered twice by stored substrings are counted
  twice; a final substring cut by the window still ends the output; an empty final substring ends
  the output even when earlier bytes are missing; a substring beyond the window makes the iterator
  range invalid.
\<close>

lemma overlap_counted_twice:
  "(case ra_run (StreamReassembler_new 100)
      [Ra_push [2, 3, 4] 2 False, Ra_push [10] 10 False, Ra_push [3, 4] 3 False] of
      Inr (_, r) \<Rightarrow> StreamReassembler_unassembled_bytes r = 6 | Inl _ \<Rightarrow> False)"
  by (simp add: ra_eval)

lemma truncated_eof_ends_early:
  "(case StreamReassembler_push_substring (StreamReassembler_new 2) [0, 1, 2] 0 True of
      Inr r \<Rightarrow> ByteStream_input_ended (StreamReassembler_stream_out r) \<and>
        ByteStream_bytes_written (StreamReassembler_stream_out r) = 2 | Inl _ \<Rightarrow> False)"
  by (simp add: ra_eval StreamReassembler_stream_out_def ByteStream_input_ended_def)

lemma empty_eof_ends_early:
  "(case StreamReassembler_push_substring (StreamReassembler_new 10) [] 3 True of
      Inr r \<Rightarrow> ByteStream_input_ended (StreamReassembler_stream_out r) \<and>
        StreamReassembler_first_unassembled_byte r = 0 | Inl _ \<Rightarrow> False)"
  by (simp add: ra_eval StreamReassembler_stream_out_def ByteStream_input_ended_def
      StreamReassembler_first_unassembled_byte_def)

lemma push_beyond_window_invalid_range:
  "\<exists>e. StreamReassembler_push_substring (StreamReassembler_new 2) [7, 8, 9] 3 False = Inl e"
  by (simp add: ra_eval)

end
