(* ===== verification/Wrapping.thy ===== *)
theory Wrapping
  imports Byte_Stream
begin

text \<open>
  Sequence numbers (\<open>libsponge/wrapping_integers.hh\<close>, \<open>.cc\<close>): \<open>WrappingInt32\<close> and its operators, \<open>wrap\<close>
  from 64-bit absolute to 32-bit relative numbers and \<open>unwrap\<close> back, with the 64-bit arithmetic of
  \<open>unwrap\<close> at its width.  The lemmas show the round trips, and that \<open>unwrap\<close> finds the number closest to
  the checkpoint outside one range in which its subtraction wraps.
\<close>

section \<open>WrappingInt32\<close>

type_synonym WrappingInt32 = u32

definition WrappingInt32_diff :: "WrappingInt32 \<Rightarrow> WrappingInt32 \<Rightarrow> int" where
  "WrappingInt32_diff a b = sint (a - b)"

definition WrappingInt32_plus :: "WrappingInt32 \<Rightarrow> u32 \<Rightarrow> WrappingInt32" where
  "WrappingInt32_plus a b = a + b"

definition WrappingInt32_minus :: "WrappingInt32 \<Rightarrow> u32 \<Rightarrow> WrappingInt32" where
  "WrappingInt32_minus a b = WrappingInt32_plus a (- b)"

definition wrap :: "u64 \<Rightarrow> WrappingInt32 \<Rightarrow> WrappingInt32" where
  "wrap n isn = of_nat n + isn"

definition unwrap :: "WrappingInt32 \<Rightarrow> WrappingInt32 \<Rightarrow> u64 \<Rightarrow> u64" where
  "unwrap n isn checkpoint =
     (let offset = unat (word_of_int (WrappingInt32_diff n isn) :: u32)
      in if and checkpoint 0xFFFFFFFF = 0 \<and> checkpoint \<le> offset then offset
         else let overflow_part = drop_bit 32 (sub64 checkpoint offset);
                  left = add64 offset (mul64 overflow_part (push_bit 32 1));
                  right = add64 left (push_bit 32 1)
              in if sub64 checkpoint left < sub64 right checkpoint then left else right)"

section \<open>Facts\<close>

lemma wrap_add: "wrap (n + k) isn = wrap n isn + of_nat k"
  by (simp add: wrap_def)

lemma wrap_mod: "wrap (n mod 4294967296) isn = wrap n isn"
  by (simp add: wrap_def word_of_nat_eq_iff take_bit_eq_mod)

lemma wrap_add64: "wrap (add64 n k) isn = wrap n isn + of_nat k"
proof -
  have "add64 n k mod 4294967296 = (n + k) mod 4294967296"
    unfolding add64_def by (rule mod_mod_cancel) simp
  then show ?thesis by (metis wrap_mod wrap_add)
qed

lemma unat_offset: "unat (wrap n isn - isn) = n mod 2 ^ 32"
  by (simp add: wrap_def unat_of_nat)

lemma low_bits: "and c 0xFFFFFFFF = c mod 2 ^ 32" for c :: nat
  using take_bit_eq_mask[of 32 c] by (simp add: take_bit_eq_mod mask_eq_exp_minus_1)

lemma offset_bound: "unat (x :: u32) < 4294967296"
  by (rule word_bounds(3))

text \<open>
  The three ways the computation goes: the checkpoint is at or past the offset, it is zero, or it
  lies before the offset and the 64-bit subtraction wraps.
\<close>

definition unwrap_low :: "u64 \<Rightarrow> u64 \<Rightarrow> u64" where
  "unwrap_low off c = off + (c - off) div 4294967296 * 4294967296"

lemma unwrap_zero: "unwrap n isn 0 = unat (n - isn)"
  by (simp add: unwrap_def WrappingInt32_diff_def Let_def)

lemma unwrap_ge:
  assumes "unat (n - isn) \<le> c" and "0 < c" and "c < 2 ^ 63"
  shows "unwrap n isn c =
    (let l = unwrap_low (unat (n - isn)) c in if c - l < l + 4294967296 - c then l else l + 4294967296)"
proof -
  let ?o = "unat (n - isn)" and ?M = "4294967296 :: nat"
  define q where "q = (c - ?o) div ?M"
  have c: "c < 9223372036854775808" using assms(3) by simp
  have qM: "q * ?M \<le> c - ?o" "c - ?o < q * ?M + ?M"
    unfolding q_def by (simp_all add: div_times_less_eq_dividend dividend_less_div_times)
  then have l: "?o + q * ?M \<le> c" using assms(1) by simp
  have early: "\<not> (c mod ?M = 0 \<and> c \<le> ?o)"
  proof
    assume a: "c mod ?M = 0 \<and> c \<le> ?o"
    then have "c < ?M" using offset_bound[of "n - isn"] by simp
    then show False using a assms(2) by simp
  qed
  have e: "sub64 c ?o = c - ?o" "mul64 q ?M = q * ?M" "add64 ?o (q * ?M) = ?o + q * ?M"
    "add64 (?o + q * ?M) ?M = ?o + q * ?M + ?M"
    "sub64 c (?o + q * ?M) = c - (?o + q * ?M)"
    "sub64 (?o + q * ?M + ?M) c = ?o + q * ?M + ?M - c"
    using assms(1) l c qM by (simp_all add: add64_exact sub64_exact mul64_exact)
  show ?thesis
    using early e by (simp add: unwrap_def WrappingInt32_diff_def low_bits Let_def drop_bit_eq_div
        q_def unwrap_low_def push_bit_eq_mult)
qed

lemma unwrap_lt:
  assumes "c < unat (n - isn)" and "0 < c"
  shows "unwrap n isn c =
    (if unat (n - isn) - c \<le> 2147483648 then unat (n - isn)
     else 18446744069414584320 + unat (n - isn))"
proof -
  let ?o = "unat (n - isn)" and ?M = "4294967296 :: nat"
  have o: "?o < ?M" by (rule offset_bound)
  have s: "sub64 c ?o = 18446744073709551616 + c - ?o" using assms(1) o by (simp add: sub64_wrap)
  have d: "(18446744073709551616 + c - ?o) div ?M = 4294967295"
    using assms o by (intro div_nat_eqI) auto
  have e: "mul64 4294967295 ?M = 18446744069414584320"
    "add64 ?o 18446744069414584320 = 18446744069414584320 + ?o"
    "add64 (18446744069414584320 + ?o) ?M = ?o"
    using o by (simp_all add: mul64_def add64_def)
  have f: "sub64 c (18446744069414584320 + ?o) = ?M + c - ?o" "sub64 ?o c = ?o - c"
    using assms o by (simp_all add: sub64_wrap sub64_exact)
  have early: "\<not> (c mod ?M = 0 \<and> c \<le> ?o)" using assms o by simp
  have "?M + c - ?o < ?o - c \<longleftrightarrow> \<not> ?o - c \<le> 2147483648" using assms o by auto
  then show ?thesis
    using early by (auto simp: unwrap_def WrappingInt32_diff_def low_bits Let_def drop_bit_eq_div s d
        e f push_bit_eq_mult)
qed

text \<open>Every result is congruent to the offset, so it wraps back to the sequence number.\<close>

lemma add64_mod: "add64 a b mod 4294967296 = (a + b) mod 4294967296"
  unfolding add64_def by (rule mod_mod_cancel) simp

lemma mul64_mod: "mul64 q 4294967296 mod 4294967296 = 0"
  by (simp add: mul64_def mod_mod_cancel)

lemma unwrap_mod: "unwrap n isn c mod 4294967296 = unat (n - isn)"
proof -
  let ?o = "unat (n - isn)" and ?M = "4294967296 :: nat"
  have o: "?o mod ?M = ?o" using offset_bound[of "n - isn"] by simp
  have l: "add64 ?o (mul64 q ?M) mod ?M = ?o" for q
    unfolding add64_mod using mod_add_eq[of ?o ?M "mul64 q ?M"] mul64_mod[of q] o by simp
  have r: "add64 x ?M mod ?M = x mod ?M" for x by (simp add: add64_mod)
  show ?thesis
    using o l r
    by (simp add: unwrap_def WrappingInt32_diff_def Let_def push_bit_eq_mult)
qed

lemma wrap_unwrap: "wrap (unwrap n isn c) isn = n"
proof -
  have "wrap (unwrap n isn c) isn = wrap (unat (n - isn)) isn"
    by (metis wrap_mod unwrap_mod)
  then show ?thesis by (simp add: wrap_def)
qed

text \<open>
  Outside the one bad range, the result is within \<open>2 ^ 31\<close> of the checkpoint, or is the offset
  itself when the checkpoint is zero.
\<close>

lemma unwrap_near:
  assumes "c < 2 ^ 63" and "0 < c" and "unat (n - isn) \<le> c + 2147483648"
  shows "unwrap n isn c \<le> c + 2147483648 \<and> c < unwrap n isn c + 2147483648"
proof (cases "unat (n - isn) \<le> c")
  case True
  let ?o = "unat (n - isn)" and ?M = "4294967296 :: nat"
  define q where "q = (c - ?o) div ?M"
  have "q * ?M \<le> c - ?o" "c - ?o < q * ?M + ?M"
    unfolding q_def by (simp_all add: div_times_less_eq_dividend dividend_less_div_times)
  then have "unwrap_low ?o c \<le> c" "c < unwrap_low ?o c + ?M"
    using True unfolding unwrap_low_def q_def[symmetric] by linarith+
  then show ?thesis
    using unwrap_ge[OF True assms(2,1)] by (auto simp: Let_def)
next
  case False
  then show ?thesis using unwrap_lt[of c n isn] assms by auto
qed

lemma mod_gap:
  fixes x y :: nat
  assumes "x mod 4294967296 = y mod 4294967296" and "x < y"
  shows "x + 4294967296 \<le> y"
proof -
  have "4294967296 dvd y - x" using assms by (metis mod_eq_dvd_iff_nat less_imp_le)
  then have "4294967296 \<le> y - x" using assms(2) by (intro dvd_imp_le) simp_all
  then show ?thesis using assms(2) by simp
qed

lemma mod_eq_near:
  fixes a b c :: nat
  assumes "a mod 4294967296 = b mod 4294967296"
    and "a \<le> c + 2147483648" "c < a + 2147483648" "b < c + 2147483648" "c < b + 2147483648"
  shows "a = b"
  using mod_gap[of a b] mod_gap[of b a] assms by (cases a b rule: linorder_cases) simp_all

lemma unwrap_wrap:
  assumes "n < c + 2 ^ 31" and "c < n + 2 ^ 31" and "c < 2 ^ 63"
  shows "unwrap (wrap n isn) isn c = n"
proof (cases "c = 0")
  case True
  then show ?thesis using assms by (simp add: unwrap_zero unat_offset)
next
  case False
  have "n mod 4294967296 \<le> c + 2147483648"
    using assms(1) mod_less_eq_dividend[of n 4294967296] by simp
  then have near: "unwrap (wrap n isn) isn c \<le> c + 2147483648"
      "c < unwrap (wrap n isn) isn c + 2147483648"
    using unwrap_near[OF assms(3), of "wrap n isn" isn] False by (simp_all add: unat_offset)
  have "unwrap (wrap n isn) isn c mod 4294967296 = n mod 4294967296"
    by (simp add: unwrap_mod unat_offset)
  from mod_eq_near[OF this near] assms show ?thesis by simp
qed

section \<open>Properties\<close>

text \<open>C13: a sequence number less than \<open>2 ^ 31\<close> away from the checkpoint is recovered from its 32-bit form,
  for every initial sequence number.\<close>

theorem unwrap_wrap_roundtrip:
  assumes "n < checkpoint + 2 ^ 31" and "checkpoint < n + 2 ^ 31" and "checkpoint < 2 ^ 63"
  shows "unwrap (wrap n isn) isn checkpoint = n"
  using assms by (rule unwrap_wrap)

theorem unwrap_wrap_roundtrip_witness:
  "unwrap (wrap 5000000000 4294967290) 4294967290 4999999000 = 5000000000"
  by (rule unwrap_wrap_roundtrip) simp_all

text \<open>\<open>unwrap\<close> always returns a number that wraps to the given sequence number, and when the
  checkpoint is zero or at most \<open>2 ^ 31\<close> behind the offset, no other number that wraps to it is closer
  to the checkpoint.\<close>

theorem unwrap_closest:
  assumes "checkpoint < 2 ^ 63" and "checkpoint = 0 \<or> unat (n - isn) \<le> checkpoint + 2 ^ 31"
    and "wrap m isn = n"
  shows "wrap (unwrap n isn checkpoint) isn = n \<and>
    \<bar>int (unwrap n isn checkpoint) - int checkpoint\<bar> \<le> \<bar>int m - int checkpoint\<bar>"
proof -
  let ?r = "unwrap n isn checkpoint"
  have m: "unat (n - isn) = m mod 4294967296" using unat_offset[of m isn] assms(3) by simp
  have eq: "?r mod 4294967296 = m mod 4294967296" by (simp add: unwrap_mod m)
  have "\<bar>int ?r - int checkpoint\<bar> \<le> \<bar>int m - int checkpoint\<bar>"
  proof (cases "checkpoint = 0")
    case True
    then show ?thesis by (simp add: unwrap_zero m)
  next
    case False
    then have "?r \<le> checkpoint + 2147483648" "checkpoint < ?r + 2147483648"
      using unwrap_near[OF assms(1), of n isn] assms(2) by simp_all
    then show ?thesis
      using mod_gap[OF eq] mod_gap[OF eq[symmetric]] by (cases ?r m rule: linorder_cases) simp_all
  qed
  then show ?thesis by (simp add: wrap_unwrap)
qed

theorem unwrap_closest_witness:
  "\<bar>int (unwrap 17 15 (2 ^ 32 + 1)) - int (2 ^ 32 + 1)\<bar> \<le> \<bar>int 2 - int (2 ^ 32 + 1)\<bar>"
  using unwrap_closest[of "2 ^ 32 + 1" 17 15 2] by (simp add: wrap_def)

text \<open>
  In the remaining range the 64-bit subtraction wraps and the result lies near \<open>2 ^ 64\<close>, although the
  offset itself is closer.
\<close>

lemma unwrap_far_behind:
  assumes "0 < c" and "c + 2147483648 < unat (n - isn)"
  shows "unwrap n isn c = 18446744069414584320 + unat (n - isn)"
  using unwrap_lt[of c n isn] assms by simp

lemma unwrap_far_behind_example: "unwrap 4294967295 0 1 = 18446744073709551615"
  by (subst unwrap_far_behind) simp_all

end
