(* ===== verification/Parser.thy ===== *)
theory Parser
  imports Buffers
begin

text \<open>
  Network byte order (\<open>libsponge/util/parser.hh\<close>, \<open>.cc\<close>): \<open>ParseResult\<close>, the \<open>NetParser\<close> that reads
  big-endian integers off the front of a buffer and remembers the first error, and the \<open>NetUnparser\<close>
  that appends them to a string.  The template parameter \<open>T\<close> is the word type; \<open>sizeof(T)\<close> is an
  argument.  The locale \<open>codec\<close> is the contract of a format: what was written is read back and the
  rest of the input is left; \<open>u8\<close>, \<open>u16\<close>, \<open>u32\<close> here and every header format later are instances.
\<close>

section \<open>ParseResult\<close>

datatype parse_result =
    NoError
  | BadChecksum
  | PacketTooShort
  | WrongIPVersion
  | HeaderTooShort
  | TruncatedPacket
  | Unsupported

definition parse_result_index :: "parse_result \<Rightarrow> nat" where
  "parse_result_index r =
     (case r of NoError \<Rightarrow> 0 | BadChecksum \<Rightarrow> 1 | PacketTooShort \<Rightarrow> 2 | WrongIPVersion \<Rightarrow> 3
      | HeaderTooShort \<Rightarrow> 4 | TruncatedPacket \<Rightarrow> 5 | Unsupported \<Rightarrow> 6)"

definition as_string :: "parse_result \<Rightarrow> string result" where
  "as_string r =
     (let names = [''NoError'', ''BadChecksum'', ''PacketTooShort'', ''WrongIPVersion'',
                   ''HeaderTooShort'', ''TruncatedPacket''];
          i = parse_result_index r
      in if i < length names then Inr (names ! i)
         else Inl (Undefined_behaviour ''index past the end of _names''))"

section \<open>NetParser\<close>

record net_parser =
  np_buffer :: buffer
  np_error :: parse_result

definition NetParser_new :: "buffer \<Rightarrow> net_parser" where
  "NetParser_new b = \<lparr>np_buffer = b, np_error = NoError\<rparr>"

definition NetParser_set_error :: "net_parser \<Rightarrow> parse_result \<Rightarrow> net_parser" where
  "NetParser_set_error p res = p\<lparr>np_error := res\<rparr>"

definition NetParser_error :: "net_parser \<Rightarrow> bool" where
  "NetParser_error p \<longleftrightarrow> np_error p \<noteq> NoError"

definition NetParser_check_size :: "net_parser \<Rightarrow> u64 \<Rightarrow> net_parser" where
  "NetParser_check_size p n =
     (if Buffer_size (np_buffer p) < n then NetParser_set_error p PacketTooShort else p)"

fun NetParser_parse_loop :: "buffer \<Rightarrow> u64 list \<Rightarrow> 'a::len word \<Rightarrow> 'a word result" where
  "NetParser_parse_loop b [] ret = Inr ret"
| "NetParser_parse_loop b (i # is) ret =
     rbind (Buffer_at b i) (\<lambda>x. NetParser_parse_loop b is (push_bit 8 ret + ucast x))"

definition NetParser_parse_int :: "u64 \<Rightarrow> net_parser \<Rightarrow> ('a::len word \<times> net_parser) result" where
  "NetParser_parse_int len p =
     (let p = NetParser_check_size p len
      in if NetParser_error p then Inr (0, p)
         else rbind (NetParser_parse_loop (np_buffer p) [0..<len] 0) (\<lambda>ret.
                rbind (Buffer_remove_prefix (np_buffer p) len) (\<lambda>b.
                  Inr (ret, p\<lparr>np_buffer := b\<rparr>))))"

definition NetParser_u32 :: "net_parser \<Rightarrow> (u32 \<times> net_parser) result" where
  "NetParser_u32 p = NetParser_parse_int 4 p"

definition NetParser_u16 :: "net_parser \<Rightarrow> (u16 \<times> net_parser) result" where
  "NetParser_u16 p = NetParser_parse_int 2 p"

definition NetParser_u8 :: "net_parser \<Rightarrow> (u8 \<times> net_parser) result" where
  "NetParser_u8 p = NetParser_parse_int 1 p"

definition NetParser_remove_prefix :: "net_parser \<Rightarrow> u64 \<Rightarrow> net_parser result" where
  "NetParser_remove_prefix p n =
     (let p = NetParser_check_size p n
      in if NetParser_error p then Inr p
         else rbind (Buffer_remove_prefix (np_buffer p) n) (\<lambda>b. Inr (p\<lparr>np_buffer := b\<rparr>)))"

section \<open>NetUnparser\<close>

definition NetUnparser_unparse_int :: "u64 \<Rightarrow> byte list \<Rightarrow> 'a::len word \<Rightarrow> byte list" where
  "NetUnparser_unparse_int len s val =
     foldl (\<lambda>s i. s @ [ucast (and (drop_bit ((len - i - 1) * 8) val) 0xff)]) s [0..<len]"

definition NetUnparser_u32 :: "byte list \<Rightarrow> u32 \<Rightarrow> byte list" where
  "NetUnparser_u32 s val = NetUnparser_unparse_int 4 s val"

definition NetUnparser_u16 :: "byte list \<Rightarrow> u16 \<Rightarrow> byte list" where
  "NetUnparser_u16 s val = NetUnparser_unparse_int 2 s val"

definition NetUnparser_u8 :: "byte list \<Rightarrow> u8 \<Rightarrow> byte list" where
  "NetUnparser_u8 s val = NetUnparser_unparse_int 1 s val"

section \<open>Big-endian bytes\<close>

definition be16 :: "u16 \<Rightarrow> byte list" where
  "be16 v = [ucast (drop_bit 8 v), ucast v]"

definition be32 :: "u32 \<Rightarrow> byte list" where
  "be32 v = [ucast (drop_bit 24 v), ucast (drop_bit 16 v), ucast (drop_bit 8 v), ucast v]"

lemma length_be [simp]: "length (be16 v) = 2" "length (be32 w) = 4"
  by (simp_all add: be16_def be32_def)

lemma byte_mask: "(0xff :: 'a::len word) = mask 8"
  by (simp add: mask_eq_exp_minus_1)

lemma ucast_low_byte: "ucast (and (v :: 'a::len word) 0xff) = (ucast v :: 8 word)"
  unfolding byte_mask
  by (rule bit_word_eqI) (auto simp: bit_ucast_iff bit_and_iff bit_mask_iff dest: bit_imp_le_length)

lemma byte_and_mask: "and (a :: 8 word) 0xff = a"
  using ucast_low_byte[of a] by simp

lemma unparse_bytes [simp, bytes_of]:
  "NetUnparser_u8 s a = s @ [a]"
  "NetUnparser_u16 s b = s @ be16 b"
  "NetUnparser_u32 s c = s @ be32 c"
  by (simp_all add: NetUnparser_u8_def NetUnparser_u16_def NetUnparser_u32_def
      NetUnparser_unparse_int_def be16_def be32_def ucast_low_byte byte_and_mask upt_rec)

definition of_be16 :: "byte list \<Rightarrow> u16" where
  "of_be16 bs = push_bit 8 (ucast (bs ! 0)) + ucast (bs ! 1)"

definition of_be32 :: "byte list \<Rightarrow> u32" where
  "of_be32 bs =
     push_bit 8 (push_bit 8 (push_bit 8 (ucast (bs ! 0)) + ucast (bs ! 1)) + ucast (bs ! 2)) + ucast (bs ! 3)"

lemma push_byte_or:
  "push_bit 8 (x :: 'a::len word) + ucast (b :: 8 word) = or (push_bit 8 x) (ucast b)"
  by (rule disjunctive_add_eq_or, rule bit_word_eqI)
     (auto simp: bit_and_iff bit_push_bit_iff bit_ucast_iff dest: bit_imp_le_length)

lemma of_be16_be16 [simp]: "of_be16 (be16 v @ rest) = v"
  unfolding of_be16_def be16_def push_byte_or
  by (rule bit_word_eqI)
     (auto simp: bit_or_iff bit_push_bit_iff bit_ucast_iff bit_drop_bit_eq dest: bit_imp_le_length)

lemma of_be32_be32 [simp]: "of_be32 (be32 v @ rest) = v"
proof (rule bit_word_eqI)
  fix n assume "n < LENGTH(32)"
  consider "n < 8" | "8 \<le> n" "n < 16" | "16 \<le> n" "n < 24" | "24 \<le> n" by linarith
  then show "bit (of_be32 (be32 v @ rest)) n = bit v n"
    using \<open>n < LENGTH(32)\<close> unfolding of_be32_def be32_def push_byte_or
    by cases (auto simp: bit_or_iff bit_push_bit_iff bit_ucast_iff bit_drop_bit_eq)
qed

section \<open>What the parser does\<close>

text \<open>The buffer left after a successful removal, as a function.\<close>

definition Buffer_drop :: "buffer \<Rightarrow> nat \<Rightarrow> buffer" where
  "Buffer_drop b n = (case Buffer_remove_prefix b n of Inl _ \<Rightarrow> b | Inr b' \<Rightarrow> b')"

lemma Buffer_drop:
  assumes "buffer_wf b" and "n \<le> length (Buffer_str b)"
  shows "Buffer_remove_prefix b n = Inr (Buffer_drop b n)"
    and "Buffer_str (Buffer_drop b n) = drop n (Buffer_str b)" and "buffer_wf (Buffer_drop b n)"
proof -
  obtain b' where b': "Buffer_remove_prefix b n = Inr b'" "buffer_wf b'"
      "Buffer_str b' = drop n (Buffer_str b)"
    using Buffer_remove_prefix_Inr[OF assms] .
  then show "Buffer_remove_prefix b n = Inr (Buffer_drop b n)"
    "Buffer_str (Buffer_drop b n) = drop n (Buffer_str b)" "buffer_wf (Buffer_drop b n)"
    by (simp_all add: Buffer_drop_def)
qed

text \<open>A parser is in order while it has no error and its buffer is well formed.\<close>

definition np_ok :: "net_parser \<Rightarrow> bool" where
  "np_ok p \<longleftrightarrow> np_error p = NoError \<and> buffer_wf (np_buffer p)"

definition np_bytes :: "net_parser \<Rightarrow> byte list" where
  "np_bytes p = Buffer_str (np_buffer p)"

definition np_drop :: "net_parser \<Rightarrow> nat \<Rightarrow> net_parser" where
  "np_drop p n = p\<lparr>np_buffer := Buffer_drop (np_buffer p) n\<rparr>"

lemma np_new [simp]:
  "np_ok (NetParser_new b) = buffer_wf b" "np_bytes (NetParser_new b) = Buffer_str b"
  by (simp_all add: np_ok_def np_bytes_def NetParser_new_def)

lemma np_drop [simp]:
  "np_ok p \<Longrightarrow> n \<le> length (np_bytes p) \<Longrightarrow> np_ok (np_drop p n)"
  "np_ok p \<Longrightarrow> n \<le> length (np_bytes p) \<Longrightarrow> np_bytes (np_drop p n) = drop n (np_bytes p)"
  by (simp_all add: np_ok_def np_bytes_def np_drop_def Buffer_drop)

lemma np_ok_no_error [simp]: "np_ok p \<Longrightarrow> np_error p = NoError" "np_ok p \<Longrightarrow> \<not> NetParser_error p"
  by (simp_all add: np_ok_def NetParser_error_def)

lemma parse_loop_ok:
  "\<forall>i\<in>set is. i < length (Buffer_str b) \<Longrightarrow>
   NetParser_parse_loop b is ret = Inr (foldl (\<lambda>ret i. push_bit 8 ret + ucast (Buffer_str b ! i)) ret is)"
  by (induction b "is" ret rule: NetParser_parse_loop.induct) (auto simp: Buffer_at_def)

text \<open>Enough input: the integer and the rest.  Too little: zero and \<open>PacketTooShort\<close>, nothing consumed.\<close>

lemma parse_int_ok:
  assumes "np_ok p" and "len \<le> length (np_bytes p)"
  shows "NetParser_parse_int len p =
    Inr (foldl (\<lambda>ret i. push_bit 8 ret + ucast (np_bytes p ! i)) 0 [0..<len], np_drop p len)"
  using assms
  by (simp add: parse_loop_ok NetParser_parse_int_def NetParser_check_size_def Buffer_size_def np_bytes_def np_ok_def
      NetParser_error_def Buffer_drop np_drop_def)

lemma parse_int_short:
  "length (np_bytes p) < len \<Longrightarrow>
   NetParser_parse_int len p = Inr (0, p\<lparr>np_error := PacketTooShort\<rparr>)"
  by (simp add: NetParser_parse_int_def NetParser_check_size_def Buffer_size_def np_bytes_def
      NetParser_error_def NetParser_set_error_def)

lemma parse_int_stuck:
  "np_error p \<noteq> NoError \<Longrightarrow>
   NetParser_parse_int len p =
     Inr (0, p\<lparr>np_error := (if length (np_bytes p) < len then PacketTooShort else np_error p)\<rparr>)"
  by (simp add: NetParser_parse_int_def NetParser_check_size_def NetParser_error_def
      NetParser_set_error_def Buffer_size_def np_bytes_def)

lemma parse_ok [simp]:
  "np_ok p \<Longrightarrow> 1 \<le> length (np_bytes p) \<Longrightarrow> NetParser_u8 p = Inr (np_bytes p ! 0, np_drop p 1)"
  "np_ok p \<Longrightarrow> 2 \<le> length (np_bytes p) \<Longrightarrow> NetParser_u16 p = Inr (of_be16 (np_bytes p), np_drop p 2)"
  "np_ok p \<Longrightarrow> 4 \<le> length (np_bytes p) \<Longrightarrow> NetParser_u32 p = Inr (of_be32 (np_bytes p), np_drop p 4)"
  by (simp_all add: NetParser_u8_def NetParser_u16_def NetParser_u32_def parse_int_ok of_be16_def of_be32_def
      upt_rec numeral_2_eq_2 numeral_3_eq_3)

lemma remove_prefix_parser_ok [simp]:
  "np_ok p \<Longrightarrow> n \<le> length (np_bytes p) \<Longrightarrow> NetParser_remove_prefix p n = Inr (np_drop p n)"
  by (simp add: NetParser_remove_prefix_def NetParser_check_size_def Buffer_size_def np_bytes_def np_ok_def
      NetParser_error_def Buffer_drop np_drop_def)

section \<open>The contract of a format\<close>

text \<open>
  \<open>decodes p x q\<close>: reading from parser \<open>p\<close> succeeds with value \<open>x\<close> and leaves parser \<open>q\<close>.
\<close>

locale codec =
  fixes enc :: "'a \<Rightarrow> byte list"
    and decodes :: "net_parser \<Rightarrow> 'a \<Rightarrow> net_parser \<Rightarrow> bool"
    and valid :: "'a \<Rightarrow> bool"
  assumes read_back:
      "valid x \<Longrightarrow> np_ok p \<Longrightarrow> np_bytes p = enc x @ rest \<Longrightarrow>
       \<exists>q. decodes p x q \<and> np_ok q \<and> np_bytes q = rest"
    and functional: "decodes p x q \<Longrightarrow> decodes p y q' \<Longrightarrow> x = y \<and> q = q'"
begin

lemma read_back_unique:
  assumes "valid x" and "np_ok p" and "np_bytes p = enc x @ rest" and "decodes p y q"
  shows "y = x \<and> np_ok q \<and> np_bytes q = rest"
  using read_back[OF assms(1-3)] functional[OF assms(4)] by blast

text \<open>No valid encoding is a proper prefix of another one: a message determines its value and its end.\<close>

lemma prefix_free:
  assumes "valid x" and "valid y" and "enc x @ r = enc y @ s" and "length (enc x @ r) < two64"
  shows "x = y \<and> r = s"
proof -
  let ?p = "NetParser_new (Buffer_of (enc x @ r))"
  have ok: "np_ok ?p" "np_bytes ?p = enc x @ r" using assms(4) by simp_all
  obtain q where "decodes ?p x q" "np_bytes q = r" using read_back[OF assms(1) ok] by blast
  then show ?thesis using read_back_unique[OF assms(2) ok(1), of s x q] ok(2) assms(3) by simp
qed

end

interpretation u8_codec: codec "\<lambda>v. NetUnparser_u8 [] v" "\<lambda>p v q. NetParser_u8 p = Inr (v, q)" "\<lambda>_. True"
  by unfold_locales auto

interpretation u16_codec: codec "\<lambda>v. NetUnparser_u16 [] v" "\<lambda>p v q. NetParser_u16 p = Inr (v, q)" "\<lambda>_. True"
  by unfold_locales auto

interpretation u32_codec: codec "\<lambda>v. NetUnparser_u32 [] v" "\<lambda>p v q. NetParser_u32 p = Inr (v, q)" "\<lambda>_. True"
  by unfold_locales auto

text \<open>
  One step of a parser written as a chain of \<open>rbind\<close>: the chain reads a field and goes on with the
  rest.  A format's proof applies these rules field by field.
\<close>

lemma np_step_u8:
  assumes "np_ok p" and "np_bytes p = v # rest"
    and "\<And>q. np_ok q \<Longrightarrow> np_bytes q = rest \<Longrightarrow> \<exists>r. f (v, q) = Inr r \<and> P r"
  shows "\<exists>r. rbind (NetParser_u8 p) f = Inr r \<and> P r"
  using assms(3)[of "np_drop p 1"] assms(1,2) by simp

lemma np_step_u16:
  assumes "np_ok p" and "np_bytes p = be16 v @ rest"
    and "\<And>q. np_ok q \<Longrightarrow> np_bytes q = rest \<Longrightarrow> \<exists>r. f (v, q) = Inr r \<and> P r"
  shows "\<exists>r. rbind (NetParser_u16 p) f = Inr r \<and> P r"
  using assms(3)[of "np_drop p 2"] assms(1,2) by simp

lemma np_step_u32:
  assumes "np_ok p" and "np_bytes p = be32 v @ rest"
    and "\<And>q. np_ok q \<Longrightarrow> np_bytes q = rest \<Longrightarrow> \<exists>r. f (v, q) = Inr r \<and> P r"
  shows "\<exists>r. rbind (NetParser_u32 p) f = Inr r \<and> P r"
  using assms(3)[of "np_drop p 4"] assms(1,2) by simp

lemma np_step_remove:
  assumes "np_ok p" and "np_bytes p = skipped @ rest" and "n = length skipped"
    and "\<And>q. np_ok q \<Longrightarrow> np_bytes q = rest \<Longrightarrow> \<exists>r. f q = Inr r \<and> P r"
  shows "\<exists>r. rbind (NetParser_remove_prefix p n) f = Inr r \<and> P r"
  using assms(4)[of "np_drop p n"] assms(1-3) by simp

lemmas np_steps = np_step_u8 np_step_u16 np_step_u32

section \<open>Parsing is total\<close>

text \<open>Whatever the bytes, a parser reports trouble through its error field and never throws.\<close>

lemma parse_loop_total: "\<forall>i\<in>set is. i < length (Buffer_str b) \<Longrightarrow> \<exists>v. NetParser_parse_loop b is ret = Inr v"
  by (induction "is" arbitrary: ret) (auto simp: Buffer_at_def)

lemma parse_int_total:
  assumes "buffer_wf (np_buffer p)"
  shows "\<exists>(v :: 'a::len word) q. NetParser_parse_int len p = Inr (v, q) \<and> buffer_wf (np_buffer q)"
proof (cases "NetParser_error (NetParser_check_size p len)")
  case True
  then show ?thesis using assms by (simp add: NetParser_parse_int_def NetParser_check_size_def NetParser_set_error_def)
next
  case False
  then have len: "len \<le> length (Buffer_str (np_buffer p))" and p: "NetParser_check_size p len = p"
    by (auto simp: NetParser_check_size_def NetParser_set_error_def NetParser_error_def Buffer_size_def split: if_splits)
  obtain v :: "'a word" where "NetParser_parse_loop (np_buffer p) [0..<len] 0 = Inr v"
    using parse_loop_total[of "[0..<len]" "np_buffer p"] len by auto
  moreover obtain b where "Buffer_remove_prefix (np_buffer p) len = Inr b" "buffer_wf b"
    using Buffer_remove_prefix_Inr[OF assms len] by blast
  ultimately show ?thesis using False by (simp add: NetParser_parse_int_def p)
qed

lemma total_int:
  assumes "buffer_wf (np_buffer p)" "\<And>v q. buffer_wf (np_buffer q) \<Longrightarrow> \<exists>r. f (v :: 'a::len word, q) = Inr r"
  shows "\<exists>r. rbind (NetParser_parse_int len p) f = Inr r"
proof -
  obtain v :: "'a word" and q where "NetParser_parse_int len p = Inr (v, q)" "buffer_wf (np_buffer q)"
    using parse_int_total[OF assms(1)] by blast
  then show ?thesis using assms(2)[of q v] by simp
qed

lemma total_u8:
  "buffer_wf (np_buffer p) \<Longrightarrow> (\<And>v q. buffer_wf (np_buffer q) \<Longrightarrow> \<exists>r. f (v, q) = Inr r) \<Longrightarrow> \<exists>r. rbind (NetParser_u8 p) f = Inr r"
  unfolding NetParser_u8_def by (rule total_int)

lemma total_u16:
  "buffer_wf (np_buffer p) \<Longrightarrow> (\<And>v q. buffer_wf (np_buffer q) \<Longrightarrow> \<exists>r. f (v, q) = Inr r) \<Longrightarrow> \<exists>r. rbind (NetParser_u16 p) f = Inr r"
  unfolding NetParser_u16_def by (rule total_int)

lemma total_u32:
  "buffer_wf (np_buffer p) \<Longrightarrow> (\<And>v q. buffer_wf (np_buffer q) \<Longrightarrow> \<exists>r. f (v, q) = Inr r) \<Longrightarrow> \<exists>r. rbind (NetParser_u32 p) f = Inr r"
  unfolding NetParser_u32_def by (rule total_int)


lemma total_remove:
  assumes "buffer_wf (np_buffer p)" "\<And>q. buffer_wf (np_buffer q) \<Longrightarrow> \<exists>r. f q = Inr r"
  shows "\<exists>r. rbind (NetParser_remove_prefix p n) f = Inr r"
proof (cases "NetParser_error (NetParser_check_size p n)")
  case True
  then show ?thesis using assms by (simp add: NetParser_remove_prefix_def NetParser_check_size_def NetParser_set_error_def)
next
  case False
  then have len: "n \<le> length (Buffer_str (np_buffer p))" and p: "NetParser_check_size p n = p"
    by (auto simp: NetParser_check_size_def NetParser_set_error_def NetParser_error_def Buffer_size_def split: if_splits)
  obtain b where "Buffer_remove_prefix (np_buffer p) n = Inr b" "buffer_wf b"
    using Buffer_remove_prefix_Inr[OF assms(1) len] by blast
  then show ?thesis using False assms(2)[of "p\<lparr>np_buffer := b\<rparr>"] by (simp add: NetParser_remove_prefix_def p)
qed

lemmas parse_totals = total_u8 total_u16 total_u32 total_remove

section \<open>Properties\<close>

text \<open>An integer written in network byte order by \<open>NetUnparser\<close> is read back by \<open>NetParser\<close> with the
  bytes that follow left in the parser, for each of the three widths.\<close>

theorem net_int_roundtrip:
  assumes "length rest < 2 ^ 63"
  shows "(\<exists>q. NetParser_u8 (NetParser_new (Buffer_of (NetUnparser_u8 [] a @ rest))) = Inr (a, q) \<and>
            np_ok q \<and> np_bytes q = rest) \<and>
    (\<exists>q. NetParser_u16 (NetParser_new (Buffer_of (NetUnparser_u16 [] b @ rest))) = Inr (b, q) \<and>
            np_ok q \<and> np_bytes q = rest) \<and>
    (\<exists>q. NetParser_u32 (NetParser_new (Buffer_of (NetUnparser_u32 [] c @ rest))) = Inr (c, q) \<and>
            np_ok q \<and> np_bytes q = rest)"
proof (intro conjI)
  have len: "length rest < 9223372036854775808" using assms by simp
  show "\<exists>q. NetParser_u8 (NetParser_new (Buffer_of (NetUnparser_u8 [] a @ rest))) = Inr (a, q) \<and>
            np_ok q \<and> np_bytes q = rest"
    by (rule u8_codec.read_back[OF TrueI]) (use len in simp_all)
  show "\<exists>q. NetParser_u16 (NetParser_new (Buffer_of (NetUnparser_u16 [] b @ rest))) = Inr (b, q) \<and>
            np_ok q \<and> np_bytes q = rest"
    by (rule u16_codec.read_back[OF TrueI]) (use len in simp_all)
  show "\<exists>q. NetParser_u32 (NetParser_new (Buffer_of (NetUnparser_u32 [] c @ rest))) = Inr (c, q) \<and>
            np_ok q \<and> np_bytes q = rest"
    by (rule u32_codec.read_back[OF TrueI]) (use len in simp_all)
qed

theorem net_int_roundtrip_witness:
  "\<exists>q. NetParser_u16 (NetParser_new (Buffer_of (NetUnparser_u16 [] 258 @ [7]))) = Inr (258, q) \<and>
     np_ok q \<and> np_bytes q = [7]"
  using net_int_roundtrip[of "[7]" 0 258 0] by simp

text \<open>\<open>as_string\<close> has no name for \<open>Unsupported\<close> and reads past its table.\<close>

lemma as_string_unsupported: "\<exists>e. as_string Unsupported = Inl (Undefined_behaviour e)"
  by (simp add: as_string_def parse_result_index_def)

lemma as_string_named: "r \<noteq> Unsupported \<Longrightarrow> \<exists>s. as_string r = Inr s"
  by (cases r) (simp_all add: as_string_def parse_result_index_def)

end
