(* ===== verification/Checksum.thy ===== *)
theory Checksum
  imports Parser
begin

text \<open>
  The Internet checksum (\<open>libsponge/util/util.hh\<close>, \<open>.cc\<close>): a 32-bit running sum of 16-bit big-endian
  halves with a parity flag that lets data be added in pieces, and \<open>value\<close>, which folds the carries
  in a loop and complements.  The loop terminates; its result is characterised modulo 65535; and a
  message with the computed checksum in place verifies.
\<close>

section \<open>InternetChecksum\<close>

record internet_checksum =
  ic_sum :: u32
  ic_parity :: bool

definition InternetChecksum_new :: "u32 \<Rightarrow> internet_checksum" where
  "InternetChecksum_new initial_sum = \<lparr>ic_sum = initial_sum, ic_parity = False\<rparr>"

fun InternetChecksum_add :: "internet_checksum \<Rightarrow> byte list \<Rightarrow> internet_checksum" where
  "InternetChecksum_add c [] = c"
| "InternetChecksum_add c (b # data) =
     (let val = (ucast b :: u16);
          val = (if \<not> ic_parity c then push_bit 8 val else val)
      in InternetChecksum_add \<lparr>ic_sum = ic_sum c + ucast val, ic_parity = \<not> ic_parity c\<rparr> data)"

lemma fold_decreases:
  assumes "0xffff < (ret :: u32)"
  shows "unat (drop_bit 16 ret + and ret 0xffff) < unat ret"
    and "unat (drop_bit 16 ret + and ret 0xffff) = unat ret div 65536 + unat ret mod 65536"
proof -
  have m: "(0xffff :: u32) = mask 16" by (simp add: mask_eq_exp_minus_1)
  have d: "unat (drop_bit 16 ret) = unat ret div 65536"
    unfolding unat_drop_bit by simp
  have a: "unat (and ret 0xffff) = unat ret mod 65536"
    unfolding m take_bit_eq_mask[symmetric] unat_take_bit by simp
  have gt: "65536 \<le> unat ret" using assms by (simp add: word_less_nat_alt)
  have lt: "unat ret < 4294967296" by (rule word_bounds(3))
  then have "unat ret div 65536 + unat ret mod 65536 < 4294967296" by linarith
  then show eq: "unat (drop_bit 16 ret + and ret 0xffff) = unat ret div 65536 + unat ret mod 65536"
    by (simp add: unat_word_ariths d a)
  show "unat (drop_bit 16 ret + and ret 0xffff) < unat ret"
    unfolding eq using gt div_mult_mod_eq[of "unat ret" 65536] by linarith
qed

function InternetChecksum_fold :: "u32 \<Rightarrow> u32" where
  "InternetChecksum_fold ret =
     (if 0xffff < ret then InternetChecksum_fold (drop_bit 16 ret + and ret 0xffff) else ret)"
  by auto
termination
  by (relation "measure unat") (simp_all only: in_measure wf_measure fold_decreases(1))

declare InternetChecksum_fold.simps [simp del]

definition InternetChecksum_value :: "internet_checksum \<Rightarrow> u16" where
  "InternetChecksum_value c = ucast (not (InternetChecksum_fold (ic_sum c)))"

section \<open>The loop computes the residue\<close>

lemma fold_residue:
  "unat (InternetChecksum_fold ret) = (if ret = 0 then 0 else (unat ret - 1) mod 65535 + 1)"
proof (induction ret rule: InternetChecksum_fold.induct)
  case (1 ret)
  show ?case
  proof (cases "0xffff < ret")
    case True
    let ?n = "drop_bit 16 ret + and ret 0xffff" and ?q = "unat ret div 65536" and ?r = "unat ret mod 65536"
    have n: "unat ?n = ?q + ?r" by (rule fold_decreases(2)[OF True])
    have q: "0 < ?q" using True by (simp add: word_less_nat_alt div_greater_zero_iff)
    then have nz: "?n \<noteq> 0" using n by (metis add_is_0 less_not_refl unat_0)
    have split: "unat ret = ?q * 65536 + ?r" by simp
    have "unat ret - 1 = ?q * 65535 + (?q + ?r - 1)" using q split by linarith
    then have "(unat ret - 1) mod 65535 = (?q + ?r - 1) mod 65535" by simp
    moreover have "ret \<noteq> 0" using True by auto
    ultimately show ?thesis
      using 1[OF True] nz n True by (subst InternetChecksum_fold.simps) simp
  next
    case False
    then have "unat ret \<le> 65535" by (simp add: word_less_nat_alt not_less)
    moreover have "0 < unat ret" if "ret \<noteq> 0" using that by (simp add: unat_gt_0)
    ultimately show ?thesis
      using False by (subst InternetChecksum_fold.simps) auto
  qed
qed

lemma fold_le: "unat (InternetChecksum_fold ret) \<le> 65535"
  by (simp add: fold_residue less_Suc_eq_le[symmetric])

lemma unat_complement: "unat (not (x :: u16)) = 65535 - unat x"
proof -
  have "not x = 65535 - x" by (simp add: not_eq_complement)
  moreover have "x \<le> 65535" using word_bounds(2)[of x] by (simp add: word_le_nat_alt)
  ultimately show ?thesis by (simp add: unat_sub)
qed

lemma value_fold: "unat (InternetChecksum_value c) = 65535 - unat (InternetChecksum_fold (ic_sum c))"
proof -
  let ?f = "InternetChecksum_fold (ic_sum c)"
  have "unat ?f < 65536" using fold_le[of "ic_sum c"] by simp
  then have "unat (ucast ?f :: u16) = unat ?f" by (simp add: unsigned_ucast_eq take_bit_eq_mod)
  moreover have "(ucast (not ?f) :: u16) = not (ucast ?f)"
    by (rule bit_word_eqI) (simp add: bit_ucast_iff bit_not_iff)
  ultimately show ?thesis
    by (simp add: InternetChecksum_value_def unat_complement)
qed

lemma value_zero_iff:
  "InternetChecksum_value c = 0 \<longleftrightarrow> ic_sum c \<noteq> 0 \<and> 65535 dvd unat (ic_sum c)"
proof -
  let ?n = "unat (ic_sum c)"
  have "InternetChecksum_value c = 0 \<longleftrightarrow> unat (InternetChecksum_value c) = 0"
    by (simp add: unat_eq_0)
  also have "\<dots> \<longleftrightarrow> unat (InternetChecksum_fold (ic_sum c)) = 65535"
    using fold_le[of "ic_sum c"] by (auto simp: value_fold)
  also have "\<dots> \<longleftrightarrow> ic_sum c \<noteq> 0 \<and> (?n - 1) mod 65535 = 65534"
    by (simp add: fold_residue)
  also have "\<dots> \<longleftrightarrow> ic_sum c \<noteq> 0 \<and> 65535 dvd ?n"
  proof (rule conj_cong[OF refl])
    assume "ic_sum c \<noteq> 0"
    then obtain k where "?n = Suc k" by (metis unat_eq_0 not0_implies_Suc)
    then show "(?n - 1) mod 65535 = 65534 \<longleftrightarrow> 65535 dvd ?n"
      by (simp add: dvd_eq_mod_eq_0 mod_Suc)
  qed
  finally show ?thesis .
qed

section \<open>The sum of the data\<close>

text \<open>The exact sum, before it is reduced to 32 bits, with the byte order the parity gives.\<close>

fun csum :: "bool \<Rightarrow> byte list \<Rightarrow> nat" where
  "csum parity [] = 0"
| "csum parity (b # data) = (if parity then unat b else 256 * unat b) + csum (\<not> parity) data"

lemma csum_append: "csum par (a @ b) = csum par a + csum (par = even (length a)) b"
proof (induction a arbitrary: par)
  case (Cons x a)
  have "((\<not> par) = even (length a)) = (par = odd (length a))" by auto
  with Cons.IH[of "\<not> par"] show ?case by simp
qed simp

lemma csum_bound: "csum par data \<le> 65280 * length data"
proof (induction data arbitrary: par)
  case (Cons b data)
  have "unat b \<le> 255" using word_bounds(1)[of b] by simp
  then show ?case using Cons.IH[of "\<not> par"] by auto
qed simp

lemma csum_replicate_0 [simp]: "csum par (replicate n 0) = 0"
  by (induction n arbitrary: par) auto

lemma ucast_contribution:
  "(ucast (push_bit 8 (ucast (b :: u8) :: u16)) :: u32) = of_nat (256 * unat b)"
  "(ucast (ucast (b :: u8) :: u16) :: u32) = of_nat (unat b)"
proof -
  have "unat (ucast (push_bit 8 (ucast b :: u16)) :: u32) = 256 * unat b"
    using word_bounds(1)[of b] by (simp add: unat_ucast unat_push_bit)
  then show "(ucast (push_bit 8 (ucast b :: u16)) :: u32) = of_nat (256 * unat b)"
    by (metis of_nat_unat unat_of_nat word_unat_eq_iff ucast_id)
  have "unat (ucast (ucast b :: u16) :: u32) = unat b"
    using word_bounds(1)[of b] by (simp add: unat_ucast)
  then show "(ucast (ucast b :: u16) :: u32) = of_nat (unat b)"
    by (metis of_nat_unat unat_of_nat word_unat_eq_iff ucast_id)
qed

lemma add_sum:
  "InternetChecksum_add c data =
     \<lparr>ic_sum = ic_sum c + of_nat (csum (ic_parity c) data),
      ic_parity = (ic_parity c = even (length data))\<rparr>"
proof (induction c data rule: InternetChecksum_add.induct)
  case (2 c b data)
  have "((\<not> ic_parity c) = even (length data)) = (ic_parity c = odd (length data))" by auto
  with 2 show ?case by (simp add: ucast_contribution)
qed simp

lemma add_append: "InternetChecksum_add (InternetChecksum_add c a) b = InternetChecksum_add c (a @ b)"
proof -
  have "((p = even (length a)) = even (length b)) = (p = even (length a + length b))" for p by auto
  then show ?thesis by (simp add: add_sum csum_append)
qed

lemma csum_be16: "csum False (be16 v) = unat v"
  by (simp add: be16_def unat_ucast unat_drop_bit) (use word_bounds(2)[of v] in simp)

text \<open>
  Putting the computed checksum where the message had zero (at an even offset) makes the sum a
  positive multiple of 65535, so the receiver's \<open>value\<close> is zero.
\<close>

lemma checksum_insert:
  assumes "even (length a)" and "unat init + csum False (a @ [0, 0] @ b) + 65535 < 2 ^ 32"
  defines "ck \<equiv> InternetChecksum_value (InternetChecksum_add (InternetChecksum_new init) (a @ [0, 0] @ b))"
  shows "InternetChecksum_value (InternetChecksum_add (InternetChecksum_new init) (a @ be16 ck @ b)) = 0"
proof -
  define n where "n = unat init + csum False (a @ [0, 0] @ b)"
  have n: "n + 65535 < 4294967296" using assms(2) unfolding n_def by simp
  let ?s0 = "init + of_nat (csum False (a @ [0, 0] @ b)) :: u32"
  let ?s1 = "init + of_nat (csum False (a @ be16 ck @ b)) :: u32"
  have s0: "unat ?s0 = n"
    using n unfolding n_def by (simp add: unat_word_ariths unat_of_nat mod_add_right_eq)
  have c1: "csum False (a @ be16 ck @ b) = csum False (a @ [0, 0] @ b) + unat ck"
    using assms(1) csum_be16[of ck] by (simp add: csum_append)
  have ck: "unat ck = 65535 - (if n = 0 then 0 else (n - 1) mod 65535 + 1)"
    unfolding ck_def value_fold fold_residue
    using s0 by (simp add: add_sum InternetChecksum_new_def unat_eq_0[symmetric] del: csum.simps)
  have s1: "unat ?s1 = n + unat ck"
    using n ck unfolding n_def c1 by (simp add: unat_word_ariths unat_of_nat mod_add_right_eq)
  have "n + unat ck = (if n = 0 then 65535 else 65535 * ((n - 1) div 65535 + 1))"
  proof (cases "n = 0")
    case False
    define q r where "q = (n - 1) div 65535" and "r = (n - 1) mod 65535"
    have "r < 65535" by (simp add: r_def)
    moreover have "n - 1 = 65535 * q + r" unfolding q_def r_def by simp
    then have "n = 65535 * q + r + 1" using False by simp
    ultimately show ?thesis using False unfolding ck q_def[symmetric] r_def[symmetric] by simp
  qed (simp add: ck)
  then have "65535 dvd unat ?s1" "unat ?s1 \<noteq> 0" unfolding s1 by (auto split: if_splits)
  then have "?s1 \<noteq> 0 \<and> 65535 dvd unat ?s1" by (metis unat_0)
  then show ?thesis by (simp add: value_zero_iff add_sum InternetChecksum_new_def del: csum.simps)
qed

section \<open>Properties\<close>

text \<open>The checksum loop ends on every sum, and \<open>value\<close> is zero exactly for the sums that are positive
  multiples of 65535.\<close>

theorem checksum_value_characterised:
  "unat (InternetChecksum_value c) =
     65535 - (if ic_sum c = 0 then 0 else (unat (ic_sum c) - 1) mod 65535 + 1) \<and>
   (InternetChecksum_value c = 0) = (ic_sum c \<noteq> 0 \<and> 65535 dvd unat (ic_sum c))"
  by (simp only: value_fold fold_residue value_zero_iff simp_thms)

text \<open>C10: a message with its computed checksum stored in the zeroed 16-bit field verifies: adding it
  again, in any split into pieces, gives \<open>value\<close> zero, as long as the 32-bit sum does not overflow.\<close>

theorem checksum_verifies:
  assumes "even (length a)" and "unat init + csum False (a @ [0, 0] @ b) + 65535 < 2 ^ 32"
    and "ck = InternetChecksum_value (InternetChecksum_add (InternetChecksum_new init) (a @ [0, 0] @ b))"
    and "concat pieces = a @ be16 ck @ b"
  shows "InternetChecksum_value (foldl InternetChecksum_add (InternetChecksum_new init) pieces) = 0"
proof -
  have "foldl InternetChecksum_add c ps = InternetChecksum_add c (concat ps)" for c ps
    by (induction ps arbitrary: c) (simp_all add: add_append)
  then show ?thesis using checksum_insert[OF assms(1,2)] assms(3,4) by simp
qed

theorem checksum_verifies_witness:
  "InternetChecksum_value (foldl InternetChecksum_add (InternetChecksum_new 6)
     [[1], [2] @ be16 (InternetChecksum_value (InternetChecksum_add (InternetChecksum_new 6) [1, 2, 0, 0, 9])), [9]]) = 0"
  using checksum_verifies[of "[1, 2]" 6 "[9]" _
      "[[1], [2] @ be16 (InternetChecksum_value (InternetChecksum_add (InternetChecksum_new 6) [1, 2, 0, 0, 9])), [9]]"]
  by simp

end
