(* ===== verification/TCP_Segment.thy ===== *)
theory TCP_Segment
  imports Wrapping Checksum
begin

text \<open>
  TCP headers and segments (\<open>tcp_helpers/tcp_header.hh\<close>, \<open>.cc\<close>, \<open>tcp_segment.hh\<close>, \<open>.cc\<close>): parsing and
  serializing, the checksum over header, payload and pseudo-header sum, and the length in sequence
  space.  The format is an instance of \<open>codec\<close>; a serialized segment parses back.
\<close>

section \<open>TCPHeader\<close>

record tcp_header =
  sport :: u16
  dport :: u16
  seqno :: WrappingInt32
  ackno :: WrappingInt32
  doff :: u8
  urg :: bool
  ack :: bool
  psh :: bool
  rst :: bool
  syn :: bool
  fin :: bool
  win :: u16
  cksum :: u16
  uptr :: u16

definition TCPHeader_LENGTH :: u64 where
  "TCPHeader_LENGTH = 20"

definition TCPHeader_default :: tcp_header where
  "TCPHeader_default =
     \<lparr>sport = 0, dport = 0, seqno = 0, ackno = 0, doff = 5, urg = False, ack = False, psh = False,
      rst = False, syn = False, fin = False, win = 0, cksum = 0, uptr = 0\<rparr>"

text \<open>The result pairs the header as filled in so far with the \<open>ParseResult\<close>, and the parser.\<close>

definition TCPHeader_parse :: "net_parser \<Rightarrow> ((tcp_header \<times> parse_result) \<times> net_parser) result" where
  "TCPHeader_parse p =
     rbind (NetParser_u16 p) (\<lambda>(sport, p).
     rbind (NetParser_u16 p) (\<lambda>(dport, p).
     rbind (NetParser_u32 p) (\<lambda>(seqno, p).
     rbind (NetParser_u32 p) (\<lambda>(ackno, p).
     rbind (NetParser_u8 p) (\<lambda>(d, p).
     let doff = drop_bit 4 d in
     rbind (NetParser_u8 p) (\<lambda>(fl_b, p).
     rbind (NetParser_u16 p) (\<lambda>(win, p).
     rbind (NetParser_u16 p) (\<lambda>(cksum, p).
     rbind (NetParser_u16 p) (\<lambda>(uptr, p).
     let h = \<lparr>sport = sport, dport = dport, seqno = seqno, ackno = ackno, doff = doff,
              urg = (and fl_b 0x20 \<noteq> 0), ack = (and fl_b 0x10 \<noteq> 0), psh = (and fl_b 0x08 \<noteq> 0),
              rst = (and fl_b 0x04 \<noteq> 0), syn = (and fl_b 0x02 \<noteq> 0), fin = (and fl_b 0x01 \<noteq> 0),
              win = win, cksum = cksum, uptr = uptr\<rparr>
     in if doff < 5 then Inr ((h, HeaderTooShort), p)
        else rbind (NetParser_remove_prefix p (sub64 (unat doff * 4) TCPHeader_LENGTH)) (\<lambda>p.
               if NetParser_error p then Inr ((h, np_error p), p) else Inr ((h, NoError), p)))))))))))"

definition TCPHeader_flags :: "tcp_header \<Rightarrow> u8" where
  "TCPHeader_flags h =
     or (or (or (if urg h then 0x20 else 0) (if ack h then 0x10 else 0))
            (or (if psh h then 0x08 else 0) (if rst h then 0x04 else 0)))
        (or (if syn h then 0x02 else 0) (if fin h then 0x01 else 0))"

text \<open>\<open>string::resize\<close>: cut, or extend with zero bytes.\<close>

definition string_resize :: "byte list \<Rightarrow> u64 \<Rightarrow> byte list" where
  "string_resize s n = take n s @ replicate (n - length s) 0"

definition TCPHeader_serialize :: "tcp_header \<Rightarrow> byte list result" where
  "TCPHeader_serialize h =
     (if doff h < 5 then Inl (Runtime_error ''TCP header too short'')
      else let ret = NetUnparser_u16 [] (sport h);
               ret = NetUnparser_u16 ret (dport h);
               ret = NetUnparser_u32 ret (seqno h);
               ret = NetUnparser_u32 ret (ackno h);
               ret = NetUnparser_u8 ret (push_bit 4 (doff h));
               ret = NetUnparser_u8 ret (TCPHeader_flags h);
               ret = NetUnparser_u16 ret (win h);
               ret = NetUnparser_u16 ret (cksum h);
               ret = NetUnparser_u16 ret (uptr h)
           in Inr (string_resize ret (4 * unat (doff h))))"

definition TCPHeader_eq :: "tcp_header \<Rightarrow> tcp_header \<Rightarrow> bool" where
  "TCPHeader_eq a b \<longleftrightarrow>
     seqno a = seqno b \<and> ackno a = ackno b \<and> doff a = doff b \<and> urg a = urg b \<and> ack a = ack b \<and>
     psh a = psh b \<and> rst a = rst b \<and> syn a = syn b \<and> fin a = fin b \<and> win a = win b \<and> uptr a = uptr b"

section \<open>TCPSegment\<close>

record tcp_segment =
  ts_header :: tcp_header
  ts_payload :: buffer

definition TCPSegment_default :: tcp_segment where
  "TCPSegment_default = \<lparr>ts_header = TCPHeader_default, ts_payload = Buffer_default\<rparr>"

definition TCPSegment_parse :: "tcp_segment \<Rightarrow> buffer \<Rightarrow> u32 \<Rightarrow> (tcp_segment \<times> parse_result) result" where
  "TCPSegment_parse seg buffer datagram_layer_checksum =
     (let check = InternetChecksum_add (InternetChecksum_new datagram_layer_checksum) (Buffer_str buffer)
      in if InternetChecksum_value check \<noteq> 0 then Inr (seg, BadChecksum)
         else rbind (TCPHeader_parse (NetParser_new buffer)) (\<lambda>((h, _), p).
                Inr (\<lparr>ts_header = h, ts_payload = np_buffer p\<rparr>, np_error p)))"

definition TCPSegment_length_in_sequence_space :: "tcp_segment \<Rightarrow> u64" where
  "TCPSegment_length_in_sequence_space seg =
     add64 (add64 (length (Buffer_str (ts_payload seg))) (if syn (ts_header seg) then 1 else 0))
           (if fin (ts_header seg) then 1 else 0)"

definition TCPSegment_serialize :: "tcp_segment \<Rightarrow> u32 \<Rightarrow> buffer_list result" where
  "TCPSegment_serialize seg datagram_layer_checksum =
     (let header_out = (ts_header seg)\<lparr>cksum := 0\<rparr>;
          check = InternetChecksum_new datagram_layer_checksum
      in rbind (TCPHeader_serialize header_out) (\<lambda>hs.
         let check = InternetChecksum_add check hs;
             check = InternetChecksum_add check (Buffer_str (ts_payload seg));
             header_out = header_out\<lparr>cksum := InternetChecksum_value check\<rparr>
         in rbind (TCPHeader_serialize header_out) (\<lambda>hs.
            let ret = BufferList_append [] (BufferList_of_string hs);
                ret = BufferList_append ret (BufferList_of_Buffer (ts_payload seg))
            in Inr ret)))"

section \<open>The header format\<close>

text \<open>A header fits its 4-bit length field and is long enough for the fixed fields.\<close>

definition tcp_header_valid :: "tcp_header \<Rightarrow> bool" where
  "tcp_header_valid h \<longleftrightarrow> 5 \<le> doff h \<and> doff h \<le> 15"

definition tcp_header_bytes :: "tcp_header \<Rightarrow> byte list" where
  "tcp_header_bytes h =
     be16 (sport h) @ be16 (dport h) @ be32 (seqno h) @ be32 (ackno h) @ push_bit 4 (doff h) #
     TCPHeader_flags h # be16 (win h) @ be16 (cksum h) @ be16 (uptr h) @
     replicate (4 * unat (doff h) - 20) 0"

lemma doff_unat: "tcp_header_valid h \<Longrightarrow> \<exists>k\<le>10. unat (doff h) = 5 + k"
  by (rule exI[of _ "unat (doff h) - 5"]) (auto simp: tcp_header_valid_def word_le_nat_alt)

lemma serialize_tcp_header:
  "tcp_header_valid h \<Longrightarrow> TCPHeader_serialize h = Inr (tcp_header_bytes h)"
  using doff_unat[of h]
  by (auto simp: TCPHeader_serialize_def tcp_header_valid_def tcp_header_bytes_def string_resize_def)

lemma length_tcp_header: "tcp_header_valid h \<Longrightarrow> length (tcp_header_bytes h) = 4 * unat (doff h)"
  using doff_unat[of h] by (auto simp: tcp_header_bytes_def)

lemma flag_bits:
  "(and (TCPHeader_flags h) 0x20 \<noteq> 0) = urg h" "(and (TCPHeader_flags h) 0x10 \<noteq> 0) = ack h"
  "(and (TCPHeader_flags h) 0x08 \<noteq> 0) = psh h" "(and (TCPHeader_flags h) 0x04 \<noteq> 0) = rst h"
  "(and (TCPHeader_flags h) 0x02 \<noteq> 0) = syn h" "(and (TCPHeader_flags h) 0x01 \<noteq> 0) = fin h"
  by (cases "urg h"; cases "ack h"; cases "psh h"; cases "rst h"; cases "syn h"; cases "fin h";
      simp add: TCPHeader_flags_def)+

lemma doff_bits: "(d :: u8) \<le> 15 \<Longrightarrow> drop_bit 4 (push_bit 4 d) = d"
proof -
  assume "d \<le> 15"
  then have "unat d \<le> 15" by (simp add: word_le_nat_alt)
  then have "unat (drop_bit 4 (push_bit 4 d)) = unat d" by (simp add: unat_drop_bit unat_push_bit)
  then show ?thesis by (simp add: word_unat_eq_iff)
qed

lemma parse_tcp_header:
  assumes valid: "tcp_header_valid h" and ok: "np_ok p" and bytes: "np_bytes p = tcp_header_bytes h @ rest"
  shows "\<exists>r. TCPHeader_parse p = Inr r \<and> (fst r = (h, NoError) \<and> np_ok (snd r) \<and> np_bytes (snd r) = rest)"
proof -
  obtain k where k: "unat (doff h) = 5 + k" "k \<le> 10" using doff_unat[OF valid] by blast
  have d: "drop_bit 4 (push_bit 4 (doff h)) = doff h" "\<not> doff h < 5"
    using valid by (auto simp: tcp_header_valid_def doff_bits)
  have skip: "sub64 (unat (doff h) * 4) TCPHeader_LENGTH = length (replicate (4 * unat (doff h) - 20) (0::byte))"
    using k by (simp add: TCPHeader_LENGTH_def sub64_exact)
  note b = bytes[unfolded tcp_header_bytes_def append_assoc append_Cons]
  show ?thesis
    unfolding TCPHeader_parse_def
    apply (rule np_step_u16[OF ok b], simp only: prod.case Let_def)
    apply (rule np_steps, assumption, assumption, simp only: prod.case Let_def)+
    apply (simp only: d flag_bits if_False)
    apply (rule np_step_remove, assumption, assumption, rule skip)
    apply simp
    done
qed

interpretation tcp_header_codec:
  codec tcp_header_bytes "\<lambda>p h q. TCPHeader_parse p = Inr ((h, NoError), q)" tcp_header_valid
proof unfold_locales
  fix h p rest assume "tcp_header_valid h" "np_ok p" "np_bytes p = tcp_header_bytes h @ rest"
  from parse_tcp_header[OF this]
  show "\<exists>q. TCPHeader_parse p = Inr ((h, NoError), q) \<and> np_ok q \<and> np_bytes q = rest" by force
qed simp

section \<open>Segments\<close>

text \<open>The bytes before and after the checksum field.\<close>

definition tcp_before :: "tcp_header \<Rightarrow> byte list" where
  "tcp_before h = be16 (sport h) @ be16 (dport h) @ be32 (seqno h) @ be32 (ackno h) @
     [push_bit 4 (doff h), TCPHeader_flags h] @ be16 (win h)"

definition tcp_after :: "tcp_header \<Rightarrow> byte list" where
  "tcp_after h = be16 (uptr h) @ replicate (4 * unat (doff h) - 20) 0"

lemma tcp_header_split:
  "tcp_header_bytes (h\<lparr>cksum := c\<rparr>) = tcp_before h @ be16 c @ tcp_after h"
  by (simp add: tcp_header_bytes_def tcp_before_def tcp_after_def TCPHeader_flags_def)

lemma be16_0: "be16 0 = [0, 0]"
  by (simp add: be16_def)

lemma tcp_header_valid_cksum [simp]: "tcp_header_valid (h\<lparr>cksum := c\<rparr>) = tcp_header_valid h"
  by (simp add: tcp_header_valid_def)

definition tcp_checksum :: "tcp_segment \<Rightarrow> u32 \<Rightarrow> u16" where
  "tcp_checksum seg d = InternetChecksum_value (InternetChecksum_add (InternetChecksum_new d)
     (tcp_before (ts_header seg) @ [0, 0] @ tcp_after (ts_header seg) @ Buffer_str (ts_payload seg)))"

lemma serialize_tcp_segment:
  assumes "tcp_header_valid (ts_header seg)"
  shows "TCPSegment_serialize seg d =
    Inr [Buffer_of (tcp_header_bytes ((ts_header seg)\<lparr>cksum := tcp_checksum seg d\<rparr>)), ts_payload seg]"
  using assms
  by (simp add: TCPSegment_serialize_def serialize_tcp_header add_append tcp_header_split be16_0
      tcp_checksum_def BufferList_of_string_def BufferList_of_Buffer_def)

lemma tcp_checksum_verifies:
  assumes valid: "tcp_header_valid (ts_header seg)"
    and len: "4 * unat (doff (ts_header seg)) + length (Buffer_str (ts_payload seg)) \<le> 65535" and d: "unat d \<le> 2 ^ 20"
  shows "InternetChecksum_value (InternetChecksum_add (InternetChecksum_new d)
    (tcp_header_bytes ((ts_header seg)\<lparr>cksum := tcp_checksum seg d\<rparr>) @ Buffer_str (ts_payload seg))) = 0"
proof -
  let ?h = "ts_header seg"
  let ?b = "tcp_after ?h @ Buffer_str (ts_payload seg)"
  let ?z = "tcp_before ?h @ [0, 0] @ ?b"
  obtain k where k: "unat (doff ?h) = 5 + k" "k \<le> 10" using doff_unat[OF valid] by blast
  have even: "even (length (tcp_before ?h))" by (simp add: tcp_before_def)
  have "length ?z \<le> 65535" using len k by (simp add: tcp_before_def tcp_after_def)
  moreover have "csum False ?z \<le> 65280 * length ?z" by (rule csum_bound)
  ultimately have "unat d + csum False ?z + 65535 < 2 ^ 32" using d by simp
  from checksum_insert[OF even this] show ?thesis
    by (simp add: tcp_checksum_def tcp_header_split)
qed

lemma tcp_segment_parses:
  assumes valid: "tcp_header_valid (ts_header seg)"
    and len: "4 * unat (doff (ts_header seg)) + length (Buffer_str (ts_payload seg)) \<le> 65535" and d: "unat d \<le> 2 ^ 20"
    and wf: "buffer_wf b"
    and bytes: "Buffer_str b = tcp_header_bytes ((ts_header seg)\<lparr>cksum := tcp_checksum seg d\<rparr>) @
      Buffer_str (ts_payload seg)"
  shows "\<exists>pl. TCPSegment_parse seg0 b d =
      Inr (\<lparr>ts_header = (ts_header seg)\<lparr>cksum := tcp_checksum seg d\<rparr>, ts_payload = pl\<rparr>, NoError) \<and>
    Buffer_str pl = Buffer_str (ts_payload seg) \<and> buffer_wf pl"
proof -
  let ?h = "(ts_header seg)\<lparr>cksum := tcp_checksum seg d\<rparr>"
  have "tcp_header_valid ?h" using valid by simp
  from tcp_header_codec.read_back[OF this, of "NetParser_new b"] wf bytes
  obtain q where q: "TCPHeader_parse (NetParser_new b) = Inr ((?h, NoError), q)" "np_ok q"
      "np_bytes q = Buffer_str (ts_payload seg)" by auto
  then show ?thesis
    using tcp_checksum_verifies[OF valid len d] bytes
    by (simp add: TCPSegment_parse_def np_bytes_def np_ok_def)
qed

lemma TCPHeader_parse_total: "buffer_wf (np_buffer p) \<Longrightarrow> \<exists>r. TCPHeader_parse p = Inr r"
  unfolding TCPHeader_parse_def
  by ((rule parse_totals, assumption, unfold prod.case Let_def)+) (auto intro: total_remove simp del: split_paired_Ex)

lemma TCPSegment_parse_total: "buffer_wf b \<Longrightarrow> \<exists>seg' res. TCPSegment_parse seg b c = Inr (seg', res)"
  using TCPHeader_parse_total[of "NetParser_new b"] by (auto simp: TCPSegment_parse_def NetParser_new_def Let_def)

section \<open>Properties\<close>

text \<open>C14: a segment serialized with a pseudo-header sum parses back, checksum included: the parser
  reports no error, every header field but the checksum is the one sent, and the payload is the
  same bytes.\<close>

theorem tcp_segment_roundtrip:
  assumes "tcp_header_valid (ts_header seg)" and "4 * unat (doff (ts_header seg)) + length (Buffer_str (ts_payload seg)) \<le> 65535"
    and "unat d \<le> 2 ^ 20"
  shows "\<exists>bl seg'. TCPSegment_serialize seg d = Inr bl \<and>
    TCPSegment_parse seg0 (Buffer_of (BufferList_concatenate bl)) d = Inr (seg', NoError) \<and>
    ts_header seg' = (ts_header seg)\<lparr>cksum := cksum (ts_header seg')\<rparr> \<and>
    Buffer_str (ts_payload seg') = Buffer_str (ts_payload seg)"
proof -
  let ?bs = "tcp_header_bytes ((ts_header seg)\<lparr>cksum := tcp_checksum seg d\<rparr>) @ Buffer_str (ts_payload seg)"
  obtain k where k: "unat (doff (ts_header seg)) = 5 + k" "k \<le> 10" using doff_unat[OF assms(1)] by blast
  then have "length ?bs < two64" using assms(1,2) by (simp add: length_tcp_header)
  then have "buffer_wf (Buffer_of ?bs)" by simp
  from tcp_segment_parses[OF assms this] serialize_tcp_segment[OF assms(1), of d]
  show ?thesis by (fastforce simp: bytes_of)
qed

theorem tcp_segment_roundtrip_witness:
  "\<exists>bl seg'. TCPSegment_serialize \<lparr>ts_header = TCPHeader_default\<lparr>syn := True\<rparr>, ts_payload = Buffer_of [1, 2, 3]\<rparr> 7 = Inr bl \<and>
    TCPSegment_parse TCPSegment_default (Buffer_of (BufferList_concatenate bl)) 7 = Inr (seg', NoError) \<and>
    ts_header seg' = TCPHeader_default\<lparr>syn := True, cksum := cksum (ts_header seg')\<rparr> \<and>
    Buffer_str (ts_payload seg') = [1, 2, 3]"
proof -
  let ?seg = "\<lparr>ts_header = TCPHeader_default\<lparr>syn := True\<rparr>, ts_payload = Buffer_of [1, 2, 3]\<rparr>"
  have "tcp_header_valid (ts_header ?seg)" by (simp add: TCPHeader_default_def tcp_header_valid_def)
  from tcp_segment_roundtrip[OF this, of 7 TCPSegment_default] show ?thesis by (simp add: TCPHeader_default_def)
qed

text \<open>
  A header whose length field is below five makes \<open>TCPHeader::parse\<close> return \<open>HeaderTooShort\<close>, but
  \<open>TCPSegment::parse\<close> ignores that result and reports success.
\<close>

lemma short_doff_accepted:
  "\<exists>seg. TCPSegment_parse TCPSegment_default
     (Buffer_of [0, 0, 0, 0, 0, 0, 0, 0, 0, 0, 0, 0, 0, 0, 255, 255, 0, 0, 0, 0]) 0 = Inr (seg, NoError) \<and>
     doff (ts_header seg) = 0"
proof -
  let ?b = "Buffer_of [0, 0, 0, 0, 0, 0, 0, 0, 0, 0, 0, 0, 0, 0, 255, 255, 0, 0, 0, 0]"
  have ok: "np_ok (NetParser_new ?b)" by simp
  have b: "np_bytes (NetParser_new ?b) =
      be16 0 @ be16 0 @ be32 0 @ be32 0 @ 0 # 0 # be16 65535 @ be16 0 @ be16 0 @ []"
    by (simp add: be16_def be32_def)
  have "\<exists>r. TCPHeader_parse (NetParser_new ?b) = Inr r \<and> (doff (fst (fst r)) = 0 \<and> np_error (snd r) = NoError)"
    unfolding TCPHeader_parse_def
    apply (rule np_step_u16[OF ok b], simp only: prod.case Let_def)
    apply (rule np_steps, assumption, assumption, simp only: prod.case Let_def)+
    apply simp
    done
  moreover have "InternetChecksum_value (InternetChecksum_add (InternetChecksum_new 0) (Buffer_str ?b)) = 0"
    by (simp add: value_zero_iff add_sum InternetChecksum_new_def)
  ultimately show ?thesis by (auto simp: TCPSegment_parse_def)
qed

end
