(* ===== verification/TCP_Receiver.thy ===== *)
theory TCP_Receiver
  imports Reassembler_Correct TCP_Segment
begin

text \<open>
  The receiving half of TCP (\<open>libsponge/tcp_receiver.hh\<close>, \<open>.cc\<close>): the acceptance test, the reassembler
  call, and the acknowledgment number.  Relative to the stream \<open>S\<close> and the initial sequence number of
  the peer, every segment of \<open>S\<close> that arrives in a timely way keeps the invariant \<open>rcv_inv\<close>; the
  receiver is an instance of \<open>step_system\<close>, which lifts this to every run.
\<close>

section \<open>TCPReceiver\<close>

record tcp_receiver =
  rcv_reassembler :: reassembler
  rcv_syn_received :: bool
  rcv_fin_received :: bool
  rcv_isn :: WrappingInt32
  rcv_ackno :: WrappingInt32
  rcv_checkpoint :: u64

definition TCPReceiver_new :: "u64 \<Rightarrow> tcp_receiver" where
  "TCPReceiver_new capacity =
     \<lparr>rcv_reassembler = StreamReassembler_new capacity, rcv_syn_received = False, rcv_fin_received = False,
      rcv_isn = 0, rcv_ackno = 0, rcv_checkpoint = 0\<rparr>"

definition TCPReceiver_stream_out :: "tcp_receiver \<Rightarrow> byte_stream" where
  "TCPReceiver_stream_out r = StreamReassembler_stream_out (rcv_reassembler r)"

definition TCPReceiver_unassembled_bytes :: "tcp_receiver \<Rightarrow> u64" where
  "TCPReceiver_unassembled_bytes r = StreamReassembler_unassembled_bytes (rcv_reassembler r)"

definition TCPReceiver_window_size :: "tcp_receiver \<Rightarrow> u64" where
  "TCPReceiver_window_size r = ByteStream_remaining_capacity (TCPReceiver_stream_out r)"

definition TCPReceiver_ackno :: "tcp_receiver \<Rightarrow> WrappingInt32 option" where
  "TCPReceiver_ackno r = (if \<not> rcv_syn_received r then None else Some (rcv_ackno r))"

text \<open>
  \<open>segment_received\<close>: the acceptance test of lines 26 to 38, then the whole handler.
\<close>

definition TCPReceiver_inbound :: "tcp_receiver \<Rightarrow> tcp_segment \<Rightarrow> bool" where
  "TCPReceiver_inbound r seg =
     (let win_start = unwrap (rcv_ackno r) (rcv_isn r) (rcv_checkpoint r);
          win_size = (if TCPReceiver_window_size r \<noteq> 0 then TCPReceiver_window_size r else 1);
          win_end = sub64 (add64 win_start win_size) 1;
          abs_seqno = unwrap (seqno (ts_header seg)) (rcv_isn r) (rcv_checkpoint r);
          abs_seqno_size = TCPSegment_length_in_sequence_space seg;
          abs_seqno_size = (if abs_seqno_size \<noteq> 0 then abs_seqno_size else 1);
          abs_seqno_end = sub64 (add64 abs_seqno abs_seqno_size) 1
      in (win_start \<le> abs_seqno \<and> abs_seqno \<le> win_end) \<or>
         (win_start \<le> abs_seqno_end \<and> abs_seqno_end \<le> win_end))"

definition TCPReceiver_segment_received :: "tcp_receiver \<Rightarrow> tcp_segment \<Rightarrow> (bool \<times> tcp_receiver) result" where
  "TCPReceiver_segment_received r0 seg =
     (let hd = ts_header seg;
          old_syn_received = rcv_syn_received r0;
          old_fin_received = rcv_fin_received r0
      in if \<not> syn hd \<and> \<not> rcv_syn_received r0 then Inr (False, r0)
         else if StreamReassembler_eof (rcv_reassembler r0) \<and> fin hd then Inr (False, r0)
         else if syn hd \<and> rcv_syn_received r0 then Inr (False, r0)
         else
           let r1 = (if syn hd then r0\<lparr>rcv_isn := seqno hd, rcv_syn_received := True\<rparr> else r0);
               abs_seqno = unwrap (seqno hd) (rcv_isn r1) (rcv_checkpoint r1);
               inbound = TCPReceiver_inbound r1 seg
           in rbind
                (if inbound then
                   rbind (StreamReassembler_push_substring (rcv_reassembler r1) (Buffer_copy (ts_payload seg))
                            (sub64 abs_seqno 1) (fin hd))
                     (\<lambda>ra. Inr (r1\<lparr>rcv_reassembler := ra,
                                   rcv_checkpoint := StreamReassembler_first_unassembled_byte ra\<rparr>))
                 else Inr r1)
                (\<lambda>r2.
                   let r3 = (if fin hd \<and> \<not> rcv_fin_received r2 then
                               (let r = r2\<lparr>rcv_fin_received := True\<rparr>
                                in if syn hd \<and> TCPSegment_length_in_sequence_space seg = 2
                                   then r\<lparr>rcv_reassembler := (rcv_reassembler r)\<lparr>ra_output :=
                                            ByteStream_end_input (ra_output (rcv_reassembler r))\<rparr>\<rparr>
                                   else r)
                             else r2);
                       r4 = r3\<lparr>rcv_ackno :=
                              wrap (add64 (add64 (StreamReassembler_first_unassembled_byte (rcv_reassembler r3)) 1)
                                     (if rcv_fin_received r3 \<and>
                                         StreamReassembler_unassembled_bytes (rcv_reassembler r3) = 0
                                      then 1 else 0))
                                (rcv_isn r3)\<rparr>
                   in Inr (inbound \<or> fin hd \<and> \<not> old_fin_received \<or> syn hd \<and> \<not> old_syn_received, r4)))"

section \<open>Invariant\<close>

text \<open>
  The peer sends the stream \<open>S\<close> with initial sequence number \<open>isn\<close>.  \<open>rcv_end\<close> says that the FIN is
  acknowledged too.
\<close>

definition rcv_end :: "byte list \<Rightarrow> reassembler \<Rightarrow> nat" where
  "rcv_end S ra = (if ra_eof ra \<and> ra_first_unassemble_byte ra = length S then 1 else 0)"

definition rcv_fresh :: "tcp_receiver \<Rightarrow> bool" where
  "rcv_fresh r \<longleftrightarrow>
     rcv_ackno r = 0 \<and> ra_first_unassemble_byte (rcv_reassembler r) = 0 \<and>
     ra_unassembled (rcv_reassembler r) = [] \<and> \<not> ra_eof (rcv_reassembler r)"

definition rcv_inv :: "byte list \<Rightarrow> WrappingInt32 \<Rightarrow> tcp_receiver \<Rightarrow> bool" where
  "rcv_inv S isn r \<longleftrightarrow>
     ra_inv S (rcv_reassembler r) \<and> ra_eof_inv S (rcv_reassembler r) \<and>
     rcv_checkpoint r = ra_first_unassemble_byte (rcv_reassembler r) \<and>
     rcv_fin_received r = ra_eof (rcv_reassembler r) \<and>
     (if rcv_syn_received r
      then rcv_isn r = isn \<and>
           rcv_ackno r = wrap (ra_first_unassemble_byte (rcv_reassembler r) + 1 + rcv_end S (rcv_reassembler r)) isn
      else rcv_fresh r)"

text \<open>A segment of the stream: at position \<open>i\<close>, its payload is the stream's, its FIN is at the end.\<close>

definition seg_at :: "byte list \<Rightarrow> WrappingInt32 \<Rightarrow> nat \<Rightarrow> tcp_segment \<Rightarrow> bool" where
  "seg_at S isn i seg \<longleftrightarrow>
     \<not> syn (ts_header seg) \<and> seqno (ts_header seg) = wrap (i + 1) isn \<and>
     piece_of S i (Buffer_str (ts_payload seg)) \<and>
     (fin (ts_header seg) \<longrightarrow> i + length (Buffer_str (ts_payload seg)) = length S)"

text \<open>
  What the acceptance test needs: the position is within \<open>2 ^ 31\<close> of the assembled prefix, and a FIN
  comes with its bytes inside the window and, if it has none, in order.
\<close>

definition seg_timely :: "byte list \<Rightarrow> tcp_receiver \<Rightarrow> nat \<Rightarrow> tcp_segment \<Rightarrow> bool" where
  "seg_timely S r i seg \<longleftrightarrow>
     (let fu = ra_first_unassemble_byte (rcv_reassembler r); w = TCPReceiver_window_size r
      in i + 1 < fu + 2 ^ 31 \<and> fu < i + 1 + 2 ^ 31 \<and>
         (fin (ts_header seg) \<and> \<not> rcv_fin_received r \<longrightarrow>
            eof_honest S (rcv_reassembler r) (Buffer_str (ts_payload seg)) i \<and>
            (fu \<le> i \<or> length S < fu + w)))"

section \<open>Lemmas\<close>

lemma rcv_window: "ra_inv S (rcv_reassembler r) \<Longrightarrow>
  TCPReceiver_window_size r = ra_limit (rcv_reassembler r) - ra_first_unassemble_byte (rcv_reassembler r)"
proof -
  assume inv: "ra_inv S (rcv_reassembler r)"
  note b = ra_inv_basic[OF inv]
  have "TCPReceiver_window_size r = ra_capacity (rcv_reassembler r) - bs_size (ra_output (rcv_reassembler r))"
    using bs_remaining[OF b(1)] b(2)
    by (simp add: TCPReceiver_window_size_def TCPReceiver_stream_out_def StreamReassembler_stream_out_def)
  then show ?thesis using b(6) ra_inv_derived(1)[OF inv] by (simp add: ra_limit_def)
qed

lemma rcv_limit: "ra_inv S (rcv_reassembler r) \<Longrightarrow>
  ra_first_unassemble_byte (rcv_reassembler r) + TCPReceiver_window_size r = ra_limit (rcv_reassembler r)"
  using rcv_window ra_inv_derived(2) by fastforce

lemma rcv_finished:
  assumes "ra_inv S ra" and "ra_eof_inv S ra"
  shows "(if ra_eof ra \<and> StreamReassembler_unassembled_bytes ra = 0 then 1 else 0) = rcv_end S ra"
proof -
  have "StreamReassembler_unassembled_bytes ra = 0 \<longleftrightarrow> ra_unassembled ra = []"
    using ra_inv_basic(8,9)[OF assms(1)] us_total_0 by (simp add: StreamReassembler_unassembled_bytes_def)
  moreover have "ra_first_unassemble_byte ra = length S" if "ra_eof ra" "ra_unassembled ra = []"
    using no_entries_assembled[OF assms(1) that(2)] assms(2) that(1) by (simp add: ra_eof_inv_def)
  moreover have "ra_unassembled ra = []" if "ra_first_unassemble_byte ra = length S"
    using assembled_no_entries[OF assms(1)] that by simp
  ultimately show ?thesis by (auto simp: rcv_end_def)
qed

lemma rcv_end_le: "rcv_end S ra \<le> 1"
  by (simp add: rcv_end_def)

lemma seg_length:
  assumes "piece_of S i (Buffer_str (ts_payload seg))" and "length S < 2 ^ 63"
  shows "TCPSegment_length_in_sequence_space seg =
    length (Buffer_str (ts_payload seg)) + (if syn (ts_header seg) then 1 else 0) + (if fin (ts_header seg) then 1 else 0)"
  using assms by (simp add: TCPSegment_length_in_sequence_space_def piece_of_def add64_exact)

text \<open>The acceptance test in terms of positions.\<close>

lemma inbound_iff:
  fixes r :: tcp_receiver
  defines "fu \<equiv> ra_first_unassemble_byte (rcv_reassembler r)"
  assumes inv: "rcv_inv S isn r" and sr: "rcv_syn_received r" and at: "seg_at S isn i seg"
    and near: "i + 1 < fu + 2 ^ 31" "fu < i + 1 + 2 ^ 31"
  defines "start \<equiv> fu + 1 + rcv_end S (rcv_reassembler r)"
  defines "w \<equiv> max 1 (TCPReceiver_window_size r)"
  defines "l \<equiv> max 1 (TCPSegment_length_in_sequence_space seg)"
  shows "TCPReceiver_inbound r seg \<longleftrightarrow>
    (start \<le> i + 1 \<and> i + 1 < start + w) \<or> (start \<le> i + l \<and> i + l < start + w)"
proof -
  have ra: "ra_inv S (rcv_reassembler r)" and cp: "rcv_checkpoint r = fu" and isn: "rcv_isn r = isn"
    and ack: "rcv_ackno r = wrap start isn"
    using inv sr by (simp_all add: rcv_inv_def fu_def start_def)
  have S: "length S < 9223372036854775808" "fu \<le> length S" "fu < 2 ^ 63"
    using ra_inv_basic(4,5)[OF ra] by (simp_all add: fu_def)
  have piece: "i + length (Buffer_str (ts_payload seg)) \<le> length S" and sq: "seqno (ts_header seg) = wrap (i + 1) isn"
    using at by (simp_all add: seg_at_def piece_of_def)
  have a: "unwrap (wrap start isn) isn fu = start"
    using rcv_end_le[of S "rcv_reassembler r"] S(3) by (intro unwrap_wrap) (simp_all add: start_def)
  have b: "unwrap (wrap (i + 1) isn) isn fu = i + 1"
    using near S(3) by (intro unwrap_wrap)
  have "TCPReceiver_window_size r \<le> ra_capacity (rcv_reassembler r)"
    using rcv_limit[OF ra] ra_inv_basic(6)[OF ra] by (simp add: ra_limit_def fu_def)
  then have w: "w \<le> 4294967296" "1 \<le> w"
    using ra_inv_basic(3)[OF ra] by (simp_all add: w_def)
  have l: "l \<le> length (Buffer_str (ts_payload seg)) + 2" "1 \<le> l"
    using seg_length[of S i seg] at S(1) piece by (auto simp: l_def seg_at_def)
  have "start \<le> length S + 2" using S(2) rcv_end_le[of S "rcv_reassembler r"] by (simp add: start_def)
  then have e: "sub64 (add64 start w) 1 = start + w - 1" "sub64 (add64 (i + 1) l) 1 = i + l"
    using S w l piece by (simp_all add: add64_exact sub64_exact)
  have w': "(if TCPReceiver_window_size r \<noteq> 0 then TCPReceiver_window_size r else 1) = w"
    and l': "(if TCPSegment_length_in_sequence_space seg \<noteq> 0 then TCPSegment_length_in_sequence_space seg else 1) = l"
    by (auto simp: w_def l_def)
  have lt: "x \<le> start + w - 1 \<longleftrightarrow> x < start + w" for x using w by auto
  show ?thesis
    unfolding TCPReceiver_inbound_def Let_def w' l' cp isn ack sq a b e lt ..
qed

lemma inbound_in_window:
  assumes inv: "rcv_inv S isn r" and sr: "rcv_syn_received r" and at: "seg_at S isn i seg"
    and near: "i + 1 < ra_first_unassemble_byte (rcv_reassembler r) + 2 ^ 31"
      "ra_first_unassemble_byte (rcv_reassembler r) < i + 1 + 2 ^ 31"
    and inb: "TCPReceiver_inbound r seg"
  shows "i \<le> ra_limit (rcv_reassembler r)"
proof -
  let ?ra = "rcv_reassembler r"
  have ra: "ra_inv S ?ra" using inv by (simp add: rcv_inv_def)
  have "i \<le> length S" using at by (simp add: seg_at_def piece_of_def)
  moreover have "rcv_end S ?ra = 0 \<or> ra_first_unassemble_byte ?ra = length S" by (simp add: rcv_end_def)
  moreover have "i < ra_first_unassemble_byte ?ra + rcv_end S ?ra + max 1 (TCPReceiver_window_size r)"
    using inb unfolding inbound_iff[OF inv sr at near] by auto
  ultimately show ?thesis
    using rcv_limit[OF ra] rcv_end_le[of S ?ra] by (cases "TCPReceiver_window_size r = 0") auto
qed

text \<open>A timely FIN always passes the acceptance test.\<close>

lemma timely_fin_inbound:
  assumes inv: "rcv_inv S isn r" and sr: "rcv_syn_received r" and at: "seg_at S isn i seg"
    and ti: "seg_timely S r i seg" and fin: "fin (ts_header seg)" "\<not> rcv_fin_received r"
  shows "TCPReceiver_inbound r seg"
proof -
  let ?ra = "rcv_reassembler r" and ?d = "Buffer_str (ts_payload seg)"
  let ?fu = "ra_first_unassemble_byte ?ra" and ?w = "TCPReceiver_window_size r"
  have ra: "ra_inv S ?ra" and e: "rcv_end S ?ra = 0"
    using inv fin(2) by (simp_all add: rcv_inv_def rcv_end_def)
  have near: "i + 1 < ?fu + 2 ^ 31" "?fu < i + 1 + 2 ^ 31"
    and hon: "eof_honest S ?ra ?d i" and starts: "?fu \<le> i \<or> length S < ?fu + ?w"
    using ti fin by (simp_all add: seg_timely_def Let_def)
  have h: "i + length ?d = length S" "length S \<le> ?fu + ?w" "?d \<noteq> [] \<or> i \<le> ?fu"
    using hon first_unacceptable_eq[OF ra] rcv_limit[OF ra] by (simp_all add: eof_honest_def)
  have l: "TCPSegment_length_in_sequence_space seg = length ?d + 1"
    using seg_length[of S i seg] at ra_inv_basic(4)[OF ra] fin(1) by (simp add: seg_at_def)
  have fu: "?fu \<le> length S" by (rule ra_inv_basic(5)[OF ra])
  show ?thesis
  proof (cases "?fu \<le> i")
    case True
    have "i < ?fu + max 1 ?w" using h True by (cases "?d = []") (auto simp: neq_Nil_conv)
    then show ?thesis unfolding inbound_iff[OF inv sr at near] e using True by simp
  next
    case False
    then have "length S < ?fu + ?w" using starts by simp
    then show ?thesis unfolding inbound_iff[OF inv sr at near] e l using h fu by simp
  qed
qed

text \<open>What an accepted segment does to the reassembler, as the handler's last lines leave the rest.\<close>

definition rcv_post :: "byte list \<Rightarrow> tcp_receiver \<Rightarrow> tcp_receiver \<Rightarrow> nat set \<Rightarrow> bool" where
  "rcv_post S r r' new \<longleftrightarrow>
     rcv_syn_received r' \<and> push_post S (rcv_reassembler r) (rcv_reassembler r') new \<and>
     ra_first_unassemble_byte (rcv_reassembler r) \<le> ra_first_unassemble_byte (rcv_reassembler r')"

lemma push_post_refl: "ra_inv S r \<Longrightarrow> push_post S r r {}"
  by (simp add: push_post_def)

lemma ackno_exact:
  assumes "ra_inv S ra"
  shows "add64 (add64 (ra_first_unassemble_byte ra) 1) (rcv_end S ra) = ra_first_unassemble_byte ra + 1 + rcv_end S ra"
  using ra_inv_basic(4,5)[OF assms] rcv_end_le[of S ra] by (simp add: add64_exact)

lemma rcv_segment_ok:
  assumes inv: "rcv_inv S isn r" and sr: "rcv_syn_received r" and at: "seg_at S isn i seg"
    and ti: "seg_timely S r i seg"
  shows "\<exists>acc r'. TCPReceiver_segment_received r seg = Inr (acc, r') \<and> rcv_inv S isn r' \<and>
    rcv_post S r r' (if TCPReceiver_inbound r seg \<and> \<not> (rcv_fin_received r \<and> fin (ts_header seg))
      then {i..<i + length (Buffer_str (ts_payload seg))} \<inter> {..<ra_limit (rcv_reassembler r)} else {})"
proof -
  let ?ra = "rcv_reassembler r" and ?d = "Buffer_str (ts_payload seg)" and ?h = "ts_header seg"
  let ?fu = "ra_first_unassemble_byte ?ra"
  have ra: "ra_inv S ?ra" and ei: "ra_eof_inv S ?ra" and cp: "rcv_checkpoint r = ?fu"
    and fr: "rcv_fin_received r = ra_eof ?ra" and isn: "rcv_isn r = isn"
    and ak: "rcv_ackno r = wrap (?fu + 1 + rcv_end S ?ra) isn"
    using inv sr by (simp_all add: rcv_inv_def)
  have nosyn: "\<not> syn ?h" and sq: "seqno ?h = wrap (i + 1) isn" and piece: "piece_of S i ?d"
    using at by (simp_all add: seg_at_def)
  have near: "i + 1 < ?fu + 2 ^ 31" "?fu < i + 1 + 2 ^ 31" using ti by (simp_all add: seg_timely_def Let_def)
  have "?fu < 2 ^ 63" using ra_inv_basic(4,5)[OF ra] by simp
  then have uw: "unwrap (wrap (i + 1) isn) isn ?fu = i + 1" using near by (intro unwrap_wrap)
  have "i + 1 < two64" using piece ra_inv_basic(4)[OF ra] by (simp add: piece_of_def)
  then have ix: "sub64 (i + 1) 1 = i" by (simp add: sub64_exact)
  show ?thesis
  proof (cases "ra_eof ?ra \<and> fin ?h")
    case True
    then have "TCPReceiver_segment_received r seg = Inr (False, r)"
      using nosyn sr by (simp add: TCPReceiver_segment_received_def StreamReassembler_eof_def Let_def)
    then show ?thesis using inv True fr sr ra by (auto simp: rcv_post_def push_post_refl)
  next
    case dup: False
    show ?thesis
    proof (cases "TCPReceiver_inbound r seg")
      case inb: True
      have lim: "i \<le> ra_limit ?ra" by (rule inbound_in_window[OF inv sr at near inb])
      obtain ra' where push: "StreamReassembler_push_substring ?ra ?d i (fin ?h) = Inr ra'"
        and post: "push_post S ?ra ra' ({i..<i + length ?d} \<inter> {..<ra_limit ?ra})"
        and mono: "?fu \<le> ra_first_unassemble_byte ra'" and eof': "ra_eof ra' = (ra_eof ?ra \<or> fin ?h)"
        using push_ok[OF ra piece lim, of "fin ?h"] by blast
      have ra': "ra_inv S ra'" using post by (simp add: push_post_def)
      have "fin ?h \<longrightarrow> eof_honest S ?ra ?d i"
        using ti dup fr unfolding seg_timely_def Let_def by blast
      from push_eof_ok[OF ra ei piece _ this push] lim have ei': "ra_eof_inv S ra'"
        by (simp add: first_unacceptable_eq[OF ra])
      define r' where "r' = r\<lparr>rcv_reassembler := ra', rcv_checkpoint := ra_first_unassemble_byte ra',
        rcv_fin_received := ra_eof ra',
        rcv_ackno := wrap (ra_first_unassemble_byte ra' + 1 + rcv_end S ra') isn\<rparr>"
      have "TCPReceiver_segment_received r seg = Inr (True, r')"
        using dup nosyn sr inb push uw ix ackno_exact[OF ra'] rcv_finished[OF ra' ei'] eof' fr
        by (auto simp: TCPReceiver_segment_received_def StreamReassembler_eof_def Let_def cp isn sq r'_def
            Buffer_copy_def StreamReassembler_first_unassembled_byte_def)
      moreover have "rcv_inv S isn r'"
        using ra' ei' sr isn by (simp add: rcv_inv_def r'_def)
      ultimately show ?thesis
        using inb dup fr sr post mono by (auto simp: rcv_post_def r'_def)
    next
      case out: False
      then have nofin: "\<not> fin ?h" using timely_fin_inbound[OF inv sr at ti] dup fr by auto
      have "TCPReceiver_segment_received r seg = Inr (False, r)"
        using dup nosyn sr out nofin ackno_exact[OF ra] rcv_finished[OF ra ei] fr ak
        by (auto simp: TCPReceiver_segment_received_def StreamReassembler_eof_def Let_def isn
            StreamReassembler_first_unassembled_byte_def)
      then show ?thesis using inv out sr ra by (auto simp: rcv_post_def push_post_refl)
    qed
  qed
qed

text \<open>The SYN: a bare segment that carries the initial sequence number.\<close>

definition seg_syn :: "WrappingInt32 \<Rightarrow> tcp_segment \<Rightarrow> bool" where
  "seg_syn isn seg \<longleftrightarrow> syn (ts_header seg) \<and> \<not> fin (ts_header seg) \<and>
     seqno (ts_header seg) = isn \<and> Buffer_str (ts_payload seg) = []"

lemma push_nothing:
  "\<not> ra_eof ra \<Longrightarrow> StreamReassembler_push_substring ra [] j False = Inr ra"
  by (simp add: StreamReassembler_push_substring_def Let_def)

lemma rcv_syn_ok:
  assumes inv: "rcv_inv S isn r" and sy: "seg_syn isn seg"
  shows "\<exists>acc r'. TCPReceiver_segment_received r seg = Inr (acc, r') \<and> rcv_inv S isn r' \<and>
    rcv_syn_received r' \<and> rcv_reassembler r' = rcv_reassembler r"
proof (cases "rcv_syn_received r")
  case True
  then have "TCPReceiver_segment_received r seg = Inr (False, r)"
    using sy by (simp add: TCPReceiver_segment_received_def seg_syn_def Let_def)
  then show ?thesis using inv True by auto
next
  case False
  let ?ra = "rcv_reassembler r"
  have ra: "ra_inv S ?ra" "ra_eof_inv S ?ra" and fr: "rcv_fin_received r = ra_eof ?ra"
    and cp: "rcv_checkpoint r = ra_first_unassemble_byte ?ra" and fresh: "rcv_fresh r"
    using inv False by (simp_all add: rcv_inv_def)
  have f: "\<not> ra_eof ?ra" "ra_first_unassemble_byte ?ra = 0" "rcv_end S ?ra = 0"
    using fresh by (simp_all add: rcv_fresh_def rcv_end_def)
  define r' where "r' = r\<lparr>rcv_isn := isn, rcv_syn_received := True, rcv_ackno := wrap 1 isn\<rparr>"
  have "TCPReceiver_segment_received r seg = Inr (True, r')"
    using sy f False fr cp push_nothing[OF f(1)]
    by (auto simp: TCPReceiver_segment_received_def seg_syn_def Let_def
        StreamReassembler_eof_def Buffer_copy_def StreamReassembler_first_unassembled_byte_def
        add64_def r'_def)
  moreover have "rcv_inv S isn r'" using ra fr f cp by (simp add: rcv_inv_def r'_def)
  ultimately show ?thesis by (auto simp: r'_def)
qed

section \<open>Runs\<close>

text \<open>
  The network delivers segments, in any order and any number of times, and the application reads.
  The state pairs the bytes the application has read with the receiver.
\<close>

datatype rcv_op = Rcv_syn tcp_segment | Rcv_seg nat tcp_segment | Rcv_read u64

fun rcv_step :: "byte list \<times> tcp_receiver \<Rightarrow> rcv_op \<Rightarrow> (byte list \<times> tcp_receiver) result" where
  "rcv_step (out, r) (Rcv_syn seg) =
     rbind (TCPReceiver_segment_received r seg) (\<lambda>(acc, r'). Inr (out, r'))"
| "rcv_step (out, r) (Rcv_seg i seg) =
     rbind (TCPReceiver_segment_received r seg) (\<lambda>(acc, r'). Inr (out, r'))"
| "rcv_step (out, r) (Rcv_read n) =
     rbind (ByteStream_read (TCPReceiver_stream_out r) n) (\<lambda>(d, bs).
       Inr (out @ d, r\<lparr>rcv_reassembler := (rcv_reassembler r)\<lparr>ra_output := bs\<rparr>\<rparr>))"

fun rcv_op_ok :: "byte list \<Rightarrow> WrappingInt32 \<Rightarrow> byte list \<times> tcp_receiver \<Rightarrow> rcv_op \<Rightarrow> bool" where
  "rcv_op_ok S isn (out, r) (Rcv_syn seg) = seg_syn isn seg"
| "rcv_op_ok S isn (out, r) (Rcv_seg i seg) = (seg_at S isn i seg \<and> seg_timely S r i seg)"
| "rcv_op_ok S isn (out, r) (Rcv_read n) = (n < two64)"

definition rcv_run_inv :: "byte list \<Rightarrow> WrappingInt32 \<Rightarrow> byte list \<times> tcp_receiver \<Rightarrow> bool" where
  "rcv_run_inv S isn s \<longleftrightarrow>
     rcv_inv S isn (snd s) \<and> fst s = take (bs_num_read (ra_output (rcv_reassembler (snd s)))) S"

definition rcv_level :: "byte list \<times> tcp_receiver \<Rightarrow> nat" where
  "rcv_level s = ra_first_unassemble_byte (rcv_reassembler (snd s))"

lemma rcv_read_ok:
  assumes "rcv_run_inv S isn (out, r)" and "n < two64"
  shows "\<exists>s'. rcv_step (out, r) (Rcv_read n) = Inr s' \<and> rcv_run_inv S isn s' \<and> rcv_level (out, r) \<le> rcv_level s'"
proof -
  let ?ra = "rcv_reassembler r"
  have ra: "ra_inv S ?ra" using assms(1) by (simp add: rcv_run_inv_def rcv_inv_def)
  obtain d bs where rd: "ByteStream_read (ra_output ?ra) n = Inr (d, bs)"
    and inv: "ra_inv S (?ra\<lparr>ra_output := bs\<rparr>)"
    and d: "d = substr S (bs_num_read (ra_output ?ra)) (min n (bs_size (ra_output ?ra)))"
    and nr: "bs_num_read bs = bs_num_read (ra_output ?ra) + min n (bs_size (ra_output ?ra))"
    and fin: "bs_if_end bs = bs_if_end (ra_output ?ra)"
    using ra_read_ok[OF ra assms(2)] by blast
  have "bs_num_read (ra_output ?ra) \<le> length S"
    using ra_inv_basic(5)[OF ra] ra_inv_derived(3)[OF ra] by simp
  then have "take (bs_num_read (ra_output ?ra)) S @ d = take (bs_num_read bs) S"
    unfolding d nr by (rule take_append_substr)
  then show ?thesis
    using assms(1) rd inv fin
    by (auto simp: rcv_run_inv_def rcv_inv_def rcv_level_def TCPReceiver_stream_out_def
        StreamReassembler_stream_out_def ra_eof_inv_def ra_known_def rcv_end_def rcv_fresh_def)
qed

lemma rcv_seg_ok:
  assumes "rcv_run_inv S isn (out, r)" and "seg_at S isn i seg" and "seg_timely S r i seg"
  shows "\<exists>s'. rcv_step (out, r) (Rcv_seg i seg) = Inr s' \<and> rcv_run_inv S isn s' \<and> rcv_level (out, r) \<le> rcv_level s'"
proof (cases "rcv_syn_received r")
  case True
  have inv: "rcv_inv S isn r" using assms(1) by (simp add: rcv_run_inv_def)
  from rcv_segment_ok[OF inv True assms(2,3)] assms(1) show ?thesis
    by (auto simp: rcv_run_inv_def rcv_level_def rcv_post_def push_post_def)
next
  case False
  then have "TCPReceiver_segment_received r seg = Inr (False, r)"
    using assms(2) by (simp add: TCPReceiver_segment_received_def seg_at_def Let_def)
  then show ?thesis using assms(1) by simp
qed

lemma rcv_syn_step:
  assumes "rcv_run_inv S isn (out, r)" and "seg_syn isn seg"
  shows "\<exists>s'. rcv_step (out, r) (Rcv_syn seg) = Inr s' \<and> rcv_run_inv S isn s' \<and> rcv_level (out, r) \<le> rcv_level s'"
  using rcv_syn_ok[of S isn r seg] assms by (auto simp: rcv_run_inv_def rcv_level_def)

interpretation receiver: step_system rcv_step "rcv_op_ok S isn" "rcv_run_inv S isn" rcv_level for S isn
proof
  fix s p assume inv: "rcv_run_inv S isn s" and ok: "rcv_op_ok S isn s p"
  obtain out r where s: "s = (out, r)" by (cases s)
  show "\<exists>s'. rcv_step s p = Inr s' \<and> rcv_run_inv S isn s' \<and> rcv_level s \<le> rcv_level s'"
    using inv ok rcv_read_ok[of S isn out r] rcv_seg_ok[of S isn out r] rcv_syn_step[of S isn out r]
    unfolding s by (cases p) (auto simp del: rcv_step.simps)
qed

lemma rcv_new_inv:
  "c < 2 ^ 32 \<Longrightarrow> length S < 2 ^ 63 \<Longrightarrow> rcv_run_inv S isn ([], TCPReceiver_new c)"
  using ra_new_inv[of c S] ra_new_eof[of S c]
  by (simp add: rcv_run_inv_def rcv_inv_def TCPReceiver_new_def rcv_fresh_def)
     (simp add: StreamReassembler_new_def)

lemma rcv_delivered:
  assumes "rcv_run_inv S isn (out, r)"
  shows "out @ bs_bytes (TCPReceiver_stream_out r) = take (rcv_level (out, r)) S"
proof -
  let ?ra = "rcv_reassembler r"
  have ra: "ra_inv S ?ra" and out: "out = take (bs_num_read (ra_output ?ra)) S"
    using assms by (simp_all add: rcv_run_inv_def rcv_inv_def)
  have "bs_num_read (ra_output ?ra) \<le> length S"
    using ra_inv_basic(5)[OF ra] ra_inv_derived(3)[OF ra] by simp
  then show ?thesis
    using ra_inv_basic(6,10)[OF ra] out
    by (simp add: TCPReceiver_stream_out_def StreamReassembler_stream_out_def rcv_level_def take_append_substr)
qed

section \<open>Properties\<close>

definition tcp_seg :: "WrappingInt32 \<Rightarrow> bool \<Rightarrow> bool \<Rightarrow> byte list \<Rightarrow> tcp_segment" where
  "tcp_seg sq sy fi pl =
     \<lparr>ts_header = TCPHeader_default\<lparr>seqno := sq, syn := sy, fin := fi\<rparr>, ts_payload = Buffer_of pl\<rparr>"

text \<open>C15: whatever segments of the peer's stream arrive, in any order, repeated or lost, the receiver
  never fails, what the application has read and can still read is exactly a prefix of the stream,
  and the acknowledgment number is one past that prefix, counting the SYN, and the FIN exactly when
  the output has ended.\<close>

theorem receiver_delivers_and_acks_prefix:
  assumes "c < 2 ^ 32" and "length S < 2 ^ 63"
    and "ops_ok rcv_step (rcv_op_ok S isn) ([], TCPReceiver_new c) ops"
  shows "\<exists>out r n. run_steps rcv_step ([], TCPReceiver_new c) ops = Inr (out, r) \<and>
    out @ bs_bytes (TCPReceiver_stream_out r) = take n S \<and> n \<le> length S \<and>
    (rcv_syn_received r \<longrightarrow> TCPReceiver_ackno r =
       Some (wrap (n + 1 + (if ByteStream_input_ended (TCPReceiver_stream_out r) then 1 else 0)) isn)) \<and>
    (ByteStream_input_ended (TCPReceiver_stream_out r) \<longrightarrow> n = length S)"
proof -
  obtain out r where run: "run_steps rcv_step ([], TCPReceiver_new c) ops = Inr (out, r)"
    and inv: "rcv_run_inv S isn (out, r)"
    using receiver.run_inv[OF rcv_new_inv[OF assms(1,2)] assms(3)] by auto
  let ?ra = "rcv_reassembler r"
  have ri: "rcv_inv S isn r" "ra_inv S ?ra" "ra_eof_inv S ?ra"
    using inv by (simp_all add: rcv_run_inv_def rcv_inv_def)
  have fin: "ByteStream_input_ended (TCPReceiver_stream_out r) =
      (ra_eof ?ra \<and> ra_first_unassemble_byte ?ra = length S)"
    using ri(3) by (simp add: ra_eof_inv_def ByteStream_input_ended_def TCPReceiver_stream_out_def
        StreamReassembler_stream_out_def)
  show ?thesis
    using run rcv_delivered[OF inv] ri(1) ra_inv_basic(5)[OF ri(2)]
    by (intro exI[of _ out] exI[of _ r] exI[of _ "rcv_level (out, r)"])
       (simp add: fin rcv_level_def TCPReceiver_ackno_def rcv_inv_def rcv_end_def)
qed

lemma receiver_example_ok:
  "ops_ok rcv_step (rcv_op_ok [7, 8, 9] 5) ([], TCPReceiver_new 8)
     [Rcv_syn (tcp_seg 5 True False []), Rcv_seg 1 (tcp_seg 7 False True [8, 9]),
      Rcv_seg 0 (tcp_seg 6 False False [7]), Rcv_read 2]"
  by code_simp

theorem receiver_delivers_and_acks_prefix_witness:
  "\<exists>out r n. run_steps rcv_step ([], TCPReceiver_new 8)
      [Rcv_syn (tcp_seg 5 True False []), Rcv_seg 1 (tcp_seg 7 False True [8, 9]),
       Rcv_seg 0 (tcp_seg 6 False False [7]), Rcv_read 2] = Inr (out, r) \<and>
    out @ bs_bytes (TCPReceiver_stream_out r) = take n [7, 8, 9]"
  using receiver_delivers_and_acks_prefix[OF _ _ receiver_example_ok] by (auto simp del: run_steps.simps)

text \<open>One segment of the stream, handled after the SYN: it never fails, keeps the invariant, and if it
  passes the acceptance test it makes known exactly its positions inside the window; otherwise the
  set of known positions does not change.\<close>

theorem receiver_segment_correct:
  assumes "rcv_inv S isn r" and "rcv_syn_received r" and "seg_at S isn i seg" and "seg_timely S r i seg"
    and "\<not> rcv_fin_received r"
  shows "\<exists>acc r'. TCPReceiver_segment_received r seg = Inr (acc, r') \<and> rcv_inv S isn r' \<and>
    ra_known (rcv_reassembler r') = ra_known (rcv_reassembler r) \<union>
      (if TCPReceiver_inbound r seg
       then {i..<i + length (Buffer_str (ts_payload seg))} \<inter>
            {..<ra_first_unassemble_byte (rcv_reassembler r) + TCPReceiver_window_size r}
       else {})"
proof -
  have "ra_inv S (rcv_reassembler r)" using assms(1) by (simp add: rcv_inv_def)
  from rcv_segment_ok[OF assms(1-4)] assms(5) rcv_limit[OF this] show ?thesis
    by (fastforce simp: rcv_post_def push_post_def)
qed

theorem receiver_segment_correct_witness:
  "\<exists>acc r'. TCPReceiver_segment_received
      ((TCPReceiver_new 8)\<lparr>rcv_isn := 5, rcv_syn_received := True, rcv_ackno := 6\<rparr>)
      (tcp_seg 7 False True [8, 9]) = Inr (acc, r') \<and>
    rcv_inv [7, 8, 9] 5 r' \<and> ra_known (rcv_reassembler r') = {1, 2}"
proof -
  let ?r = "(TCPReceiver_new 8)\<lparr>rcv_isn := 5, rcv_syn_received := True, rcv_ackno := 6\<rparr>"
  let ?seg = "tcp_seg 7 False True [8, 9]"
  have a: "rcv_inv [7, 8, 9] 5 ?r"
    using rcv_new_inv[of 8 "[7, 8, 9]" 5]
    by (simp add: rcv_run_inv_def rcv_inv_def TCPReceiver_new_def StreamReassembler_new_def wrap_def rcv_end_def)
  have b: "seg_at [7, 8, 9] 5 1 ?seg" "seg_timely [7, 8, 9] ?r 1 ?seg" "TCPReceiver_inbound ?r ?seg"
    "ra_first_unassemble_byte (rcv_reassembler ?r) + TCPReceiver_window_size ?r = 8"
    by code_simp+
  have c: "rcv_syn_received ?r" "\<not> rcv_fin_received ?r" "ra_known (rcv_reassembler ?r) = {}"
    by (simp_all add: TCPReceiver_new_def ra_new_known)
  have "Buffer_str (ts_payload ?seg) = [8, 9]" by (simp add: tcp_seg_def)
  moreover have "{1..<1 + length [8, 9 :: byte]} \<inter> {..<8} = {1, 2}" by auto
  ultimately show ?thesis
    using receiver_segment_correct[OF a c(1) b(1,2) c(2)] b(3) unfolding b(4) c(3) by auto
qed

text \<open>After any run the advertised window and the buffered bytes add up to the capacity, and every
  substring held back lies strictly after the assembled prefix and inside the advertised window.\<close>

theorem receiver_window_bounds:
  assumes "c < 2 ^ 32" and "length S < 2 ^ 63"
    and "ops_ok rcv_step (rcv_op_ok S isn) ([], TCPReceiver_new c) ops"
  shows "\<exists>out r. run_steps rcv_step ([], TCPReceiver_new c) ops = Inr (out, r) \<and>
    TCPReceiver_window_size r + ByteStream_buffer_size (TCPReceiver_stream_out r) = ra_capacity (rcv_reassembler r) \<and>
    (\<forall>u\<in>set (ra_unassembled (rcv_reassembler r)).
       ra_first_unassemble_byte (rcv_reassembler r) < ua_index u \<and>
       ua_index u + length (ua_data u)
         \<le> ra_first_unassemble_byte (rcv_reassembler r) + TCPReceiver_window_size r)"
proof -
  obtain out r where run: "run_steps rcv_step ([], TCPReceiver_new c) ops = Inr (out, r)"
    and inv: "rcv_run_inv S isn (out, r)"
    using receiver.run_inv[OF rcv_new_inv[OF assms(1,2)] assms(3)] by auto
  then have ra: "ra_inv S (rcv_reassembler r)" by (simp add: rcv_run_inv_def rcv_inv_def)
  have "TCPReceiver_window_size r + bs_size (ra_output (rcv_reassembler r)) = ra_capacity (rcv_reassembler r)"
    using rcv_limit[OF ra] ra_inv_basic(6)[OF ra] ra_inv_derived(1)[OF ra] by (simp add: ra_limit_def)
  then show ?thesis
    using run ra_inv_entry[OF ra] rcv_limit[OF ra]
    by (auto simp: ua_end_def ByteStream_buffer_size_def TCPReceiver_stream_out_def StreamReassembler_stream_out_def)
qed

theorem receiver_window_bounds_witness:
  "\<exists>out r. run_steps rcv_step ([], TCPReceiver_new 8)
      [Rcv_syn (tcp_seg 5 True False []), Rcv_seg 1 (tcp_seg 7 False True [8, 9]),
       Rcv_seg 0 (tcp_seg 6 False False [7]), Rcv_read 2] = Inr (out, r) \<and>
    TCPReceiver_window_size r + ByteStream_buffer_size (TCPReceiver_stream_out r) = ra_capacity (rcv_reassembler r)"
  using receiver_window_bounds[OF _ _ receiver_example_ok] by (auto simp del: run_steps.simps)

section \<open>Where the handler goes wrong\<close>

text \<open>
  A bare FIN that arrives before the data it follows is outside the hypothesis above: the handler
  ends the output and acknowledges one byte that never arrived.
\<close>

lemma early_fin_acks_missing_byte:
  "case run_steps rcv_step ([], TCPReceiver_new 8)
      [Rcv_syn (tcp_seg 5 True False []), Rcv_seg 3 (tcp_seg 9 False True [])] of
     Inr (out, r) \<Rightarrow> TCPReceiver_ackno r = Some 7 \<and> ByteStream_input_ended (TCPReceiver_stream_out r) \<and>
       StreamReassembler_first_unassembled_byte (rcv_reassembler r) = 0
   | Inl _ \<Rightarrow> False"
  by code_simp

end
