(* ===== verification/TCP_Sender.thy ===== *)
theory TCP_Sender
  imports TCP_Receiver
begin

text \<open>
  The sending half of TCP (\<open>libsponge/tcp_sender.hh\<close>, \<open>.cc\<close>): cutting the outgoing stream into segments
  within the peer's window, the queue of outstanding segments, acknowledgments, and the
  retransmission timer.  Queues are lists, front first.  The random initial sequence number is an
  argument of the constructor.
\<close>

section \<open>TCPConfig\<close>

definition DEFAULT_CAPACITY :: u64 where
  "DEFAULT_CAPACITY = 64000"

definition MAX_PAYLOAD_SIZE :: u64 where
  "MAX_PAYLOAD_SIZE = 1452"

definition TIMEOUT_DFLT :: u16 where
  "TIMEOUT_DFLT = 1000"

definition MAX_RETX_ATTEMPTS :: u32 where
  "MAX_RETX_ATTEMPTS = 8"

record tcp_config =
  rt_timeout :: u16
  recv_capacity :: u64
  send_capacity :: u64
  fixed_isn :: "WrappingInt32 option"

definition TCPConfig_default :: tcp_config where
  "TCPConfig_default =
     \<lparr>rt_timeout = TIMEOUT_DFLT, recv_capacity = DEFAULT_CAPACITY, send_capacity = DEFAULT_CAPACITY,
      fixed_isn = None\<rparr>"

section \<open>TCPSender\<close>

datatype sender_state = running | stop

record tcp_sender =
  snd_isn :: WrappingInt32
  snd_segments_out :: "tcp_segment list"
  snd_segments_outgoing :: "tcp_segment list"
  snd_bytes_in_flight :: u64
  snd_recv_ackno :: u64
  snd_window_size :: u16
  snd_stream :: byte_stream
  snd_next_seqno :: u64
  snd_syn_flag :: bool
  snd_old_syn_flag :: bool
  snd_fin_sent :: bool
  snd_initial_retransmission_timeout :: u32
  snd_consecutive_retransmissions :: u32
  snd_state :: sender_state
  snd_time :: u64
  snd_retransmission_timeout :: u64

definition TCPSender_new :: "u64 \<Rightarrow> u16 \<Rightarrow> WrappingInt32 option \<Rightarrow> u32 \<Rightarrow> tcp_sender" where
  "TCPSender_new capacity retx_timeout isn_opt random_value =
     \<lparr>snd_isn = (case isn_opt of Some i \<Rightarrow> i | None \<Rightarrow> random_value),
      snd_segments_out = [], snd_segments_outgoing = [], snd_bytes_in_flight = 0, snd_recv_ackno = 0,
      snd_window_size = 1, snd_stream = ByteStream_new capacity, snd_next_seqno = 0,
      snd_syn_flag = False, snd_old_syn_flag = False, snd_fin_sent = False,
      snd_initial_retransmission_timeout = ucast retx_timeout, snd_consecutive_retransmissions = 0,
      snd_state = stop, snd_time = 0, snd_retransmission_timeout = unat retx_timeout\<rparr>"

definition TCPSender_bytes_in_flight :: "tcp_sender \<Rightarrow> u64" where
  "TCPSender_bytes_in_flight s = snd_bytes_in_flight s"

definition TCPSender_consecutive_retransmissions :: "tcp_sender \<Rightarrow> u32" where
  "TCPSender_consecutive_retransmissions s = snd_consecutive_retransmissions s"

definition TCPSender_next_seqno_absolute :: "tcp_sender \<Rightarrow> u64" where
  "TCPSender_next_seqno_absolute s = snd_next_seqno s"

definition TCPSender_next_seqno :: "tcp_sender \<Rightarrow> WrappingInt32" where
  "TCPSender_next_seqno s = wrap (snd_next_seqno s) (snd_isn s)"

definition TCPSender_syn_sent :: "tcp_sender \<Rightarrow> bool" where
  "TCPSender_syn_sent s = snd_syn_flag s"

definition TCPSender_get_old_syn :: "tcp_sender \<Rightarrow> bool" where
  "TCPSender_get_old_syn s = snd_old_syn_flag s"

definition TCPSender_fin_sent :: "tcp_sender \<Rightarrow> bool" where
  "TCPSender_fin_sent s = snd_fin_sent s"

definition TCPSender_make_segment_and_send :: "tcp_sender \<Rightarrow> tcp_segment \<Rightarrow> tcp_sender" where
  "TCPSender_make_segment_and_send s seg =
     (let seg = seg\<lparr>ts_header := (ts_header seg)\<lparr>seqno := wrap (snd_next_seqno s) (snd_isn s)\<rparr>\<rparr>
      in s\<lparr>snd_next_seqno := add64 (snd_next_seqno s) (TCPSegment_length_in_sequence_space seg),
           snd_bytes_in_flight := add64 (snd_bytes_in_flight s) (TCPSegment_length_in_sequence_space seg),
           snd_segments_out := snd_segments_out s @ [seg],
           snd_segments_outgoing := snd_segments_outgoing s @ [seg]\<rparr>)"

text \<open>The room left in the window: 64-bit unsigned, so it wraps when more is in flight than the window.\<close>

definition TCPSender_room :: "u16 \<Rightarrow> tcp_sender \<Rightarrow> u64" where
  "TCPSender_room copy_window_size s =
     sub64 (unat copy_window_size) (sub64 (snd_next_seqno s) (snd_recv_ackno s))"

text \<open>The loop of \<open>fill_window\<close>, lines 59 to 78.\<close>

partial_function (option) TCPSender_fill_loop :: "u16 \<Rightarrow> tcp_sender \<Rightarrow> tcp_sender result option" where
  "TCPSender_fill_loop w s =
     (if TCPSender_room w s = 0 then Some (Inr s)
      else if ByteStream_eof (snd_stream s) \<and> snd_fin_sent s then Some (Inr s)
      else
        (case ByteStream_read (snd_stream s) (min (TCPSender_room w s) MAX_PAYLOAD_SIZE) of
           Inl e \<Rightarrow> Some (Inl e)
         | Inr (d, st) \<Rightarrow>
             let s1 = s\<lparr>snd_stream := st\<rparr>;
                 add_fin = (ByteStream_eof st \<and> \<not> snd_fin_sent s1);
                 seg = TCPSegment_default\<lparr>ts_payload := Buffer_of d,
                                          ts_header := TCPHeader_default\<lparr>fin := add_fin\<rparr>\<rparr>;
                 s2 = (if add_fin then s1\<lparr>snd_fin_sent := True\<rparr> else s1)
             in if TCPSegment_length_in_sequence_space seg = 0 then Some (Inr s2)
                else TCPSender_fill_loop w ((TCPSender_make_segment_and_send s2 seg)\<lparr>snd_state := running\<rparr>)))"

declare TCPSender_fill_loop.simps [code]

definition TCPSender_fill_window :: "tcp_sender \<Rightarrow> tcp_sender result" where
  "TCPSender_fill_window s =
     (if \<not> snd_syn_flag s then
        (let seg = TCPSegment_default\<lparr>ts_header := TCPHeader_default\<lparr>syn := True\<rparr>\<rparr>
         in Inr ((TCPSender_make_segment_and_send s seg)\<lparr>snd_syn_flag := True, snd_state := running\<rparr>))
      else if \<not> snd_old_syn_flag s then Inr s
      else
        (let copy_window_size = (if snd_window_size s \<noteq> 0 then snd_window_size s else 1)
         in case TCPSender_fill_loop copy_window_size s of None \<Rightarrow> Inl Nontermination | Some r \<Rightarrow> r))"

text \<open>The loop of \<open>ack_received\<close>, lines 105 to 115.\<close>

fun TCPSender_pop_acked :: "u64 \<Rightarrow> tcp_segment list \<Rightarrow> tcp_sender \<Rightarrow> tcp_sender" where
  "TCPSender_pop_acked abs_ackno [] s = s\<lparr>snd_segments_outgoing := []\<rparr>"
| "TCPSender_pop_acked abs_ackno (seg # segs) s =
     (let seg_abs_ackno = unwrap (seqno (ts_header seg)) (snd_isn s) (snd_next_seqno s);
          len = TCPSegment_length_in_sequence_space seg
      in if add64 seg_abs_ackno len \<le> abs_ackno
         then TCPSender_pop_acked abs_ackno segs
                (s\<lparr>snd_bytes_in_flight := sub64 (snd_bytes_in_flight s) len,
                   snd_recv_ackno := add64 seg_abs_ackno len\<rparr>)
         else s\<lparr>snd_segments_outgoing := seg # segs\<rparr>)"

definition TCPSender_ack_received ::
  "tcp_sender \<Rightarrow> WrappingInt32 \<Rightarrow> u16 \<Rightarrow> (bool \<times> tcp_sender) result" where
  "TCPSender_ack_received s ack_no win_size =
     (let abs_ackno = unwrap ack_no (snd_isn s) (snd_next_seqno s)
      in if snd_next_seqno s < abs_ackno then Inr (False, s)
         else
           let s1 = s\<lparr>snd_window_size := win_size\<rparr>
           in if abs_ackno \<le> snd_recv_ackno s1 then Inr (True, s1)
              else
                let s2 = s1\<lparr>snd_old_syn_flag := True\<rparr>;
                    s3 = TCPSender_pop_acked abs_ackno (snd_segments_outgoing s2) s2
                in rbind (TCPSender_fill_window s3) (\<lambda>s4.
                     let s5 = s4\<lparr>snd_time := 0, snd_consecutive_retransmissions := 0,
                                 snd_retransmission_timeout := unat (snd_initial_retransmission_timeout s4)\<rparr>;
                         s6 = (if snd_segments_outgoing s5 = [] then s5\<lparr>snd_state := stop\<rparr> else s5)
                     in Inr (True, s6)))"

definition TCPSender_tick :: "tcp_sender \<Rightarrow> u64 \<Rightarrow> tcp_sender" where
  "TCPSender_tick s ms_since_last_tick =
     (if snd_state s = stop then s
      else
        let s1 = s\<lparr>snd_time := add64 (snd_time s) ms_since_last_tick\<rparr>
        in if snd_retransmission_timeout s1 \<le> snd_time s1 then
             (let s2 = s1\<lparr>snd_consecutive_retransmissions := snd_consecutive_retransmissions s1 + 1,
                          snd_retransmission_timeout := mul64 (snd_retransmission_timeout s1) 2,
                          snd_time := 0\<rparr>
              in case snd_segments_outgoing s2 of
                   seg # _ \<Rightarrow> s2\<lparr>snd_segments_out := snd_segments_out s2 @ [seg]\<rparr>
                 | [] \<Rightarrow> s2\<lparr>snd_state := stop\<rparr>)
           else s1)"

definition TCPSender_send_empty_segment :: "tcp_sender \<Rightarrow> tcp_sender" where
  "TCPSender_send_empty_segment s =
     (let seg = TCPSegment_default\<lparr>ts_header :=
                  TCPHeader_default\<lparr>seqno := wrap (snd_next_seqno s) (snd_isn s)\<rparr>\<rparr>
      in s\<lparr>snd_segments_out := snd_segments_out s @ [seg]\<rparr>)"

end
