(* ===== verification/Sender_Correct.thy ===== *)
theory Sender_Correct
  imports TCP_Sender
begin

text \<open>
  Correctness of the sender relative to the stream \<open>S\<close> the application writes: the invariant \<open>snd_inv\<close>
  (the outstanding segments tile the numbers in flight, every emitted segment is a piece of \<open>S\<close>), the
  loop of \<open>fill_window\<close> (it ends, it fills the window), acknowledgments, the timer, and runs of all
  operations as an instance of \<open>step_system\<close>.
\<close>

section \<open>Invariant\<close>

abbreviation slen :: "tcp_segment \<Rightarrow> nat" where
  "slen \<equiv> TCPSegment_length_in_sequence_space"

text \<open>
  \<open>S\<close> is the stream the application writes, as far as it will ever get.  A segment at absolute sequence number \<open>a\<close> is
  the SYN at zero or a piece of \<open>S\<close>; the outstanding segments tile the sequence numbers from the last
  acknowledgment to the next number to send.
\<close>

definition snd_seg_at :: "byte list \<Rightarrow> WrappingInt32 \<Rightarrow> nat \<Rightarrow> tcp_segment \<Rightarrow> bool" where
  "snd_seg_at S isn a seg \<longleftrightarrow> (if a = 0 then seg_syn isn seg else seg_at S isn (a - 1) seg)"

definition seg_bare :: "tcp_segment \<Rightarrow> bool" where
  "seg_bare seg \<longleftrightarrow> Buffer_str (ts_payload seg) = [] \<and> \<not> syn (ts_header seg) \<and> \<not> fin (ts_header seg)"

fun segs_chain :: "byte list \<Rightarrow> WrappingInt32 \<Rightarrow> nat \<Rightarrow> tcp_segment list \<Rightarrow> nat \<Rightarrow> bool" where
  "segs_chain S isn a [] b = (a = b)"
| "segs_chain S isn a (seg # segs) b =
     (snd_seg_at S isn a seg \<and> 0 < slen seg \<and> segs_chain S isn (a + slen seg) segs b)"

definition snd_inv :: "byte list \<Rightarrow> tcp_sender \<Rightarrow> bool" where
  "snd_inv S s \<longleftrightarrow>
     bs_inv (snd_stream s) \<and> length S < 2 ^ 62 \<and>
     bs_num_read (snd_stream s) + bs_size (snd_stream s) \<le> length S \<and>
     bs_bytes (snd_stream s) = substr S (bs_num_read (snd_stream s)) (bs_size (snd_stream s)) \<and>
     (bs_if_end (snd_stream s) \<longrightarrow> bs_num_read (snd_stream s) + bs_size (snd_stream s) = length S) \<and>
     snd_next_seqno s =
       (if snd_syn_flag s then 1 + bs_num_read (snd_stream s) + (if snd_fin_sent s then 1 else 0) else 0) \<and>
     (\<not> snd_syn_flag s \<longrightarrow> bs_num_read (snd_stream s) = 0 \<and> \<not> snd_fin_sent s \<and> \<not> snd_old_syn_flag s) \<and>
     (snd_fin_sent s \<longrightarrow> ByteStream_eof (snd_stream s)) \<and>
     snd_recv_ackno s \<le> snd_next_seqno s \<and>
     segs_chain S (snd_isn s) (snd_recv_ackno s) (snd_segments_outgoing s) (snd_next_seqno s) \<and>
     snd_bytes_in_flight s = snd_next_seqno s - snd_recv_ackno s \<and>
     (\<forall>seg\<in>set (snd_segments_out s). seg_bare seg \<or> (\<exists>a. snd_seg_at S (snd_isn s) a seg))"

lemma segs_chain_append:
  "segs_chain S isn a (xs @ ys) c \<longleftrightarrow> (\<exists>b. segs_chain S isn a xs b \<and> segs_chain S isn b ys c)"
  by (induction xs arbitrary: a) auto

lemma segs_chain_le: "segs_chain S isn a segs b \<Longrightarrow> a \<le> b"
  by (induction segs arbitrary: a) (auto dest: add_leD1)

lemma segs_chain_sum: "segs_chain S isn a segs b \<Longrightarrow> a + sum_list (map slen segs) = b"
  by (induction segs arbitrary: a) (auto simp: add.assoc[symmetric])

lemma segs_chain_Nil: "segs_chain S isn a segs a \<longleftrightarrow> segs = []"
  using segs_chain_le by (cases segs) fastforce+

lemma snd_inv_basic:
  assumes "snd_inv S s"
  shows "bs_inv (snd_stream s)" and "length S < 2 ^ 62"
    and "bs_num_read (snd_stream s) + bs_size (snd_stream s) \<le> length S"
    and "bs_bytes (snd_stream s) = substr S (bs_num_read (snd_stream s)) (bs_size (snd_stream s))"
    and "snd_next_seqno s =
       (if snd_syn_flag s then 1 + bs_num_read (snd_stream s) + (if snd_fin_sent s then 1 else 0) else 0)"
    and "snd_fin_sent s \<longrightarrow> ByteStream_eof (snd_stream s)"
    and "snd_recv_ackno s \<le> snd_next_seqno s"
    and "segs_chain S (snd_isn s) (snd_recv_ackno s) (snd_segments_outgoing s) (snd_next_seqno s)"
    and "snd_bytes_in_flight s = snd_next_seqno s - snd_recv_ackno s"
    and "bs_if_end (snd_stream s) \<longrightarrow> bs_num_read (snd_stream s) + bs_size (snd_stream s) = length S"
  using assms unfolding snd_inv_def by blast+

lemma snd_next_bound: "snd_inv S s \<Longrightarrow> snd_next_seqno s \<le> length S + 2"
  using snd_inv_basic(3,5)[of S s] by auto

lemma snd_small:
  assumes "snd_inv S s"
  shows "length S < 4611686018427387904" and "snd_next_seqno s < 2 ^ 63" and "snd_next_seqno s < two64 - two64 div 2"
proof -
  show "length S < 4611686018427387904" using snd_inv_basic(2)[OF assms] by simp
  then show "snd_next_seqno s < 2 ^ 63" "snd_next_seqno s < two64 - two64 div 2"
    using snd_next_bound[OF assms] by simp_all
qed

lemma snd_new_inv:
  assumes "c < two64" and "length S < 2 ^ 62" shows "snd_inv S (TCPSender_new c t i rnd)"
  using assms by (simp add: snd_inv_def TCPSender_new_def)

text \<open>Emitting a segment that continues the stream.\<close>

lemma make_segment_inv:
  assumes inv: "snd_inv S s" and seg: "snd_seg_at S (snd_isn s) (snd_next_seqno s) seg'"
    and seg'_def: "seg' = seg\<lparr>ts_header := (ts_header seg)\<lparr>seqno := wrap (snd_next_seqno s) (snd_isn s)\<rparr>\<rparr>"
    and len: "0 < slen seg'" "slen seg' \<le> length S + 1"
  defines "s' \<equiv> TCPSender_make_segment_and_send s seg"
  shows "snd_next_seqno s' = snd_next_seqno s + slen seg'"
    and "snd_bytes_in_flight s' = snd_next_seqno s' - snd_recv_ackno s'"
    and "segs_chain S (snd_isn s') (snd_recv_ackno s') (snd_segments_outgoing s') (snd_next_seqno s')"
    and "\<forall>x\<in>set (snd_segments_out s'). seg_bare x \<or> (\<exists>a. snd_seg_at S (snd_isn s') a x)"
    and "snd_segments_out s' = snd_segments_out s @ [seg']"
    and "snd_segments_outgoing s' = snd_segments_outgoing s @ [seg']"
proof -
  note b = snd_inv_basic[OF inv] and sm = snd_small[OF inv] and nb = snd_next_bound[OF inv]
  have s': "s' = s\<lparr>snd_next_seqno := add64 (snd_next_seqno s) (slen seg'),
     snd_bytes_in_flight := add64 (snd_bytes_in_flight s) (slen seg'),
     snd_segments_out := snd_segments_out s @ [seg'], snd_segments_outgoing := snd_segments_outgoing s @ [seg']\<rparr>"
    by (simp add: s'_def TCPSender_make_segment_and_send_def Let_def seg'_def)
  show next': "snd_next_seqno s' = snd_next_seqno s + slen seg'"
    using sm(1) nb len by (simp add: s' add64_exact)
  have "snd_next_seqno s - snd_recv_ackno s + slen seg' < two64" using sm(1) nb len by simp
  then show "snd_bytes_in_flight s' = snd_next_seqno s' - snd_recv_ackno s'"
    unfolding next' using b(7,9) by (simp add: s' add64_exact)
  show "segs_chain S (snd_isn s') (snd_recv_ackno s') (snd_segments_outgoing s') (snd_next_seqno s')"
    unfolding next' using b(8) seg len by (auto simp: s' segs_chain_append)
  show "\<forall>x\<in>set (snd_segments_out s'). seg_bare x \<or> (\<exists>a. snd_seg_at S (snd_isn s') a x)"
    using inv seg unfolding snd_inv_def by (auto simp: s')
  show "snd_segments_out s' = snd_segments_out s @ [seg']"
    "snd_segments_outgoing s' = snd_segments_outgoing s @ [seg']" by (simp_all add: s')
qed

section \<open>Filling the window\<close>

definition snd_frame :: "tcp_sender \<Rightarrow> tcp_sender \<Rightarrow> bool" where
  "snd_frame s s' \<longleftrightarrow>
     snd_isn s' = snd_isn s \<and> snd_recv_ackno s' = snd_recv_ackno s \<and> snd_window_size s' = snd_window_size s \<and>
     snd_old_syn_flag s' = snd_old_syn_flag s \<and> snd_time s' = snd_time s \<and>
     snd_retransmission_timeout s' = snd_retransmission_timeout s \<and>
     snd_initial_retransmission_timeout s' = snd_initial_retransmission_timeout s \<and>
     snd_consecutive_retransmissions s' = snd_consecutive_retransmissions s \<and>
     bs_if_end (snd_stream s') = bs_if_end (snd_stream s) \<and>
     bs_capacity (snd_stream s') = bs_capacity (snd_stream s) \<and>
     bs_error (snd_stream s') = bs_error (snd_stream s) \<and>
     (snd_fin_sent s \<longrightarrow> snd_fin_sent s') \<and>
     (\<exists>new. snd_segments_out s' = snd_segments_out s @ new \<and>
            snd_segments_outgoing s' = snd_segments_outgoing s @ new)"

lemma snd_frame_refl: "snd_frame s s"
  by (simp add: snd_frame_def)

lemma snd_frame_trans: "snd_frame s t \<Longrightarrow> snd_frame t u \<Longrightarrow> snd_frame s u"
  by (auto simp: snd_frame_def)

text \<open>The window is filled: no room, or nothing left to send.\<close>

definition snd_filled :: "u16 \<Rightarrow> tcp_sender \<Rightarrow> bool" where
  "snd_filled w s \<longleftrightarrow>
     TCPSender_room w s = 0 \<or>
     ByteStream_buffer_empty (snd_stream s) \<and> (bs_if_end (snd_stream s) \<longrightarrow> snd_fin_sent s)"

definition snd_flight :: "tcp_sender \<Rightarrow> nat" where
  "snd_flight s = snd_next_seqno s - snd_recv_ackno s"

lemma room_eq:
  assumes "snd_inv S s"
  shows "TCPSender_room w s = (if snd_flight s \<le> unat w then unat w - snd_flight s else two64 + unat w - snd_flight s)"
proof -
  note b = snd_inv_basic(7)[OF assms]
  have "snd_next_seqno s < two64" using snd_small(2)[OF assms] by simp
  then have "sub64 (snd_next_seqno s) (snd_recv_ackno s) = snd_flight s" "snd_flight s < two64"
    using b by (simp_all add: snd_flight_def sub64_exact)
  moreover have "unat w < two64" using word_bounds(2)[of w] by simp
  ultimately show ?thesis by (simp add: TCPSender_room_def sub64_exact sub64_wrap)
qed

lemma fin_not_sent: "\<not> snd_fin_sent s \<Longrightarrow> s\<lparr>snd_stream := st, snd_fin_sent := False\<rparr> = s\<lparr>snd_stream := st\<rparr>"
  by (rule tcp_sender.equality) simp_all

text \<open>One iteration: what is read, the segment built from it, and the state it leaves.\<close>

lemma fill_step:
  assumes inv: "snd_inv S s" and syn: "snd_syn_flag s" and nofin: "\<not> snd_fin_sent s" and n: "0 < n" "n < two64"
    and rd: "ByteStream_read (snd_stream s) n = Inr (d, st)"
  defines "add_fin \<equiv> ByteStream_eof st"
  defines "s2 \<equiv> s\<lparr>snd_stream := st, snd_fin_sent := add_fin\<rparr>"
  defines "seg \<equiv> TCPSegment_default\<lparr>ts_payload := Buffer_of d, ts_header := TCPHeader_default\<lparr>fin := add_fin\<rparr>\<rparr>"
  defines "s3 \<equiv> (TCPSender_make_segment_and_send s2 seg)\<lparr>snd_state := running\<rparr>"
  shows "slen seg = length d + (if add_fin then 1 else 0)"
    and "length d = min n (bs_size (snd_stream s))"
    and "slen seg = 0 \<Longrightarrow> snd_inv S s2 \<and> snd_frame s s2 \<and> snd_fin_sent s2 = snd_fin_sent s \<and>
           snd_flight s2 = snd_flight s \<and> bs_size (snd_stream s2) = 0 \<and> \<not> bs_if_end (snd_stream s2)"
    and "slen seg \<noteq> 0 \<Longrightarrow> snd_inv S s3 \<and> snd_frame s s3 \<and> snd_syn_flag s3 \<and> snd_fin_sent s3 = add_fin \<and>
           snd_flight s3 = snd_flight s + slen seg \<and>
           bs_size (snd_stream s3) = bs_size (snd_stream s) - length d"
proof -
  note b = snd_inv_basic[OF inv] and sm = snd_small[OF inv]
  let ?st = "snd_stream s"
  have len: "length (bs_bytes ?st) = bs_size ?st" using b(1) by (simp add: bs_inv_def)
  from read_ok[OF b(1) n(2)] rd
  have d: "d = take n (bs_bytes ?st)" and st: "bs_inv st" "bs_bytes st = drop n (bs_bytes ?st)"
    "bs_size st = bs_size ?st - min n (bs_size ?st)" "bs_capacity st = bs_capacity ?st"
    "bs_num_read st = add64 (bs_num_read ?st) (min n (bs_size ?st))"
    "bs_if_end st = bs_if_end ?st" "bs_error st = bs_error ?st" by auto
  show ld: "length d = min n (bs_size ?st)" using d len by simp
  have nr: "bs_num_read st = bs_num_read ?st + length d"
    using st(5) b(3) sm(1) ld by (simp add: add64_exact)
  have size: "bs_size st = bs_size ?st - length d" "length d \<le> bs_size ?st" using st(3) ld by simp_all
  show sl: "slen seg = length d + (if add_fin then 1 else 0)"
    using size b(3) sm(1)
    by (simp add: seg_def TCPSegment_length_in_sequence_space_def TCPHeader_default_def add64_exact)
  have dW: "d = substr S (bs_num_read ?st) (length d)"
    using d b(4) ld by (simp add: take_substr)
  have bytes: "bs_bytes st = substr S (bs_num_read st) (bs_size st)"
    using st(2) b(4) ld nr size by (cases "n \<le> bs_size ?st") (simp_all add: drop_substr)
  have nx: "snd_next_seqno s = 1 + bs_num_read ?st" using b(5) syn nofin by simp
  have fe: "add_fin = (bs_if_end ?st \<and> bs_size st = 0)" by (simp add: add_fin_def ByteStream_eof_def st(6))
  {
    assume z: "slen seg = 0"
    then have zero: "d = []" "\<not> add_fin" "bs_size ?st = 0" using sl ld n(1) by (auto split: if_splits)
    then have s2: "s2 = s\<lparr>snd_stream := st\<rparr>" using nofin by (simp add: s2_def fin_not_sent)
    have "snd_inv S s2" using inv zero st(1,6) nr size bytes nofin syn unfolding snd_inv_def s2 by auto
    then show "snd_inv S s2 \<and> snd_frame s s2 \<and> snd_fin_sent s2 = snd_fin_sent s \<and>
        snd_flight s2 = snd_flight s \<and> bs_size (snd_stream s2) = 0 \<and> \<not> bs_if_end (snd_stream s2)"
      using zero size st fe by (auto simp: snd_frame_def s2 snd_flight_def)
  next
    assume nz: "slen seg \<noteq> 0"
    let ?seg = "seg\<lparr>ts_header := (ts_header seg)\<lparr>seqno := wrap (snd_next_seqno s) (snd_isn s)\<rparr>\<rparr>"
    have lseg: "slen ?seg = slen seg" by (simp add: TCPSegment_length_in_sequence_space_def)
    have piece: "piece_of S (bs_num_read ?st) d" unfolding piece_of_def using dW size b(3) by simp
    have "seg_at S (snd_isn s) (bs_num_read ?st) ?seg"
      unfolding seg_at_def using piece nx fe size b(10) by (auto simp: seg_def TCPHeader_default_def)
    then have at: "snd_seg_at S (snd_isn s) (snd_next_seqno s) ?seg" by (simp add: snd_seg_at_def nx)
    have "slen ?seg \<le> length S + 1" using sl lseg size b(3) by simp
    note mk = make_segment_inv[OF inv at refl _ this, unfolded lseg]
    let ?t = "TCPSender_make_segment_and_send s seg"
    have s3: "s3 = ?t\<lparr>snd_stream := st, snd_fin_sent := add_fin, snd_state := running\<rparr>"
      by (simp add: s3_def s2_def TCPSender_make_segment_and_send_def Let_def)
    have fr: "snd_isn ?t = snd_isn s" "snd_recv_ackno ?t = snd_recv_ackno s" "snd_syn_flag ?t"
      "snd_old_syn_flag ?t = snd_old_syn_flag s" "snd_window_size ?t = snd_window_size s"
      "snd_time ?t = snd_time s" "snd_retransmission_timeout ?t = snd_retransmission_timeout s"
      "snd_initial_retransmission_timeout ?t = snd_initial_retransmission_timeout s"
      "snd_consecutive_retransmissions ?t = snd_consecutive_retransmissions s"
      using syn by (simp_all add: TCPSender_make_segment_and_send_def Let_def)
    have "snd_inv S s3"
      unfolding snd_inv_def s3 using mk nz b(2,3,7,10) st(1,6) nr size bytes fe nx sl fr add_fin_def
      by (simp add: ByteStream_eof_def)
    moreover have "snd_frame s s3"
      using st(4,6,7) nofin mk(5,6) nz fr by (simp add: snd_frame_def s3)
    ultimately show "snd_inv S s3 \<and> snd_frame s s3 \<and> snd_syn_flag s3 \<and> snd_fin_sent s3 = add_fin \<and>
        snd_flight s3 = snd_flight s + slen seg \<and> bs_size (snd_stream s3) = bs_size ?st - length d"
      using mk(1) nz fr size b(7) by (simp add: s3 snd_flight_def)
  }
qed

text \<open>
  The loop ends, keeps the invariant and fills the window.  What is in flight exceeds the window at
  most by the FIN, if it did not exceed the window before.
\<close>

definition fill_post :: "byte list \<Rightarrow> u16 \<Rightarrow> tcp_sender \<Rightarrow> tcp_sender \<Rightarrow> bool" where
  "fill_post S w s s' \<longleftrightarrow>
     snd_inv S s' \<and> snd_frame s s' \<and> snd_filled w s' \<and> snd_syn_flag s' \<and> snd_flight s \<le> snd_flight s' \<and>
     (snd_flight s \<le> unat w \<longrightarrow>
        snd_flight s' \<le> unat w + (if snd_fin_sent s' \<and> \<not> snd_fin_sent s then 1 else 0))"

lemma fill_loop_ok:
  "snd_inv S s \<Longrightarrow> snd_syn_flag s \<Longrightarrow> \<exists>s'. TCPSender_fill_loop w s = Some (Inr s') \<and> fill_post S w s s'"
proof (induction "bs_size (snd_stream s) + (if snd_fin_sent s then 0 else 1)" arbitrary: s rule: less_induct)
  case less
  note inv = less.prems(1) and syn = less.prems(2)
  let ?st = "snd_stream s" and ?n = "min (TCPSender_room w s) MAX_PAYLOAD_SIZE"
  note b = snd_inv_basic[OF inv]
  consider "TCPSender_room w s = 0" | "snd_fin_sent s" | "TCPSender_room w s \<noteq> 0" "\<not> snd_fin_sent s" by blast
  then show ?case
  proof cases
    case 1
    then have "TCPSender_fill_loop w s = Some (Inr s)" by (subst TCPSender_fill_loop.simps) simp
    then show ?thesis using inv syn 1 by (auto simp: fill_post_def snd_frame_refl snd_filled_def)
  next
    case 2
    then have "TCPSender_fill_loop w s = Some (Inr s)"
      using b(6) by (subst TCPSender_fill_loop.simps) simp
    then show ?thesis using inv syn 2 b(6)
      by (auto simp: fill_post_def snd_frame_refl snd_filled_def ByteStream_eof_def ByteStream_buffer_empty_def)
  next
    case 3
    have n: "0 < ?n" "?n < two64" using 3 by (simp_all add: MAX_PAYLOAD_SIZE_def)
    obtain d st where rd: "ByteStream_read ?st ?n = Inr (d, st)" using read_ok[OF b(1) n(2)] by blast
    define add_fin where "add_fin = ByteStream_eof st"
    define s2 where "s2 = s\<lparr>snd_stream := st, snd_fin_sent := add_fin\<rparr>"
    define seg where "seg = TCPSegment_default\<lparr>ts_payload := Buffer_of d,
      ts_header := TCPHeader_default\<lparr>fin := add_fin\<rparr>\<rparr>"
    define s3 where "s3 = (TCPSender_make_segment_and_send s2 seg)\<lparr>snd_state := running\<rparr>"
    note fs = fill_step[OF inv syn 3(2) n rd, folded add_fin_def, folded s2_def seg_def, folded s3_def]
    have unf: "TCPSender_fill_loop w s = (if slen seg = 0 then Some (Inr s2) else TCPSender_fill_loop w s3)"
      using 3 rd by (subst TCPSender_fill_loop.simps)
        (auto simp: Let_def add_fin_def s2_def seg_def s3_def fin_not_sent)
    show ?thesis
    proof (cases "slen seg = 0")
      case True
      moreover have "snd_syn_flag s2" using syn by (simp add: s2_def)
      ultimately show ?thesis
        using fs(3) unf by (auto simp: fill_post_def snd_filled_def ByteStream_buffer_empty_def)
    next
      case False
      then have s3: "snd_inv S s3" "snd_frame s s3" "snd_syn_flag s3" "snd_fin_sent s3 = add_fin"
        "snd_flight s3 = snd_flight s + slen seg" "bs_size (snd_stream s3) = bs_size ?st - length d"
        using fs(4) by simp_all
      have "length d \<le> bs_size ?st" using fs(2) by simp
      then have dec: "bs_size (snd_stream s3) + (if snd_fin_sent s3 then 0 else 1)
          < bs_size ?st + (if snd_fin_sent s then 0 else 1)"
        using s3(4,6) fs(1) 3(2) False by (auto split: if_splits)
      obtain s' where s': "TCPSender_fill_loop w s3 = Some (Inr s')" "fill_post S w s3 s'"
        using less.hyps[OF dec s3(1,3)] by blast
      have fl: "snd_flight s' \<le> unat w + (if snd_fin_sent s' \<and> \<not> snd_fin_sent s then 1 else 0)"
        if "snd_flight s \<le> unat w"
      proof -
        have "length d \<le> unat w - snd_flight s"
          using fs(2) room_eq[OF inv, of w] that by simp
        then have f3: "snd_flight s3 \<le> unat w + (if add_fin then 1 else 0)" using s3(5) fs(1) that by simp
        show ?thesis
        proof (cases "add_fin")
          case True
          then have eof3: "ByteStream_eof (snd_stream s3)" using snd_inv_basic(6)[OF s3(1)] s3(4) by simp
          have "TCPSender_fill_loop w s3 = Some (Inr s3)"
            using eof3 s3(4) True by (subst TCPSender_fill_loop.simps) simp
          then show ?thesis using s'(1) f3 True s3(4) 3(2) by simp
        next
          case False
          then show ?thesis using s'(2) f3 s3(4) 3(2) by (auto simp: fill_post_def)
        qed
      qed
      show ?thesis
        using unf False s' s3 fl snd_frame_trans[OF s3(2)] by (auto simp: fill_post_def)
    qed
  qed
qed

lemma fill_window_ok:
  assumes inv: "snd_inv S s"
  shows "\<exists>s'. TCPSender_fill_window s = Inr s' \<and> snd_inv S s' \<and> snd_frame s s' \<and> snd_syn_flag s' \<and>
    snd_flight s \<le> snd_flight s' \<and>
    (snd_old_syn_flag s \<longrightarrow> fill_post S (if snd_window_size s \<noteq> 0 then snd_window_size s else 1) s s')"
proof -
  note b = snd_inv_basic[OF inv]
  consider "\<not> snd_syn_flag s" | "snd_syn_flag s" "\<not> snd_old_syn_flag s" | "snd_syn_flag s" "snd_old_syn_flag s"
    by blast
  then show ?thesis
  proof cases
    case 1
    let ?seg = "TCPSegment_default\<lparr>ts_header := TCPHeader_default\<lparr>syn := True\<rparr>\<rparr>"
    let ?seg' = "?seg\<lparr>ts_header := (ts_header ?seg)\<lparr>seqno := wrap (snd_next_seqno s) (snd_isn s)\<rparr>\<rparr>"
    let ?t = "TCPSender_make_segment_and_send s ?seg"
    have z: "snd_next_seqno s = 0" "bs_num_read (snd_stream s) = 0" "\<not> snd_fin_sent s" "\<not> snd_old_syn_flag s"
      "snd_recv_ackno s = 0"
      using inv 1 unfolding snd_inv_def by auto
    have at: "snd_seg_at S (snd_isn s) (snd_next_seqno s) ?seg'" and len: "slen ?seg' = 1"
      by (simp_all add: z snd_seg_at_def seg_syn_def TCPHeader_default_def TCPSegment_default_def wrap_def
          TCPSegment_length_in_sequence_space_def add64_def)
    note mk = make_segment_inv[OF inv at refl, unfolded len]
    have fr: "snd_isn ?t = snd_isn s" "snd_recv_ackno ?t = 0" "snd_stream ?t = snd_stream s"
      "\<not> snd_old_syn_flag ?t" "snd_window_size ?t = snd_window_size s" "\<not> snd_fin_sent ?t"
      "snd_time ?t = snd_time s" "snd_retransmission_timeout ?t = snd_retransmission_timeout s"
      "snd_initial_retransmission_timeout ?t = snd_initial_retransmission_timeout s"
      "snd_consecutive_retransmissions ?t = snd_consecutive_retransmissions s"
      using z by (simp_all add: TCPSender_make_segment_and_send_def Let_def)
    let ?s' = "?t\<lparr>snd_syn_flag := True, snd_state := running\<rparr>"
    have "snd_inv S ?s'" unfolding snd_inv_def using mk b(1-4,10) fr z by simp
    moreover have "snd_frame s ?s'" using mk(5,6) fr z by (simp add: snd_frame_def)
    ultimately show ?thesis using 1 z by (simp add: TCPSender_fill_window_def snd_flight_def)
  next
    case 2
    then show ?thesis using inv by (simp add: TCPSender_fill_window_def snd_frame_refl)
  next
    case 3
    from fill_loop_ok[OF inv 3(1), of "if snd_window_size s \<noteq> 0 then snd_window_size s else 1"]
    obtain s' where "TCPSender_fill_loop (if snd_window_size s \<noteq> 0 then snd_window_size s else 1) s = Some (Inr s')"
      and post: "fill_post S (if snd_window_size s \<noteq> 0 then snd_window_size s else 1) s s'" by blast
    then have "TCPSender_fill_window s = Inr s'" using 3 by (simp add: TCPSender_fill_window_def Let_def)
    then show ?thesis using post unfolding fill_post_def by blast
  qed
qed

section \<open>Acknowledgments\<close>

text \<open>
  Popping: exactly the outstanding segments that end at or before the acknowledged number leave the
  queue, provided less than \<open>2 ^ 31\<close> sequence numbers are in flight.
\<close>

lemma pop_acked_ok:
  assumes "segs_chain S (snd_isn s) (snd_recv_ackno s) segs (snd_next_seqno s)"
    and "snd_flight s < 2 ^ 31" and "snd_next_seqno s < 2 ^ 63"
    and "snd_bytes_in_flight s = snd_flight s" and "snd_segments_outgoing s = pre @ segs"
  shows "\<exists>popped rest a. segs = popped @ rest \<and>
    segs_chain S (snd_isn s) (snd_recv_ackno s) popped a \<and> segs_chain S (snd_isn s) a rest (snd_next_seqno s) \<and>
    TCPSender_pop_acked k segs s =
      s\<lparr>snd_segments_outgoing := rest, snd_recv_ackno := a, snd_bytes_in_flight := snd_next_seqno s - a\<rparr> \<and>
    (a = snd_recv_ackno s \<or> a \<le> k) \<and> (rest = [] \<or> k < a + slen (hd rest))"
  using assms
proof (induction segs arbitrary: s pre)
  case Nil
  then show ?case by (intro exI[of _ "[]"] exI[of _ "snd_next_seqno s"]) (auto simp: snd_flight_def)
next
  case (Cons seg segs)
  let ?a = "snd_recv_ackno s"
  have at: "snd_seg_at S (snd_isn s) ?a seg" and pos: "0 < slen seg"
    and ch: "segs_chain S (snd_isn s) (?a + slen seg) segs (snd_next_seqno s)"
    using Cons.prems(1) by simp_all
  have le: "?a + slen seg \<le> snd_next_seqno s" by (rule segs_chain_le[OF ch])
  have sq: "seqno (ts_header seg) = wrap ?a (snd_isn s)"
    using at by (auto simp: snd_seg_at_def seg_syn_def seg_at_def wrap_def split: if_splits)
  have uw: "unwrap (seqno (ts_header seg)) (snd_isn s) (snd_next_seqno s) = ?a"
    unfolding sq using Cons.prems(2,3) le pos by (intro unwrap_wrap) (auto simp: snd_flight_def)
  have ad: "add64 ?a (slen seg) = ?a + slen seg" using le Cons.prems(3) by (simp add: add64_exact)
  show ?case
  proof (cases "?a + slen seg \<le> k")
    case True
    let ?s = "s\<lparr>snd_bytes_in_flight := sub64 (snd_bytes_in_flight s) (slen seg), snd_recv_ackno := ?a + slen seg\<rparr>"
    have bif: "sub64 (snd_bytes_in_flight s) (slen seg) = snd_next_seqno s - (?a + slen seg)"
      using Cons.prems(2,4) le by (simp add: snd_flight_def sub64_exact)
    have "snd_flight ?s < 2 ^ 31" using Cons.prems(2) by (simp add: snd_flight_def)
    moreover have "snd_bytes_in_flight ?s = snd_flight ?s" using bif by (simp add: snd_flight_def)
    ultimately obtain popped rest a where ih: "segs = popped @ rest"
      "segs_chain S (snd_isn s) (?a + slen seg) popped a" "segs_chain S (snd_isn s) a rest (snd_next_seqno s)"
      "TCPSender_pop_acked k segs ?s =
         ?s\<lparr>snd_segments_outgoing := rest, snd_recv_ackno := a, snd_bytes_in_flight := snd_next_seqno s - a\<rparr>"
      "a = ?a + slen seg \<or> a \<le> k" "rest = [] \<or> k < a + slen (hd rest)"
      using Cons.IH[of ?s "pre @ [seg]"] ch Cons.prems(3,5) by auto
    show ?thesis
      using ih True at pos uw ad
      by (intro exI[of _ "seg # popped"] exI[of _ rest] exI[of _ a]) (auto simp: Let_def)
  next
    case False
    have "TCPSender_pop_acked k (seg # segs) s =
        s\<lparr>snd_segments_outgoing := seg # segs, snd_recv_ackno := ?a, snd_bytes_in_flight := snd_next_seqno s - ?a\<rparr>"
      using False uw ad Cons.prems(4)
      by (intro tcp_sender.equality) (simp_all add: snd_flight_def Let_def)
    then show ?thesis
      using Cons.prems(1) False by (intro exI[of _ "[]"] exI[of _ "seg # segs"] exI[of _ ?a]) auto
  qed
qed

text \<open>What a new acknowledgment does: \<open>k\<close> is the absolute number, \<open>a\<close> where the rest of the queue starts.\<close>

definition ack_post :: "byte list \<Rightarrow> nat \<Rightarrow> tcp_sender \<Rightarrow> tcp_sender \<Rightarrow> bool" where
  "ack_post S k s s' \<longleftrightarrow>
     (\<exists>popped rest new.
        snd_segments_outgoing s = popped @ rest \<and> snd_segments_outgoing s' = rest @ new \<and>
        segs_chain S (snd_isn s) (snd_recv_ackno s) popped (snd_recv_ackno s') \<and>
        snd_segments_out s' = snd_segments_out s @ new \<and>
        (rest = [] \<or> k < snd_recv_ackno s' + slen (hd rest))) \<and>
     (snd_recv_ackno s' = snd_recv_ackno s \<or> snd_recv_ackno s' \<le> k) \<and>
     snd_time s' = 0 \<and> snd_consecutive_retransmissions s' = 0 \<and>
     snd_retransmission_timeout s' = unat (snd_initial_retransmission_timeout s') \<and>
     (snd_segments_outgoing s' = [] \<longrightarrow> snd_state s' = stop)"

definition snd_mono :: "tcp_sender \<Rightarrow> tcp_sender \<Rightarrow> bool" where
  "snd_mono s s' \<longleftrightarrow>
     snd_isn s' = snd_isn s \<and> snd_recv_ackno s \<le> snd_recv_ackno s' \<and> snd_next_seqno s \<le> snd_next_seqno s' \<and>
     bs_if_end (snd_stream s') = bs_if_end (snd_stream s) \<and> bs_capacity (snd_stream s') = bs_capacity (snd_stream s)"

lemma snd_inv_update:
  "snd_inv S (s\<lparr>snd_window_size := w\<rparr>) = snd_inv S s"
  "snd_inv S (s\<lparr>snd_state := st\<rparr>) = snd_inv S s"
  "snd_inv S (s\<lparr>snd_time := t\<rparr>) = snd_inv S s"
  "snd_inv S (s\<lparr>snd_retransmission_timeout := u\<rparr>) = snd_inv S s"
  "snd_inv S (s\<lparr>snd_consecutive_retransmissions := c\<rparr>) = snd_inv S s"
  "snd_inv S (s\<lparr>snd_consecutive_retransmissions := c, snd_retransmission_timeout := u\<rparr>) = snd_inv S s"
  "snd_inv S (s\<lparr>snd_consecutive_retransmissions := c, snd_retransmission_timeout := u, snd_time := t\<rparr>) = snd_inv S s"
  "snd_inv S (s\<lparr>snd_consecutive_retransmissions := c, snd_retransmission_timeout := u, snd_time := t,
      snd_state := st\<rparr>) = snd_inv S s"
  unfolding snd_inv_def by (simp_all cong: if_cong split del: if_split)

lemma ack_received_ok:
  fixes ackn :: WrappingInt32
  assumes inv: "snd_inv S s" and fl: "snd_flight s < 2 ^ 31"
  defines "k \<equiv> unwrap ackn (snd_isn s) (snd_next_seqno s)"
  shows "\<exists>b s'. TCPSender_ack_received s ackn w = Inr (b, s') \<and> snd_inv S s' \<and> snd_mono s s' \<and>
    (if snd_next_seqno s < k then \<not> b \<and> s' = s
     else if k \<le> snd_recv_ackno s then b \<and> s' = s\<lparr>snd_window_size := w\<rparr>
     else b \<and> snd_window_size s' = w \<and> snd_old_syn_flag s' \<and> ack_post S k s s' \<and>
       snd_filled (if w \<noteq> 0 then w else 1) s')"
proof -
  note b = snd_inv_basic[OF inv]
  consider "snd_next_seqno s < k" | "k \<le> snd_next_seqno s" "k \<le> snd_recv_ackno s"
    | "k \<le> snd_next_seqno s" "snd_recv_ackno s < k" by linarith
  then show ?thesis
  proof cases
    case 1
    then show ?thesis using inv
      by (auto simp: TCPSender_ack_received_def k_def[symmetric] Let_def snd_mono_def)
  next
    case 2
    then show ?thesis using inv
      by (auto simp: TCPSender_ack_received_def k_def[symmetric] Let_def snd_mono_def snd_inv_update)
  next
    case 3
    let ?s2 = "s\<lparr>snd_window_size := w, snd_old_syn_flag := True\<rparr>"
    have syn: "snd_syn_flag s" using 3 b(5) by (auto split: if_splits)
    have pre: "segs_chain S (snd_isn ?s2) (snd_recv_ackno ?s2) (snd_segments_outgoing s) (snd_next_seqno ?s2)"
      "snd_flight ?s2 < 2 ^ 31" "snd_next_seqno ?s2 < 2 ^ 63" "snd_bytes_in_flight ?s2 = snd_flight ?s2"
      "snd_segments_outgoing ?s2 = [] @ snd_segments_outgoing s"
      using b(8,9) fl snd_small(2)[OF inv] by (simp_all add: snd_flight_def)
    obtain popped rest a where pop: "snd_segments_outgoing s = popped @ rest"
      "segs_chain S (snd_isn s) (snd_recv_ackno s) popped a" "segs_chain S (snd_isn s) a rest (snd_next_seqno s)"
      "TCPSender_pop_acked k (snd_segments_outgoing s) ?s2 =
         ?s2\<lparr>snd_segments_outgoing := rest, snd_recv_ackno := a, snd_bytes_in_flight := snd_next_seqno s - a\<rparr>"
      "a = snd_recv_ackno s \<or> a \<le> k" "rest = [] \<or> k < a + slen (hd rest)"
      using pop_acked_ok[OF pre, of k, simplified] by blast
    define s3 where "s3 = ?s2\<lparr>snd_segments_outgoing := rest, snd_recv_ackno := a,
      snd_bytes_in_flight := snd_next_seqno s - a\<rparr>"
    have inv3: "snd_inv S s3"
      using inv pop(3) segs_chain_le[OF pop(3)] syn unfolding snd_inv_def s3_def by simp
    have f3: "snd_old_syn_flag s3" "snd_window_size s3 = w" by (simp_all add: s3_def)
    obtain s4 where fw: "TCPSender_fill_window s3 = Inr s4" and inv4: "snd_inv S s4" and fr4: "snd_frame s3 s4"
      and fl4: "snd_flight s3 \<le> snd_flight s4" and fp: "fill_post S (if w \<noteq> 0 then w else 1) s3 s4"
      using fill_window_ok[OF inv3, unfolded f3(2)] f3(1) by blast
    define s5 where "s5 = s4\<lparr>snd_time := 0, snd_consecutive_retransmissions := 0,
      snd_retransmission_timeout := unat (snd_initial_retransmission_timeout s4)\<rparr>"
    define s6 where "s6 = (if snd_segments_outgoing s5 = [] then s5\<lparr>snd_state := stop\<rparr> else s5)"
    have call: "TCPSender_ack_received s ackn w = Inr (True, s6)"
      using 3 pop(4) fw
      by (simp add: TCPSender_ack_received_def k_def[symmetric] Let_def s3_def s5_def s6_def)
    have inv6: "snd_inv S s6" using inv4 by (auto simp: s6_def s5_def snd_inv_def)
    have f: "snd_isn s6 = snd_isn s" "snd_recv_ackno s6 = a" "snd_next_seqno s6 = snd_next_seqno s4"
      "snd_window_size s6 = w" "snd_old_syn_flag s6" "snd_stream s6 = snd_stream s4"
      "snd_segments_outgoing s6 = snd_segments_outgoing s4" "snd_segments_out s6 = snd_segments_out s4"
      "snd_fin_sent s6 = snd_fin_sent s4" "snd_recv_ackno s4 = a"
      "bs_if_end (snd_stream s4) = bs_if_end (snd_stream s)" "bs_capacity (snd_stream s4) = bs_capacity (snd_stream s)"
      using fr4 by (simp_all add: snd_frame_def s6_def s5_def s3_def)
    have "snd_recv_ackno s \<le> a" by (rule segs_chain_le[OF pop(2)])
    moreover have "snd_next_seqno s \<le> snd_next_seqno s4"
      using fl4 f segs_chain_le[OF pop(3)] snd_inv_basic(7)[OF inv4] by (simp add: snd_flight_def s3_def)
    ultimately have mono: "snd_mono s s6" using f by (simp add: snd_mono_def)
    obtain new where new: "snd_segments_out s4 = snd_segments_out s @ new" "snd_segments_outgoing s4 = rest @ new"
      using fr4 by (auto simp: snd_frame_def s3_def)
    have t: "snd_time s6 = 0" "snd_consecutive_retransmissions s6 = 0"
      "snd_retransmission_timeout s6 = unat (snd_initial_retransmission_timeout s6)"
      "snd_segments_outgoing s6 = [] \<longrightarrow> snd_state s6 = stop"
      by (simp_all add: s6_def s5_def)
    have "ack_post S k s s6"
      unfolding ack_post_def f(2,7,8) new by (intro conjI exI[of _ popped] exI[of _ rest] exI[of _ new] refl pop t)
        (use t(4) f(7) new in simp)
    moreover have "snd_filled (if w \<noteq> 0 then w else 1) s6"
      using fp f unfolding fill_post_def snd_filled_def TCPSender_room_def by simp
    ultimately show ?thesis using 3 call inv6 mono f by auto
  qed
qed

section \<open>Time and bare segments\<close>

lemma snd_inv_out:
  assumes "snd_inv S s" and "seg_bare seg \<or> (\<exists>a. snd_seg_at S (snd_isn s) a seg)"
  shows "snd_inv S (s\<lparr>snd_segments_out := snd_segments_out s @ [seg]\<rparr>)"
  using assms unfolding snd_inv_def by (auto split del: if_split cong: if_cong)

lemma tick_inv:
  assumes inv: "snd_inv S s" shows "snd_inv S (TCPSender_tick s ms)"
proof -
  let ?s2 = "s\<lparr>snd_consecutive_retransmissions := snd_consecutive_retransmissions s + 1,
    snd_retransmission_timeout := mul64 (snd_retransmission_timeout s) 2, snd_time := 0\<rparr>"
  have inv2: "snd_inv S ?s2" using inv by (simp add: snd_inv_update)
  have "snd_inv S (?s2\<lparr>snd_segments_out := snd_segments_out ?s2 @ [seg]\<rparr>)"
    if "snd_segments_outgoing s = seg # segs" for seg segs
    using snd_inv_basic(8)[OF inv] that by (intro snd_inv_out[OF inv2]) auto
  then show ?thesis
    using inv inv2 by (cases "snd_segments_outgoing s") (simp_all add: TCPSender_tick_def Let_def snd_inv_update)
qed

lemma send_empty_inv: "snd_inv S s \<Longrightarrow> snd_inv S (TCPSender_send_empty_segment s)"
  unfolding TCPSender_send_empty_segment_def Let_def
  by (rule snd_inv_out) (simp_all add: seg_bare_def TCPSegment_default_def TCPHeader_default_def)

section \<open>Runs\<close>

datatype snd_op =
    Snd_write "byte list"
  | Snd_end
  | Snd_fill
  | Snd_ack WrappingInt32 u16
  | Snd_tick u64
  | Snd_empty

fun snd_step :: "tcp_sender \<Rightarrow> snd_op \<Rightarrow> tcp_sender result" where
  "snd_step s (Snd_write d) = Inr (s\<lparr>snd_stream := snd (ByteStream_write (snd_stream s) d)\<rparr>)"
| "snd_step s Snd_end = Inr (s\<lparr>snd_stream := ByteStream_end_input (snd_stream s)\<rparr>)"
| "snd_step s Snd_fill = TCPSender_fill_window s"
| "snd_step s (Snd_ack a w) = rbind (TCPSender_ack_received s a w) (\<lambda>(b, s'). Inr s')"
| "snd_step s (Snd_tick ms) = Inr (TCPSender_tick s ms)"
| "snd_step s Snd_empty = Inr (TCPSender_send_empty_segment s)"

text \<open>
  The application writes the stream in order and ends it once, after its last byte; an
  acknowledgment is handled while less than \<open>2 ^ 31\<close> numbers are in flight.
\<close>

fun snd_op_ok :: "byte list \<Rightarrow> tcp_sender \<Rightarrow> snd_op \<Rightarrow> bool" where
  "snd_op_ok S s (Snd_write d) =
     (\<not> bs_if_end (snd_stream s) \<and> piece_of S (bs_num_read (snd_stream s) + bs_size (snd_stream s)) d)"
| "snd_op_ok S s Snd_end = (bs_num_read (snd_stream s) + bs_size (snd_stream s) = length S)"
| "snd_op_ok S s (Snd_ack a w) = (snd_next_seqno s < snd_recv_ackno s + 2 ^ 31)"
| "snd_op_ok S s _ = True"

lemma snd_write_inv:
  assumes inv: "snd_inv S s" and ok: "snd_op_ok S s (Snd_write d)"
  shows "snd_inv S (s\<lparr>snd_stream := snd (ByteStream_write (snd_stream s) d)\<rparr>)"
proof -
  let ?st = "snd_stream s"
  let ?n = "fst (ByteStream_write ?st d)" and ?st' = "snd (ByteStream_write ?st d)"
  note b = snd_inv_basic[OF inv]
  have n: "?n \<le> length d" using write_length[OF b(1), of d] by simp
  have d: "d = substr S (bs_num_read ?st + bs_size ?st) (length d)"
    and len: "bs_num_read ?st + bs_size ?st + length d \<le> length S" and open_st: "\<not> bs_if_end ?st"
    using ok by (simp_all add: piece_of_def)
  have "take ?n d = substr S (bs_num_read ?st + bs_size ?st) ?n"
    using n by (subst d) (simp add: take_substr)
  then have bytes: "bs_bytes ?st' = substr S (bs_num_read ?st) (bs_size ?st + ?n)"
    unfolding write_bytes b(4) by (simp add: substr_append)
  have nofin: "\<not> snd_fin_sent s" using b(6) open_st by (auto simp: ByteStream_eof_def)
  show ?thesis
    using inv write_inv[OF b(1), of d] write_counts(1)[OF b(1), of d] bytes n len open_st nofin
    unfolding snd_inv_def by (auto split del: if_split cong: if_cong)
qed

lemma snd_end_inv:
  assumes inv: "snd_inv S s" and ok: "snd_op_ok S s Snd_end"
  shows "snd_inv S (s\<lparr>snd_stream := ByteStream_end_input (snd_stream s)\<rparr>)"
  using assms unfolding snd_inv_def
  by (auto simp: ByteStream_eof_def split del: if_split cong: if_cong)

lemma tick_level: "snd_recv_ackno (TCPSender_tick s ms) = snd_recv_ackno s"
  by (simp add: TCPSender_tick_def Let_def split: list.splits)

interpretation sender: step_system snd_step "snd_op_ok S" "snd_inv S" snd_recv_ackno for S
proof
  fix s p assume inv: "snd_inv S s" and ok: "snd_op_ok S s p"
  show "\<exists>s'. snd_step s p = Inr s' \<and> snd_inv S s' \<and> snd_recv_ackno s \<le> snd_recv_ackno s'"
  proof (cases p)
    case (Snd_write d)
    then show ?thesis using snd_write_inv[OF inv] ok by simp
  next
    case Snd_end
    then show ?thesis using snd_end_inv[OF inv] ok by simp
  next
    case Snd_fill
    then show ?thesis using fill_window_ok[OF inv] by (auto simp: snd_frame_def)
  next
    case (Snd_ack a w)
    then have "snd_flight s < 2 ^ 31" using ok by (simp add: snd_flight_def)
    from ack_received_ok[OF inv this, of a w] Snd_ack show ?thesis by (auto simp: snd_mono_def)
  next
    case (Snd_tick ms)
    then show ?thesis using tick_inv[OF inv] by (simp add: tick_level)
  next
    case Snd_empty
    then show ?thesis using send_empty_inv[OF inv]
      by (simp add: TCPSender_send_empty_segment_def Let_def)
  qed
qed

section \<open>Timeouts in a row\<close>

fun snd_expire :: "nat \<Rightarrow> tcp_sender \<Rightarrow> tcp_sender" where
  "snd_expire 0 s = s"
| "snd_expire (Suc n) s = snd_expire n (TCPSender_tick s (snd_retransmission_timeout s))"

lemma expire_ok:
  assumes "snd_state s = running" and "snd_segments_outgoing s = seg # segs"
    and "snd_time s + snd_retransmission_timeout s * 2 ^ n < two64"
  shows "snd_expire n s = s\<lparr>snd_consecutive_retransmissions := snd_consecutive_retransmissions s + of_nat n,
     snd_retransmission_timeout := snd_retransmission_timeout s * 2 ^ n,
     snd_time := (if n = 0 then snd_time s else 0),
     snd_segments_out := snd_segments_out s @ replicate n seg\<rparr>"
  using assms
proof (induction n arbitrary: s)
  case 0
  then show ?case by simp
next
  case (Suc n)
  let ?r = "snd_retransmission_timeout s"
  have "?r * 2 \<le> ?r * 2 ^ Suc n" by simp
  then have b: "snd_time s + ?r < two64" "?r * 2 < two64" using Suc.prems(3) by linarith+
  have tick: "TCPSender_tick s ?r = s\<lparr>snd_consecutive_retransmissions := snd_consecutive_retransmissions s + 1,
      snd_retransmission_timeout := ?r * 2, snd_time := 0, snd_segments_out := snd_segments_out s @ [seg]\<rparr>"
    using Suc.prems(1,2) b by (simp add: TCPSender_tick_def Let_def add64_exact mul64_exact)
  have "0 + ?r * 2 * 2 ^ n < two64" using Suc.prems(3) by (simp add: mult.assoc)
  with Suc.IH[of "TCPSender_tick s ?r"] Suc.prems(1,2) show ?case
    unfolding snd_expire.simps tick
    by (simp add: replicate_append_same mult.assoc add.assoc)
qed

section \<open>Properties\<close>

text \<open>C16: whatever the application, the clock and the acknowledgments do, the sender never fails; its
  outstanding segments tile the sequence numbers from the last acknowledgment to the next one to
  send; \<open>bytes_in_flight\<close> is their total length; and every segment it emits is bare, the SYN, or a
  piece of the stream at its place.\<close>

theorem sender_invariant:
  assumes "c < two64" and "length S < 2 ^ 62" and "ops_ok snd_step (snd_op_ok S) (TCPSender_new c t i rnd) ops"
  shows "\<exists>s. run_steps snd_step (TCPSender_new c t i rnd) ops = Inr s \<and>
    segs_chain S (snd_isn s) (snd_recv_ackno s) (snd_segments_outgoing s) (TCPSender_next_seqno_absolute s) \<and>
    TCPSender_bytes_in_flight s = TCPSender_next_seqno_absolute s - snd_recv_ackno s \<and>
    TCPSender_bytes_in_flight s =
      sum_list (map TCPSegment_length_in_sequence_space (snd_segments_outgoing s)) \<and>
    (\<forall>seg\<in>set (snd_segments_out s). seg_bare seg \<or> (\<exists>a. snd_seg_at S (snd_isn s) a seg))"
proof -
  from sender.run_inv[OF snd_new_inv[OF assms(1,2)] assms(3)]
  obtain s where run: "run_steps snd_step (TCPSender_new c t i rnd) ops = Inr s" and inv: "snd_inv S s" by blast
  note b = snd_inv_basic[OF inv]
  have "\<forall>seg\<in>set (snd_segments_out s). seg_bare seg \<or> (\<exists>a. snd_seg_at S (snd_isn s) a seg)"
    using inv unfolding snd_inv_def by blast
  then show ?thesis
    using run b(8,9) segs_chain_sum[OF b(8)]
    by (intro exI[of _ s]) (simp add: TCPSender_bytes_in_flight_def TCPSender_next_seqno_absolute_def)
qed

lemma sender_example_ok:
  "ops_ok snd_step (snd_op_ok [7, 8, 9]) (TCPSender_new 8 1000 (Some 5) 0)
     [Snd_fill, Snd_write [7, 8, 9], Snd_end, Snd_ack 6 4, Snd_tick 1000]"
  by code_simp

theorem sender_invariant_witness:
  "\<exists>s. run_steps snd_step (TCPSender_new 8 1000 (Some 5) 0)
      [Snd_fill, Snd_write [7, 8, 9], Snd_end, Snd_ack 6 4, Snd_tick 1000] = Inr s \<and>
    TCPSender_bytes_in_flight s = TCPSender_next_seqno_absolute s - snd_recv_ackno s"
  using sender_invariant[OF _ _ sender_example_ok] by (auto simp del: run_steps.simps)


lemma sender_connected_example:
  "\<exists>s. run_steps snd_step (TCPSender_new 8 1000 (Some 5) 0) [Snd_fill, Snd_ack 6 2, Snd_write [7, 8, 9]] = Inr s \<and>
    snd_inv [7, 8, 9] s \<and> snd_old_syn_flag s \<and> snd_next_seqno s = 1 \<and> snd_recv_ackno s = 1 \<and>
    snd_isn s = 5 \<and> snd_window_size s = 2"
proof -
  let ?ops = "[Snd_fill, Snd_ack 6 2, Snd_write [7, 8, 9]]"
  have "ops_ok snd_step (snd_op_ok [7, 8, 9]) (TCPSender_new 8 1000 (Some 5) 0) ?ops" by code_simp
  moreover have "snd_inv [7, 8, 9] (TCPSender_new 8 1000 (Some 5) 0)" by (rule snd_new_inv) simp_all
  ultimately obtain s where s: "run_steps snd_step (TCPSender_new 8 1000 (Some 5) 0) ?ops = Inr s" "snd_inv [7, 8, 9] s"
    using sender.run_inv by blast
  have "case run_steps snd_step (TCPSender_new 8 1000 (Some 5) 0) ?ops of Inl _ \<Rightarrow> False
    | Inr s \<Rightarrow> snd_old_syn_flag s \<and> snd_next_seqno s = 1 \<and> snd_recv_ackno s = 1 \<and> snd_isn s = 5 \<and> snd_window_size s = 2"
    by code_simp
  with s show ?thesis unfolding s(1) by auto
qed


text \<open>C9: an acknowledgment beyond what was sent is refused without any change; one that brings nothing
  new only updates the window; any other pops exactly the outstanding segments that end at or before
  it, refills the window, and restarts the timer at its initial value.\<close>

theorem ack_received_correct:
  assumes "snd_inv S s" and "snd_next_seqno s < snd_recv_ackno s + 2 ^ 31"
    and "k = unwrap ackn (snd_isn s) (TCPSender_next_seqno_absolute s)"
  shows "\<exists>b s'. TCPSender_ack_received s ackn w = Inr (b, s') \<and> snd_inv S s' \<and>
    snd_recv_ackno s \<le> snd_recv_ackno s' \<and>
    (if TCPSender_next_seqno_absolute s < k then \<not> b \<and> s' = s
     else if k \<le> snd_recv_ackno s then b \<and> s' = s\<lparr>snd_window_size := w\<rparr>
     else b \<and> snd_window_size s' = w \<and> ack_post S k s s')"
proof -
  have "snd_flight s < 2 ^ 31" using assms(2) by (simp add: snd_flight_def)
  from ack_received_ok[OF assms(1) this, of ackn w] assms(3) show ?thesis
    unfolding TCPSender_next_seqno_absolute_def snd_mono_def by metis
qed

theorem ack_received_correct_witness:
  "\<exists>s s'. run_steps snd_step (TCPSender_new 8 1000 (Some 5) 0) [Snd_fill, Snd_ack 6 2, Snd_write [7, 8, 9]] = Inr s \<and>
    TCPSender_ack_received s 8 2 = Inr (False, s') \<and> s' = s"
proof -
  obtain s where s: "run_steps snd_step (TCPSender_new 8 1000 (Some 5) 0) [Snd_fill, Snd_ack 6 2, Snd_write [7, 8, 9]] = Inr s"
    "snd_inv [7, 8, 9] s" "snd_next_seqno s = 1" "snd_recv_ackno s = 1" "snd_isn s = 5"
    using sender_connected_example by blast
  have "unwrap 8 5 1 = 3" by code_simp
  then show ?thesis
    using ack_received_correct[OF s(2), of "unwrap 8 5 1" 8 2] s
    by (auto simp: TCPSender_next_seqno_absolute_def simp del: run_steps.simps)
qed

text \<open>C18: every timeout in a row retransmits the oldest outstanding segment, counts one more
  retransmission and doubles the timeout: after \<open>n\<close> of them the timeout is \<open>2 ^ n\<close> times the first.\<close>

theorem exponential_backoff:
  assumes "snd_state s = running" and "snd_segments_outgoing s = seg # segs"
    and "snd_time s + snd_retransmission_timeout s * 2 ^ n < two64"
  shows "snd_retransmission_timeout (snd_expire n s) = snd_retransmission_timeout s * 2 ^ n \<and>
    TCPSender_consecutive_retransmissions (snd_expire n s) =
      TCPSender_consecutive_retransmissions s + of_nat n \<and>
    snd_segments_out (snd_expire n s) = snd_segments_out s @ replicate n seg \<and>
    snd_segments_outgoing (snd_expire n s) = snd_segments_outgoing s"
  unfolding expire_ok[OF assms] by (simp add: TCPSender_consecutive_retransmissions_def)

theorem exponential_backoff_witness:
  "\<exists>s seg. TCPSender_fill_window (TCPSender_new 8 1000 (Some 5) 0) = Inr s \<and>
    snd_retransmission_timeout (snd_expire 3 s) = 8000 \<and> snd_segments_out (snd_expire 3 s) = [seg, seg, seg, seg]"
proof -
  let ?seg = "TCPSegment_default\<lparr>ts_header := TCPHeader_default\<lparr>syn := True, seqno := 5\<rparr>\<rparr>"
  define s where "s = (case TCPSender_fill_window (TCPSender_new 8 1000 (Some 5) 0) of Inr s \<Rightarrow> s)"
  have s: "TCPSender_fill_window (TCPSender_new 8 1000 (Some 5) 0) = Inr s" "snd_state s = running"
    "snd_segments_outgoing s = [?seg]" "snd_segments_out s = [?seg]" "snd_time s = 0" "snd_retransmission_timeout s = 1000"
    unfolding s_def
    by (simp_all add: TCPSender_fill_window_def TCPSender_new_def TCPSender_make_segment_and_send_def
        TCPSegment_default_def TCPHeader_default_def wrap_def Let_def)
  then show ?thesis
    using exponential_backoff[of s ?seg "[]" 3] by (auto simp: numeral_3_eq_3)
qed

section \<open>Where the code and its documentation part\<close>

text \<open>
  When the peer shrinks its window below what is in flight, the room wraps around and the sender
  pours out everything it has; and the FIN is sent even when the window has no room left for it.
\<close>

lemma shrunk_window_overrun:
  assumes "snd_inv S s" and "snd_old_syn_flag s" and "max 1 (unat (snd_window_size s)) < TCPSender_bytes_in_flight s"
  shows "\<exists>s'. TCPSender_fill_window s = Inr s' \<and> ByteStream_buffer_empty (snd_stream s')"
proof -
  let ?w = "if snd_window_size s \<noteq> 0 then snd_window_size s else 1"
  obtain s' where s': "TCPSender_fill_window s = Inr s'" "fill_post S ?w s s'"
    using fill_window_ok[OF assms(1)] assms(2) by blast
  have w: "unat ?w = max 1 (unat (snd_window_size s))"
    using unat_gt_0[of "snd_window_size s"] by (auto simp: max_def)
  have inv': "snd_inv S s'" and fl: "unat ?w < snd_flight s'"
    using s'(2) assms(3) snd_inv_basic(9)[OF assms(1)] w
    by (simp_all add: fill_post_def TCPSender_bytes_in_flight_def snd_flight_def)
  have "snd_flight s' < two64" using snd_small(2)[OF inv'] by (simp add: snd_flight_def)
  then have "TCPSender_room ?w s' \<noteq> 0" using room_eq[OF inv', of ?w] fl by simp
  then show ?thesis using s' by (auto simp: fill_post_def snd_filled_def)
qed

lemma fin_beyond_window:
  "case run_steps snd_step (TCPSender_new 100 1000 (Some 5) 0)
      [Snd_fill, Snd_ack 6 2, Snd_write [1, 2], Snd_end, Snd_fill] of
     Inr s \<Rightarrow> TCPSender_bytes_in_flight s = 3 \<and> snd_window_size s = 2 | Inl _ \<Rightarrow> False"
  by code_simp

end
