(* ===== verification/TCP_Connection.thy ===== *)
theory TCP_Connection
  imports Sender_Correct
begin

text \<open>
  A TCP endpoint (\<open>libsponge/tcp_connection.hh\<close>, \<open>.cc\<close>) and the summary of its state
  (\<open>tcp_helpers/tcp_state.hh\<close>, \<open>.cc\<close>).  The connection owns a sender, a receiver and a queue of outbound
  segments; every handler is modelled whole, with its early returns.  \<open>front\<close> of an empty queue is
  \<open>Undefined_behaviour\<close>.
\<close>

section \<open>TCPState\<close>

definition RECEIVER_ERROR :: string where
  "RECEIVER_ERROR = ''error (connection was reset)''"

definition RECEIVER_LISTEN :: string where
  "RECEIVER_LISTEN = ''waiting for stream to begin (listening for SYN)''"

definition RECEIVER_SYN_RECV :: string where
  "RECEIVER_SYN_RECV = ''stream started''"

definition RECEIVER_FIN_RECV :: string where
  "RECEIVER_FIN_RECV = ''stream finished''"

definition SENDER_ERROR :: string where
  "SENDER_ERROR = ''error (connection was reset)''"

definition SENDER_CLOSED :: string where
  "SENDER_CLOSED = ''waiting for stream to begin (no SYN sent)''"

definition SENDER_SYN_SENT :: string where
  "SENDER_SYN_SENT = ''stream started but nothing acknowledged''"

definition SENDER_SYN_ACKED :: string where
  "SENDER_SYN_ACKED = ''stream ongoing''"

definition SENDER_FIN_SENT :: string where
  "SENDER_FIN_SENT = ''stream finished (FIN sent) but not fully acknowledged''"

definition SENDER_FIN_ACKED :: string where
  "SENDER_FIN_ACKED = ''stream finished and fully acknowledged''"

datatype official_state =
    LISTEN | SYN_RCVD | SYN_SENT | ESTABLISHED | CLOSE_WAIT | LAST_ACK | FIN_WAIT_1 | FIN_WAIT_2
  | CLOSING | TIME_WAIT | CLOSED | RESET

record tcp_state =
  st_sender :: string
  st_receiver :: string
  st_active :: bool
  st_linger :: bool

definition TCPState_of_State :: "official_state \<Rightarrow> tcp_state" where
  "TCPState_of_State state =
     (case state of
        LISTEN \<Rightarrow> \<lparr>st_sender = SENDER_CLOSED, st_receiver = RECEIVER_LISTEN, st_active = True, st_linger = True\<rparr>
      | SYN_RCVD \<Rightarrow> \<lparr>st_sender = SENDER_SYN_SENT, st_receiver = RECEIVER_SYN_RECV, st_active = True, st_linger = True\<rparr>
      | SYN_SENT \<Rightarrow> \<lparr>st_sender = SENDER_SYN_SENT, st_receiver = RECEIVER_LISTEN, st_active = True, st_linger = True\<rparr>
      | ESTABLISHED \<Rightarrow> \<lparr>st_sender = SENDER_SYN_ACKED, st_receiver = RECEIVER_SYN_RECV, st_active = True, st_linger = True\<rparr>
      | CLOSE_WAIT \<Rightarrow> \<lparr>st_sender = SENDER_SYN_ACKED, st_receiver = RECEIVER_FIN_RECV, st_active = True, st_linger = False\<rparr>
      | LAST_ACK \<Rightarrow> \<lparr>st_sender = SENDER_FIN_SENT, st_receiver = RECEIVER_FIN_RECV, st_active = True, st_linger = False\<rparr>
      | CLOSING \<Rightarrow> \<lparr>st_sender = SENDER_FIN_SENT, st_receiver = RECEIVER_FIN_RECV, st_active = True, st_linger = True\<rparr>
      | FIN_WAIT_1 \<Rightarrow> \<lparr>st_sender = SENDER_FIN_SENT, st_receiver = RECEIVER_SYN_RECV, st_active = True, st_linger = True\<rparr>
      | FIN_WAIT_2 \<Rightarrow> \<lparr>st_sender = SENDER_FIN_ACKED, st_receiver = RECEIVER_SYN_RECV, st_active = True, st_linger = True\<rparr>
      | TIME_WAIT \<Rightarrow> \<lparr>st_sender = SENDER_FIN_ACKED, st_receiver = RECEIVER_FIN_RECV, st_active = True, st_linger = True\<rparr>
      | RESET \<Rightarrow> \<lparr>st_sender = SENDER_ERROR, st_receiver = RECEIVER_ERROR, st_active = False, st_linger = False\<rparr>
      | CLOSED \<Rightarrow> \<lparr>st_sender = SENDER_FIN_ACKED, st_receiver = RECEIVER_FIN_RECV, st_active = False, st_linger = False\<rparr>)"

definition TCPState_eq :: "tcp_state \<Rightarrow> tcp_state \<Rightarrow> bool" where
  "TCPState_eq a b \<longleftrightarrow>
     st_active a = st_active b \<and> st_linger a = st_linger b \<and>
     st_sender a = st_sender b \<and> st_receiver a = st_receiver b"

definition TCPState_neq :: "tcp_state \<Rightarrow> tcp_state \<Rightarrow> bool" where
  "TCPState_neq a b \<longleftrightarrow> \<not> TCPState_eq a b"

definition TCPState_name :: "tcp_state \<Rightarrow> string" where
  "TCPState_name s =
     ''sender=`'' @ st_sender s @ ''`, receiver=`'' @ st_receiver s @ ''`, active='' @
     (if st_active s then ''1'' else ''0'') @ '', linger_after_streams_finish='' @
     (if st_linger s then ''1'' else ''0'')"

definition receiver_state_summary :: "tcp_receiver \<Rightarrow> string" where
  "receiver_state_summary r =
     (if ByteStream_error (TCPReceiver_stream_out r) then RECEIVER_ERROR
      else if TCPReceiver_ackno r = None then RECEIVER_LISTEN
      else if ByteStream_input_ended (TCPReceiver_stream_out r) then RECEIVER_FIN_RECV
      else RECEIVER_SYN_RECV)"

definition sender_state_summary :: "tcp_sender \<Rightarrow> string" where
  "sender_state_summary s =
     (if ByteStream_error (snd_stream s) then SENDER_ERROR
      else if TCPSender_next_seqno_absolute s = 0 then SENDER_CLOSED
      else if TCPSender_next_seqno_absolute s = TCPSender_bytes_in_flight s then SENDER_SYN_SENT
      else if \<not> ByteStream_eof (snd_stream s) then SENDER_SYN_ACKED
      else if TCPSender_next_seqno_absolute s < add64 (ByteStream_bytes_written (snd_stream s)) 2
        then SENDER_SYN_ACKED
      else if TCPSender_bytes_in_flight s \<noteq> 0 then SENDER_FIN_SENT
      else SENDER_FIN_ACKED)"

definition TCPState_of :: "tcp_sender \<Rightarrow> tcp_receiver \<Rightarrow> bool \<Rightarrow> bool \<Rightarrow> tcp_state" where
  "TCPState_of sender receiver active linger =
     \<lparr>st_sender = sender_state_summary sender, st_receiver = receiver_state_summary receiver,
      st_active = active, st_linger = (if active then linger else False)\<rparr>"

section \<open>TCPConnection\<close>

record tcp_connection =
  tc_cfg :: tcp_config
  tc_receiver :: tcp_receiver
  tc_sender :: tcp_sender
  tc_segments_out :: "tcp_segment list"
  tc_linger_after_streams_finish :: bool
  tc_if_active :: bool
  tc_time_since_last_segment_received :: u64

definition TCPConnection_new :: "tcp_config \<Rightarrow> u32 \<Rightarrow> tcp_connection" where
  "TCPConnection_new cfg random_value =
     \<lparr>tc_cfg = cfg, tc_receiver = TCPReceiver_new (recv_capacity cfg),
      tc_sender = TCPSender_new (send_capacity cfg) (rt_timeout cfg) (fixed_isn cfg) random_value,
      tc_segments_out = [], tc_linger_after_streams_finish = True, tc_if_active = True,
      tc_time_since_last_segment_received = 0\<rparr>"

definition TCPConnection_remaining_outbound_capacity :: "tcp_connection \<Rightarrow> u64" where
  "TCPConnection_remaining_outbound_capacity c = ByteStream_remaining_capacity (snd_stream (tc_sender c))"

definition TCPConnection_bytes_in_flight :: "tcp_connection \<Rightarrow> u64" where
  "TCPConnection_bytes_in_flight c = TCPSender_bytes_in_flight (tc_sender c)"

definition TCPConnection_unassembled_bytes :: "tcp_connection \<Rightarrow> u64" where
  "TCPConnection_unassembled_bytes c = TCPReceiver_unassembled_bytes (tc_receiver c)"

definition TCPConnection_time_since_last_segment_received :: "tcp_connection \<Rightarrow> u64" where
  "TCPConnection_time_since_last_segment_received c = tc_time_since_last_segment_received c"

definition TCPConnection_active :: "tcp_connection \<Rightarrow> bool" where
  "TCPConnection_active c = tc_if_active c"

definition TCPConnection_inbound_stream :: "tcp_connection \<Rightarrow> byte_stream" where
  "TCPConnection_inbound_stream c = TCPReceiver_stream_out (tc_receiver c)"

definition TCPConnection_state :: "tcp_connection \<Rightarrow> tcp_state" where
  "TCPConnection_state c =
     TCPState_of (tc_sender c) (tc_receiver c) (TCPConnection_active c) (tc_linger_after_streams_finish c)"

definition set_ack_and_window :: "tcp_connection \<Rightarrow> tcp_segment \<Rightarrow> tcp_segment" where
  "set_ack_and_window c seg =
     (let seg = (case TCPReceiver_ackno (tc_receiver c) of
                   Some a \<Rightarrow> seg\<lparr>ts_header := (ts_header seg)\<lparr>ack := True, ackno := a\<rparr>\<rparr>
                 | None \<Rightarrow> seg);
          w = TCPReceiver_window_size (tc_receiver c)
      in seg\<lparr>ts_header := (ts_header seg)\<lparr>win := (if w < 65535 then of_nat w else 65535)\<rparr>\<rparr>)"

definition TCPConnection_send_segment :: "tcp_connection \<Rightarrow> tcp_segment \<Rightarrow> tcp_connection" where
  "TCPConnection_send_segment c segment =
     c\<lparr>tc_segments_out := tc_segments_out c @ [set_ack_and_window c segment]\<rparr>"

text \<open>The loop that moves the sender's queue to the connection's, with acknowledgment and window.\<close>

fun TCPConnection_drain_loop :: "tcp_segment list \<Rightarrow> tcp_connection \<Rightarrow> tcp_connection" where
  "TCPConnection_drain_loop [] c = c"
| "TCPConnection_drain_loop (segment # segs) c =
     TCPConnection_drain_loop segs
       (TCPConnection_send_segment (c\<lparr>tc_sender := (tc_sender c)\<lparr>snd_segments_out := segs\<rparr>\<rparr>) segment)"

definition TCPConnection_drain :: "tcp_connection \<Rightarrow> tcp_connection" where
  "TCPConnection_drain c = TCPConnection_drain_loop (snd_segments_out (tc_sender c)) c"

text \<open>\<open>send_empty_segment\<close>, then take the front of the sender's queue.\<close>

definition TCPConnection_pop_empty :: "tcp_connection \<Rightarrow> (tcp_segment \<times> tcp_connection) result" where
  "TCPConnection_pop_empty c =
     (let s = TCPSender_send_empty_segment (tc_sender c)
      in case snd_segments_out s of
           [] \<Rightarrow> Inl (Undefined_behaviour ''front of an empty queue'')
         | segment # segs \<Rightarrow> Inr (segment, c\<lparr>tc_sender := s\<lparr>snd_segments_out := segs\<rparr>\<rparr>))"

definition TCPConnection_set_errors :: "tcp_connection \<Rightarrow> tcp_connection" where
  "TCPConnection_set_errors c =
     c\<lparr>tc_if_active := False,
       tc_receiver := (tc_receiver c)\<lparr>rcv_reassembler := (rcv_reassembler (tc_receiver c))\<lparr>ra_output :=
         ByteStream_set_error (ra_output (rcv_reassembler (tc_receiver c)))\<rparr>\<rparr>,
       tc_sender := (tc_sender c)\<lparr>snd_stream := ByteStream_set_error (snd_stream (tc_sender c))\<rparr>\<rparr>"

definition TCPConnection_send_reset_segment :: "tcp_connection \<Rightarrow> tcp_connection result" where
  "TCPConnection_send_reset_segment c =
     rbind (TCPConnection_pop_empty (c\<lparr>tc_sender := (tc_sender c)\<lparr>snd_segments_out := []\<rparr>\<rparr>)) (\<lambda>(segment, c1).
       Inr (TCPConnection_set_errors
              (TCPConnection_send_segment c1
                (segment\<lparr>ts_header := (ts_header segment)\<lparr>rst := True\<rparr>\<rparr>))))"

text \<open>The test for the state SYN_SENT in the RST cases: only the SYN was sent and it is in flight.\<close>

definition TCPConnection_only_syn :: "tcp_connection \<Rightarrow> bool" where
  "TCPConnection_only_syn c \<longleftrightarrow>
     TCPSender_next_seqno_absolute (tc_sender c) = 1 \<and>
     TCPSender_bytes_in_flight (tc_sender c) = TCPSender_next_seqno_absolute (tc_sender c)"

text \<open>The RST branch of \<open>segment_received\<close>, lines 57 to 91.\<close>

definition TCPConnection_rst_received :: "tcp_connection \<Rightarrow> tcp_segment \<Rightarrow> tcp_connection result" where
  "TCPConnection_rst_received c seg =
     (if \<not> TCPSender_syn_sent (tc_sender c) then Inr c
      else if \<not> ack (ts_header seg) \<and> TCPConnection_only_syn c then Inr c
      else if ack (ts_header seg) \<and> TCPConnection_only_syn c
        then Inr (TCPConnection_set_errors (c\<lparr>tc_sender := (tc_sender c)\<lparr>snd_segments_out := []\<rparr>\<rparr>))
      else TCPConnection_send_reset_segment c)"

text \<open>The ACK branch, lines 104 to 129; the flag says that the handler goes on.\<close>

definition TCPConnection_ack_branch :: "tcp_connection \<Rightarrow> tcp_segment \<Rightarrow> (bool \<times> tcp_connection) result" where
  "TCPConnection_ack_branch c seg =
     (if \<not> ack (ts_header seg) then Inr (True, c)
      else if \<not> TCPSender_syn_sent (tc_sender c) then Inr (False, c)
      else
        rbind (TCPSender_ack_received (tc_sender c) (ackno (ts_header seg)) (win (ts_header seg))) (\<lambda>(b, s).
          let c1 = c\<lparr>tc_sender := s\<rparr>
          in if b then
               rbind (TCPSender_fill_window (tc_sender c1)) (\<lambda>s'.
                 Inr (True, TCPConnection_drain (c1\<lparr>tc_sender := s'\<rparr>)))
             else if \<not> TCPSender_get_old_syn (tc_sender c1) then Inr (False, c1)
             else rbind (TCPConnection_pop_empty c1) (\<lambda>(segment, c2).
                    Inr (True, c2\<lparr>tc_segments_out := tc_segments_out c2 @ [set_ack_and_window c2 segment]\<rparr>))))"

text \<open>The reply to a segment that occupies sequence numbers, lines 131 to 148.\<close>

definition TCPConnection_reply :: "tcp_connection \<Rightarrow> tcp_segment \<Rightarrow> tcp_connection result" where
  "TCPConnection_reply c seg =
     (if TCPSegment_length_in_sequence_space seg > 0 then
        rbind (TCPSender_fill_window (tc_sender c)) (\<lambda>s.
          let c1 = c\<lparr>tc_sender := s\<rparr>
          in if snd_segments_out s = []
             then rbind (TCPConnection_pop_empty c1) (\<lambda>(segment, c2).
                    Inr (c2\<lparr>tc_segments_out := tc_segments_out c2 @ [set_ack_and_window c2 segment]\<rparr>))
             else Inr (TCPConnection_drain c1))
      else Inr c)"

text \<open>Lines 93 to 101: the peer ended its stream first.\<close>

definition TCPConnection_check_linger :: "tcp_connection \<Rightarrow> tcp_connection" where
  "TCPConnection_check_linger c =
     (if ByteStream_eof (TCPReceiver_stream_out (tc_receiver c)) \<and>
         \<not> ByteStream_eof (snd_stream (tc_sender c)) \<and> TCPSender_syn_sent (tc_sender c)
      then c\<lparr>tc_linger_after_streams_finish := False\<rparr> else c)"

definition TCPConnection_segment_received :: "tcp_connection \<Rightarrow> tcp_segment \<Rightarrow> tcp_connection result" where
  "TCPConnection_segment_received c0 seg =
     (let c = c0\<lparr>tc_time_since_last_segment_received := 0\<rparr>
      in rbind (TCPReceiver_segment_received (tc_receiver c) seg) (\<lambda>(_, r).
         let c = c\<lparr>tc_receiver := r\<rparr>
         in if rst (ts_header seg) then TCPConnection_rst_received c seg
            else rbind (TCPConnection_ack_branch (TCPConnection_check_linger c) seg) (\<lambda>(go_on, c).
                 if go_on then TCPConnection_reply c seg else Inr c)))"

definition TCPConnection_write :: "tcp_connection \<Rightarrow> byte list \<Rightarrow> (u64 \<times> tcp_connection) result" where
  "TCPConnection_write c data =
     (let (len, st) = ByteStream_write (snd_stream (tc_sender c)) data
      in rbind (TCPSender_fill_window ((tc_sender c)\<lparr>snd_stream := st\<rparr>)) (\<lambda>s.
           Inr (len, TCPConnection_drain (c\<lparr>tc_sender := s\<rparr>))))"

text \<open>The two parts of \<open>tick\<close>: the retransmission, lines 207 to 219, and the end of the connection, lines 221 to 238.\<close>

definition TCPConnection_retransmit :: "tcp_connection \<Rightarrow> tcp_connection" where
  "TCPConnection_retransmit c =
     (case snd_segments_out (tc_sender c) of
        [] \<Rightarrow> c
      | segment # segs \<Rightarrow>
          let c = c\<lparr>tc_sender := (tc_sender c)\<lparr>snd_segments_out := segs\<rparr>\<rparr>;
              segment = set_ack_and_window c segment
          in if MAX_RETX_ATTEMPTS < TCPSender_consecutive_retransmissions (tc_sender c)
             then let c = TCPConnection_set_errors c;
                      segment = segment\<lparr>ts_header := (ts_header segment)\<lparr>rst := True\<rparr>\<rparr>
                  in c\<lparr>tc_segments_out := tc_segments_out c @ [segment]\<rparr>
             else c\<lparr>tc_segments_out := tc_segments_out c @ [segment]\<rparr>)"

definition TCPConnection_finish :: "tcp_connection \<Rightarrow> tcp_connection" where
  "TCPConnection_finish c0 =
     (let c = (if \<not> tc_linger_after_streams_finish c0 \<and> TCPSender_fin_sent (tc_sender c0) \<and>
                  TCPSender_bytes_in_flight (tc_sender c0) = 0
               then c0\<lparr>tc_if_active := False\<rparr> else c0)
      in if ByteStream_eof (TCPReceiver_stream_out (tc_receiver c)) \<and>
            ByteStream_eof (snd_stream (tc_sender c)) \<and> TCPSender_fin_sent (tc_sender c) \<and>
            TCPSender_bytes_in_flight (tc_sender c) = 0 \<and>
            10 * unat (rt_timeout (tc_cfg c)) \<le> tc_time_since_last_segment_received c
         then c\<lparr>tc_if_active := False\<rparr> else c)"

definition TCPConnection_tick :: "tcp_connection \<Rightarrow> u64 \<Rightarrow> tcp_connection" where
  "TCPConnection_tick c ms_since_last_tick =
     TCPConnection_finish
       (TCPConnection_retransmit
         (c\<lparr>tc_time_since_last_segment_received :=
              add64 (tc_time_since_last_segment_received c) ms_since_last_tick,
            tc_sender := TCPSender_tick (tc_sender c) ms_since_last_tick\<rparr>))"

definition TCPConnection_end_input_stream :: "tcp_connection \<Rightarrow> tcp_connection result" where
  "TCPConnection_end_input_stream c =
     rbind (TCPSender_fill_window ((tc_sender c)\<lparr>snd_stream := ByteStream_end_input (snd_stream (tc_sender c))\<rparr>)) (\<lambda>s.
       Inr (TCPConnection_drain (c\<lparr>tc_sender := s\<rparr>)))"

definition TCPConnection_connect :: "tcp_connection \<Rightarrow> tcp_connection result" where
  "TCPConnection_connect c =
     rbind (TCPSender_fill_window (tc_sender c)) (\<lambda>s. Inr (TCPConnection_drain (c\<lparr>tc_sender := s\<rparr>)))"

definition TCPConnection_destroy :: "tcp_connection \<Rightarrow> tcp_connection result" where
  "TCPConnection_destroy c =
     (if TCPConnection_active c then TCPConnection_send_reset_segment c else Inr c)"

end
