(* ===== verification/Connection_Correct.thy ===== *)
theory Connection_Correct
  imports TCP_Connection
begin

text \<open>
  Correctness of the connection.  Every handler extends the outgoing queue by segments of the stream
  that carry the receiver's acknowledgment and window (\<open>conn_ext\<close>); the connection is an instance of
  \<open>step_system\<close>.  Then the handshake, the reset paths, giving up, and the ways a connection ends.
\<close>

section \<open>Lemmas\<close>

lemma stamp_receiver: "tc_receiver c = tc_receiver c' \<Longrightarrow> set_ack_and_window c = set_ack_and_window c'"
  by (rule ext) (simp add: set_ack_and_window_def)

lemma stamp_update [simp]:
  "set_ack_and_window (c\<lparr>tc_sender := s\<rparr>) = set_ack_and_window c"
  "set_ack_and_window (c\<lparr>tc_segments_out := q\<rparr>) = set_ack_and_window c"
  by (rule stamp_receiver, simp)+

lemma drain_loop_eq:
  "TCPConnection_drain_loop segs c =
     c\<lparr>tc_sender := (tc_sender c)\<lparr>snd_segments_out := (if segs = [] then snd_segments_out (tc_sender c) else [])\<rparr>,
       tc_segments_out := tc_segments_out c @ map (set_ack_and_window c) segs\<rparr>"
  by (induction segs arbitrary: c) (simp_all add: TCPConnection_send_segment_def)

lemma drain_eq:
  "TCPConnection_drain c =
     c\<lparr>tc_sender := (tc_sender c)\<lparr>snd_segments_out := []\<rparr>,
       tc_segments_out := tc_segments_out c @ map (set_ack_and_window c) (snd_segments_out (tc_sender c))\<rparr>"
  by (auto simp: TCPConnection_drain_def drain_loop_eq)

text \<open>Acknowledgment and window do not change what a segment carries of the stream.\<close>

definition seg_ok :: "byte list \<Rightarrow> WrappingInt32 \<Rightarrow> tcp_segment \<Rightarrow> bool" where
  "seg_ok S isn seg \<longleftrightarrow> seg_bare seg \<or> (\<exists>a. snd_seg_at S isn a seg)"

lemma stamp_fields:
  "ts_payload (set_ack_and_window c seg) = ts_payload seg"
  "syn (ts_header (set_ack_and_window c seg)) = syn (ts_header seg)"
  "fin (ts_header (set_ack_and_window c seg)) = fin (ts_header seg)"
  "rst (ts_header (set_ack_and_window c seg)) = rst (ts_header seg)"
  "seqno (ts_header (set_ack_and_window c seg)) = seqno (ts_header seg)"
  by (simp_all add: set_ack_and_window_def Let_def split: option.splits)

lemma seg_ok_cong:
  assumes "ts_payload seg' = ts_payload seg" "syn (ts_header seg') = syn (ts_header seg)"
    "fin (ts_header seg') = fin (ts_header seg)" "seqno (ts_header seg') = seqno (ts_header seg)"
  shows "seg_ok S isn seg' = seg_ok S isn seg"
  using assms by (simp add: seg_ok_def seg_bare_def snd_seg_at_def seg_syn_def seg_at_def)

lemma seg_ok_stamp [simp]: "seg_ok S isn (set_ack_and_window c seg) = seg_ok S isn seg"
  by (rule seg_ok_cong) (simp_all add: stamp_fields)

lemma seg_ok_rst [simp]: "seg_ok S isn (seg\<lparr>ts_header := (ts_header seg)\<lparr>rst := b\<rparr>\<rparr>) = seg_ok S isn seg"
  by (rule seg_ok_cong) simp_all

lemma snd_inv_clear:
  assumes "snd_inv S s" shows "snd_inv S (s\<lparr>snd_segments_out := []\<rparr>)"
  using assms unfolding snd_inv_def by (auto split del: if_split cong: if_cong)

lemma snd_inv_drop:
  assumes "snd_inv S s" and "set xs \<subseteq> set (snd_segments_out s)" shows "snd_inv S (s\<lparr>snd_segments_out := xs\<rparr>)"
  using assms unfolding snd_inv_def by (auto split del: if_split cong: if_cong)

lemma snd_inv_set_error:
  assumes "snd_inv S s" shows "snd_inv S (s\<lparr>snd_stream := ByteStream_set_error (snd_stream s)\<rparr>)"
  using assms unfolding snd_inv_def by (auto simp: ByteStream_eof_def split del: if_split cong: if_cong)

lemma rcv_inv_set_error:
  assumes "rcv_inv S isn r"
  shows "rcv_inv S isn (r\<lparr>rcv_reassembler := (rcv_reassembler r)\<lparr>ra_output := ByteStream_set_error (ra_output (rcv_reassembler r))\<rparr>\<rparr>)"
  using assms
  by (auto simp: rcv_inv_def ra_inv_def ra_eof_inv_def rcv_end_def rcv_fresh_def ra_limit_def ra_known_def us_pieces_def split del: if_split cong: if_cong)

lemma rcv_bare_ok:
  assumes inv: "rcv_inv S isn r" and b: "seg_bare seg"
  shows "\<exists>acc. TCPReceiver_segment_received r seg = Inr (acc, r)"
proof (cases "rcv_syn_received r")
  case False
  then show ?thesis using b by (auto simp: TCPReceiver_segment_received_def seg_bare_def Let_def)
next
  case True
  let ?ra = "rcv_reassembler r"
  have ra: "ra_inv S ?ra" and ei: "ra_eof_inv S ?ra" and cp: "rcv_checkpoint r = ra_first_unassemble_byte ?ra"
    and fr: "rcv_fin_received r = ra_eof ?ra" and isn: "rcv_isn r = isn"
    and ak: "rcv_ackno r = wrap (ra_first_unassemble_byte ?ra + 1 + rcv_end S ?ra) isn"
    using inv True by (simp_all add: rcv_inv_def)
  have "bs_if_end (ra_output ?ra)" if "ra_num_unassembled_byte ?ra = 0" "ra_eof ?ra"
  proof -
    have "rcv_end S ?ra = 1" using rcv_finished[OF ra ei] that by (simp add: StreamReassembler_unassembled_bytes_def)
    then have "ra_first_unassemble_byte ?ra = length S" by (simp add: rcv_end_def split: if_splits)
    then show ?thesis using ei that(2) unfolding ra_eof_inv_def by blast
  qed
  then have push: "StreamReassembler_push_substring ?ra [] j False = Inr ?ra" for j
    by (auto simp: StreamReassembler_push_substring_def Let_def ByteStream_end_input_def)
  have e: "TCPReceiver_segment_received r seg =
      Inr (TCPReceiver_inbound r seg, r\<lparr>rcv_ackno := wrap (ra_first_unassemble_byte ?ra + 1 + rcv_end S ?ra) isn\<rparr>)"
  proof (cases "TCPReceiver_inbound r seg")
    case inb: True
    have "r\<lparr>rcv_reassembler := ?ra, rcv_checkpoint := ra_first_unassemble_byte ?ra\<rparr> = r"
      using cp by (simp add: tcp_receiver.equality)
    then show ?thesis
      unfolding TCPReceiver_segment_received_def Let_def Buffer_copy_def
      using b True inb by (simp add: seg_bare_def push ackno_exact[OF ra] rcv_finished[OF ra ei] fr isn
        StreamReassembler_first_unassembled_byte_def del: One_nat_def split del: if_split)
  next
    case False
    then show ?thesis
      unfolding TCPReceiver_segment_received_def Let_def Buffer_copy_def
      using b True by (simp add: seg_bare_def ackno_exact[OF ra] rcv_finished[OF ra ei] fr isn
        StreamReassembler_first_unassembled_byte_def del: One_nat_def split del: if_split)
  qed
  moreover have "r\<lparr>rcv_ackno := wrap (ra_first_unassemble_byte ?ra + 1 + rcv_end S ?ra) isn\<rparr> = r"
    using ak by (simp add: tcp_receiver.equality)
  ultimately show ?thesis by auto
qed

section \<open>What a handler adds\<close>

text \<open>
  \<open>rcv_err\<close> is the receiver after \<open>set_error\<close> on its stream.  \<open>conn_ext S c c'\<close>: the sender is in order, the queue of
  segments is extended by segments of \<open>S\<close> that carry the receiver's acknowledgment and window, and the
  receiver is as it was except for the error flag.
\<close>

definition rcv_err :: "tcp_receiver \<Rightarrow> tcp_receiver" where
  "rcv_err r = r\<lparr>rcv_reassembler := (rcv_reassembler r)\<lparr>ra_output := ByteStream_set_error (ra_output (rcv_reassembler r))\<rparr>\<rparr>"

definition seg_stamped :: "tcp_receiver \<Rightarrow> tcp_segment \<Rightarrow> bool" where
  "seg_stamped r seg \<longleftrightarrow>
     (case TCPReceiver_ackno r of None \<Rightarrow> True | Some a \<Rightarrow> ack (ts_header seg) \<and> ackno (ts_header seg) = a) \<and>
     unat (win (ts_header seg)) = min 65535 (TCPReceiver_window_size r)"

definition conn_ext :: "byte list \<Rightarrow> tcp_connection \<Rightarrow> tcp_connection \<Rightarrow> bool" where
  "conn_ext S c c' \<longleftrightarrow>
     snd_inv S (tc_sender c') \<and> snd_segments_out (tc_sender c') = [] \<and>
     snd_isn (tc_sender c') = snd_isn (tc_sender c) \<and>
     snd_recv_ackno (tc_sender c) \<le> snd_recv_ackno (tc_sender c') \<and>
     (tc_receiver c' = tc_receiver c \<or> tc_receiver c' = rcv_err (tc_receiver c)) \<and> tc_cfg c' = tc_cfg c \<and>
     (\<exists>new. tc_segments_out c' = tc_segments_out c @ new \<and>
        (\<forall>seg\<in>set new. seg_ok S (snd_isn (tc_sender c)) seg \<and> seg_stamped (tc_receiver c) seg))"

lemma rcv_err_same [simp]:
  "TCPReceiver_ackno (rcv_err r) = TCPReceiver_ackno r"
  "TCPReceiver_window_size (rcv_err r) = TCPReceiver_window_size r"
  "rcv_err (rcv_err r) = rcv_err r"
  by (simp_all add: rcv_err_def TCPReceiver_ackno_def TCPReceiver_window_size_def TCPReceiver_stream_out_def
      StreamReassembler_stream_out_def ByteStream_remaining_capacity_def ByteStream_set_error_def)

lemma seg_stamped_err [simp]: "seg_stamped (rcv_err r) seg = seg_stamped r seg"
  by (simp add: seg_stamped_def)

lemma seg_stamped_rst [simp]: "seg_stamped r (seg\<lparr>ts_header := (ts_header seg)\<lparr>rst := b\<rparr>\<rparr>) = seg_stamped r seg"
  by (simp add: seg_stamped_def split: option.splits)

lemma stamped: "seg_stamped (tc_receiver c) (set_ack_and_window c seg)"
  by (auto simp: seg_stamped_def set_ack_and_window_def Let_def unat_of_nat min_def split: option.splits)

lemma conn_ext_refl: "snd_inv S (tc_sender c) \<Longrightarrow> snd_segments_out (tc_sender c) = [] \<Longrightarrow> conn_ext S c c"
  by (simp add: conn_ext_def)

lemma conn_ext_trans:
  assumes "conn_ext S c d" and "conn_ext S d e" shows "conn_ext S c e"
proof -
  obtain n1 where n1: "tc_segments_out d = tc_segments_out c @ n1"
    "\<forall>seg\<in>set n1. seg_ok S (snd_isn (tc_sender c)) seg \<and> seg_stamped (tc_receiver c) seg"
    using assms(1) unfolding conn_ext_def by blast
  obtain n2 where n2: "tc_segments_out e = tc_segments_out d @ n2"
    "\<forall>seg\<in>set n2. seg_ok S (snd_isn (tc_sender d)) seg \<and> seg_stamped (tc_receiver d) seg"
    using assms(2) unfolding conn_ext_def by blast
  have r: "tc_receiver d = tc_receiver c \<or> tc_receiver d = rcv_err (tc_receiver c)"
    and i: "snd_isn (tc_sender d) = snd_isn (tc_sender c)"
    using assms(1) by (simp_all add: conn_ext_def)
  have st: "seg_stamped (tc_receiver d) seg = seg_stamped (tc_receiver c) seg" for seg
    using r by auto
  have "\<exists>new. tc_segments_out e = tc_segments_out c @ new \<and>
     (\<forall>seg\<in>set new. seg_ok S (snd_isn (tc_sender c)) seg \<and> seg_stamped (tc_receiver c) seg)"
    using n1 n2 by (intro exI[of _ "n1 @ n2"]) (auto simp: i st)
  moreover have "tc_receiver e = tc_receiver c \<or> tc_receiver e = rcv_err (tc_receiver c)"
    using r assms(2) by (auto simp: conn_ext_def)
  ultimately show ?thesis using assms by (simp add: conn_ext_def)
qed

lemma conn_ext_rcv_inv: "conn_ext S c c' \<Longrightarrow> rcv_inv S' isn (tc_receiver c) \<Longrightarrow> rcv_inv S' isn (tc_receiver c')"
  using rcv_inv_set_error[of S' isn "tc_receiver c"] by (auto simp: conn_ext_def rcv_err_def)

lemma drain_ext:
  assumes "snd_inv S s" and "snd_isn s = snd_isn (tc_sender c)"
    and "snd_recv_ackno (tc_sender c) \<le> snd_recv_ackno s"
  shows "conn_ext S c (TCPConnection_drain (c\<lparr>tc_sender := s\<rparr>))"
proof -
  have "set_ack_and_window (c\<lparr>tc_sender := s\<rparr>) = set_ack_and_window c" by (rule stamp_receiver) simp
  moreover have "\<forall>seg\<in>set (snd_segments_out s). seg_ok S (snd_isn s) seg"
    using assms(1) unfolding snd_inv_def seg_ok_def by blast
  ultimately show ?thesis
    using assms snd_inv_clear[OF assms(1)] by (auto simp: conn_ext_def drain_eq stamped)
qed

lemma pop_empty_eq:
  assumes "snd_segments_out (tc_sender c) = []"
  shows "\<exists>seg. TCPConnection_pop_empty c = Inr (seg, c) \<and> seg_bare seg \<and> \<not> rst (ts_header seg) \<and>
    seqno (ts_header seg) = TCPSender_next_seqno (tc_sender c)"
  using assms
  by (auto simp: TCPConnection_pop_empty_def TCPSender_send_empty_segment_def Let_def seg_bare_def
      TCPSegment_default_def TCPHeader_default_def TCPSender_next_seqno_def intro!: tcp_connection.equality tcp_sender.equality)

lemma push_bare_ext:
  assumes "snd_inv S (tc_sender c)" and "snd_segments_out (tc_sender c) = []" and "seg_bare seg"
  shows "conn_ext S c (c\<lparr>tc_segments_out := tc_segments_out c @ [set_ack_and_window c seg]\<rparr>)"
  using assms by (simp add: conn_ext_def stamped) (simp add: seg_ok_def)

lemma set_errors_ext:
  assumes "conn_ext S c d" shows "conn_ext S c (TCPConnection_set_errors d)"
proof -
  have "conn_ext S d (TCPConnection_set_errors d)"
    using assms snd_inv_set_error by (auto simp: conn_ext_def TCPConnection_set_errors_def rcv_err_def)
  with assms show ?thesis by (rule conn_ext_trans)
qed


section \<open>The handlers\<close>

text \<open>
  What the handlers need of an incoming segment: it is a segment of the peer's stream that the receiver
  can take, and less than \<open>2 ^ 31\<close> numbers are in flight the other way.
\<close>

definition seg_acceptable :: "byte list \<Rightarrow> WrappingInt32 \<Rightarrow> tcp_receiver \<Rightarrow> tcp_segment \<Rightarrow> bool" where
  "seg_acceptable S isn r seg \<longleftrightarrow>
     seg_bare seg \<or> seg_syn isn seg \<or> (\<exists>i\<in>{..length S}. seg_at S isn i seg \<and> seg_timely S r i seg)"

lemma rcv_acceptable_ok:
  assumes "rcv_run_inv S isn (out, r)" and "seg_acceptable S isn r seg"
  shows "\<exists>acc r'. TCPReceiver_segment_received r seg = Inr (acc, r') \<and> rcv_run_inv S isn (out, r') \<and>
    rcv_level (out, r) \<le> rcv_level (out, r')"
proof -
  have inv: "rcv_inv S isn r" using assms(1) by (simp add: rcv_run_inv_def)
  consider "seg_bare seg" | "seg_syn isn seg" | i where "seg_at S isn i seg" "seg_timely S r i seg"
    using assms(2) by (auto simp: seg_acceptable_def)
  then show ?thesis
  proof cases
    case 1
    then show ?thesis using rcv_bare_ok[OF inv] assms(1) by fastforce
  next
    case 2
    from rcv_syn_step[OF assms(1) this] show ?thesis by (auto simp: rbind_Inr_conv)
  next
    case 3
    from rcv_seg_ok[OF assms(1) this] show ?thesis by (auto simp: rbind_Inr_conv)
  qed
qed

lemma fill_drain_ext:
  assumes "snd_inv S s" and "snd_isn s = snd_isn (tc_sender c)" and "snd_recv_ackno (tc_sender c) \<le> snd_recv_ackno s"
  shows "\<exists>s'. TCPSender_fill_window s = Inr s' \<and> snd_inv S s' \<and> snd_syn_flag s' \<and>
    snd_isn s' = snd_isn (tc_sender c) \<and> snd_recv_ackno (tc_sender c) \<le> snd_recv_ackno s' \<and>
    conn_ext S c (TCPConnection_drain (c\<lparr>tc_sender := s'\<rparr>))"
proof -
  obtain s' where s': "TCPSender_fill_window s = Inr s'" "snd_inv S s'" "snd_frame s s'" "snd_syn_flag s'"
    using fill_window_ok[OF assms(1)] by blast
  then have "snd_isn s' = snd_isn (tc_sender c)" "snd_recv_ackno (tc_sender c) \<le> snd_recv_ackno s'"
    using assms by (simp_all add: snd_frame_def)
  then show ?thesis using s' drain_ext[of S s' c] by blast
qed

lemma reset_ext:
  assumes "snd_inv S (tc_sender c)" and "snd_segments_out (tc_sender c) = []"
  shows "\<exists>c'. TCPConnection_send_reset_segment c = Inr c' \<and> conn_ext S c c'"
proof -
  have clear: "c\<lparr>tc_sender := (tc_sender c)\<lparr>snd_segments_out := []\<rparr>\<rparr> = c"
    using assms(2) by (auto intro!: tcp_connection.equality tcp_sender.equality)
  obtain seg where seg: "TCPConnection_pop_empty c = Inr (seg, c)" "seg_bare seg"
    using pop_empty_eq[OF assms(2)] by blast
  let ?seg = "seg\<lparr>ts_header := (ts_header seg)\<lparr>rst := True\<rparr>\<rparr>"
  have "seg_bare ?seg" using seg(2) by (simp add: seg_bare_def)
  from set_errors_ext[OF push_bare_ext[OF assms this]] seg(1) show ?thesis
    by (simp add: TCPConnection_send_reset_segment_def clear TCPConnection_send_segment_def)
qed

lemma rst_ext:
  assumes "snd_inv S (tc_sender c)" and "snd_segments_out (tc_sender c) = []"
  shows "\<exists>c'. TCPConnection_rst_received c seg = Inr c' \<and> conn_ext S c c'"
proof -
  have clear: "c\<lparr>tc_sender := (tc_sender c)\<lparr>snd_segments_out := []\<rparr>\<rparr> = c"
    using assms(2) by (auto intro!: tcp_connection.equality tcp_sender.equality)
  show ?thesis
    using conn_ext_refl[OF assms] set_errors_ext[OF conn_ext_refl[OF assms]] reset_ext[OF assms]
    by (auto simp: TCPConnection_rst_received_def clear)
qed

lemma ack_branch_ext:
  assumes "snd_inv S (tc_sender c)" and "snd_segments_out (tc_sender c) = []"
    and "snd_next_seqno (tc_sender c) < snd_recv_ackno (tc_sender c) + 2 ^ 31"
  shows "\<exists>go c'. TCPConnection_ack_branch c seg = Inr (go, c') \<and> conn_ext S c c'"
proof (cases "ack (ts_header seg) \<and> TCPSender_syn_sent (tc_sender c)")
  case False
  then show ?thesis
    using conn_ext_refl[OF assms(1,2)] by (auto simp: TCPConnection_ack_branch_def)
next
  case True
  let ?k = "unwrap (ackno (ts_header seg)) (snd_isn (tc_sender c)) (snd_next_seqno (tc_sender c))"
  have "snd_flight (tc_sender c) < 2 ^ 31" using assms(3) by (simp add: snd_flight_def)
  from ack_received_ok[OF assms(1) this, of "ackno (ts_header seg)" "win (ts_header seg)"]
  obtain b s where s: "TCPSender_ack_received (tc_sender c) (ackno (ts_header seg)) (win (ts_header seg)) = Inr (b, s)"
    "snd_inv S s" "snd_mono (tc_sender c) s" "\<not> b \<Longrightarrow> s = tc_sender c"
    by (metis (no_types, lifting))
  have mono: "snd_isn s = snd_isn (tc_sender c)" "snd_recv_ackno (tc_sender c) \<le> snd_recv_ackno s"
    using s(3) by (simp_all add: snd_mono_def)
  obtain s' where s': "TCPSender_fill_window s = Inr s'"
    "conn_ext S c (TCPConnection_drain (c\<lparr>tc_sender := s'\<rparr>))"
    using fill_drain_ext[OF s(2) mono] by blast
  obtain seg' where seg': "TCPConnection_pop_empty c = Inr (seg', c)" "seg_bare seg'"
    using pop_empty_eq[OF assms(2)] by blast
  show ?thesis
  proof (cases b)
    case b: True
    then show ?thesis using True s(1) s' by (auto simp: TCPConnection_ack_branch_def Let_def)
  next
    case b: False
    then have "c\<lparr>tc_sender := s\<rparr> = c" using s(4) by (simp add: tcp_connection.equality)
    then show ?thesis
      using True b s(1,4) seg' push_bare_ext[OF assms(1,2) seg'(2)] conn_ext_refl[OF assms(1,2)]
      by (auto simp: TCPConnection_ack_branch_def Let_def)
  qed
qed

lemma reply_ext:
  assumes "snd_inv S (tc_sender c)" and "snd_segments_out (tc_sender c) = []"
  shows "\<exists>c'. TCPConnection_reply c seg = Inr c' \<and> conn_ext S c c'"
proof (cases "TCPSegment_length_in_sequence_space seg > 0")
  case False
  then show ?thesis using conn_ext_refl[OF assms] by (simp add: TCPConnection_reply_def)
next
  case True
  obtain s' where s': "TCPSender_fill_window (tc_sender c) = Inr s'" "snd_inv S s'"
    "snd_isn s' = snd_isn (tc_sender c)" "snd_recv_ackno (tc_sender c) \<le> snd_recv_ackno s'"
    "conn_ext S c (TCPConnection_drain (c\<lparr>tc_sender := s'\<rparr>))"
    using fill_drain_ext[OF assms(1), of c] by auto
  show ?thesis
  proof (cases "snd_segments_out s' = []")
    case False
    then show ?thesis using True s' by (simp add: TCPConnection_reply_def Let_def)
  next
    case empty: True
    let ?c = "c\<lparr>tc_sender := s'\<rparr>"
    obtain seg' where seg': "TCPConnection_pop_empty ?c = Inr (seg', ?c)" "seg_bare seg'"
      using pop_empty_eq[of ?c] empty by auto
    have "conn_ext S c ?c" using s' empty by (simp add: conn_ext_def)
    moreover have "conn_ext S ?c (?c\<lparr>tc_segments_out := tc_segments_out ?c @ [set_ack_and_window ?c seg']\<rparr>)"
      using push_bare_ext[of S ?c seg'] s'(2) empty seg'(2) by simp
    ultimately have "conn_ext S c (?c\<lparr>tc_segments_out := tc_segments_out ?c @ [set_ack_and_window ?c seg']\<rparr>)"
      by (rule conn_ext_trans)
    then show ?thesis using True s'(1) empty seg'(1) by (simp add: TCPConnection_reply_def Let_def)
  qed
qed


lemma segment_ext:
  assumes "snd_inv S (tc_sender c)" and "snd_segments_out (tc_sender c) = []"
    and "snd_next_seqno (tc_sender c) < snd_recv_ackno (tc_sender c) + 2 ^ 31"
    and r: "TCPReceiver_segment_received (tc_receiver c) seg = Inr (acc, r)"
  shows "\<exists>c'. TCPConnection_segment_received c seg = Inr c' \<and> conn_ext S (c\<lparr>tc_receiver := r\<rparr>) c'"
proof -
  let ?d = "c\<lparr>tc_receiver := r\<rparr>"
  define c1 where "c1 = c\<lparr>tc_time_since_last_segment_received := 0, tc_receiver := r\<rparr>"
  define c2 where "c2 = TCPConnection_check_linger c1"
  have d1: "conn_ext S ?d c1" and d2: "conn_ext S ?d c2"
    using assms by (auto simp: conn_ext_def c1_def c2_def TCPConnection_check_linger_def)
  have c1: "snd_inv S (tc_sender c1)" "snd_segments_out (tc_sender c1) = []" using assms by (simp_all add: c1_def)
  have c2: "snd_inv S (tc_sender c2)" "snd_segments_out (tc_sender c2) = []"
    "snd_next_seqno (tc_sender c2) < snd_recv_ackno (tc_sender c2) + 2 ^ 31"
    using assms by (simp_all add: c1_def c2_def TCPConnection_check_linger_def)
  obtain go c3 where c3: "TCPConnection_ack_branch c2 seg = Inr (go, c3)" "conn_ext S c2 c3"
    using ack_branch_ext[OF c2] by blast
  have "snd_inv S (tc_sender c3)" "snd_segments_out (tc_sender c3) = []" using c3(2) by (simp_all add: conn_ext_def)
  then obtain c4 where c4: "TCPConnection_reply c3 seg = Inr c4" "conn_ext S c3 c4" using reply_ext by blast
  have eq: "TCPConnection_segment_received c seg =
      (if rst (ts_header seg) then TCPConnection_rst_received c1 seg else if go then Inr c4 else Inr c3)"
    using r c3(1) c4(1)
    by (simp add: TCPConnection_segment_received_def Let_def c1_def[symmetric] c2_def[symmetric])
  show ?thesis
    unfolding eq using rst_ext[OF c1, of seg] conn_ext_trans[OF d1] conn_ext_trans[OF d2]
      conn_ext_trans[OF c3(2) c4(2)] c3(2) by (cases "rst (ts_header seg)"; cases go) auto
qed

lemma tick_out:
  assumes "snd_segments_out s = []"
  shows "snd_segments_out (TCPSender_tick s ms) = [] \<or> (\<exists>seg. snd_segments_out (TCPSender_tick s ms) = [seg])"
    and "snd_isn (TCPSender_tick s ms) = snd_isn s"
  using assms by (auto simp: TCPSender_tick_def Let_def split: list.splits)

lemma conn_ext_flags:
  "conn_ext S c (d\<lparr>tc_if_active := b\<rparr>) = conn_ext S c d"
  "conn_ext S (c\<lparr>tc_time_since_last_segment_received := t\<rparr>) d = conn_ext S c d"
  by (simp_all add: conn_ext_def)

lemma retransmit_ext:
  assumes ext: "conn_ext S c (d\<lparr>tc_sender := (tc_sender d)\<lparr>snd_segments_out := []\<rparr>\<rparr>)"
    and inv: "snd_inv S (tc_sender d)"
    and one: "snd_segments_out (tc_sender d) = [] \<or> (\<exists>seg. snd_segments_out (tc_sender d) = [seg])"
    and d: "tc_segments_out d = tc_segments_out c" "snd_isn (tc_sender d) = snd_isn (tc_sender c)"
      "tc_receiver d = tc_receiver c"
  shows "conn_ext S c (TCPConnection_retransmit d)"
proof (cases "snd_segments_out (tc_sender d)")
  case Nil
  then have "d\<lparr>tc_sender := (tc_sender d)\<lparr>snd_segments_out := []\<rparr>\<rparr> = d"
    by (auto intro!: tcp_connection.equality tcp_sender.equality)
  from ext[unfolded this] show ?thesis using Nil by (simp add: TCPConnection_retransmit_def)
next
  case (Cons seg segs)
  then have segs: "segs = []" using one by auto
  have ok: "seg_ok S (snd_isn (tc_sender c)) seg" using inv Cons d(2) unfolding snd_inv_def seg_ok_def by auto
  let ?e = "d\<lparr>tc_sender := (tc_sender d)\<lparr>snd_segments_out := []\<rparr>\<rparr>"
  have st: "set_ack_and_window d = set_ack_and_window c" by (rule stamp_receiver) (rule d(3))
  have add: "conn_ext S c (f\<lparr>tc_segments_out := tc_segments_out f @ [sg]\<rparr>)"
    if "conn_ext S c f" "tc_segments_out f = tc_segments_out c" "seg_ok S (snd_isn (tc_sender c)) sg"
      "seg_stamped (tc_receiver c) sg" for f sg
    using that by (simp add: conn_ext_def)
  have "tc_segments_out (TCPConnection_set_errors ?e) = tc_segments_out c" "tc_segments_out ?e = tc_segments_out c"
    by (simp_all add: TCPConnection_set_errors_def d)
  note this [simp]
  show ?thesis
    using add[OF ext, of "set_ack_and_window c seg"] add[OF set_errors_ext[OF ext], of
        "(set_ack_and_window c seg)\<lparr>ts_header := (ts_header (set_ack_and_window c seg))\<lparr>rst := True\<rparr>\<rparr>"]
      ok Cons segs stamped[of c]
    by (simp add: TCPConnection_retransmit_def Let_def st d)
qed

lemma conn_tick_ext:
  assumes inv: "snd_inv S (tc_sender c)" and "snd_segments_out (tc_sender c) = []"
  shows "conn_ext S c (TCPConnection_tick c ms)"
proof -
  let ?s = "TCPSender_tick (tc_sender c) ms"
  have s: "snd_inv S ?s" "snd_isn ?s = snd_isn (tc_sender c)" "snd_recv_ackno ?s = snd_recv_ackno (tc_sender c)"
    using tick_inv[OF inv] tick_out(2)[OF assms(2)] tick_level by auto
  have "conn_ext S c (TCPConnection_retransmit
      (c\<lparr>tc_time_since_last_segment_received := add64 (tc_time_since_last_segment_received c) ms, tc_sender := ?s\<rparr>))"
    using s snd_inv_clear[OF s(1)] tick_out(1)[OF assms(2), of ms]
    by (intro retransmit_ext) (simp_all add: conn_ext_def)
  then show ?thesis by (simp add: TCPConnection_tick_def TCPConnection_finish_def Let_def conn_ext_flags)
qed

section \<open>Runs\<close>

text \<open>The state pairs the bytes the application has read with the connection.\<close>

datatype conn_op =
    Conn_connect
  | Conn_write "byte list"
  | Conn_end
  | Conn_segment tcp_segment
  | Conn_tick u64
  | Conn_read u64

fun conn_step :: "byte list \<times> tcp_connection \<Rightarrow> conn_op \<Rightarrow> (byte list \<times> tcp_connection) result" where
  "conn_step (out, c) Conn_connect = rbind (TCPConnection_connect c) (\<lambda>c'. Inr (out, c'))"
| "conn_step (out, c) (Conn_write d) = rbind (TCPConnection_write c d) (\<lambda>(n, c'). Inr (out, c'))"
| "conn_step (out, c) Conn_end = rbind (TCPConnection_end_input_stream c) (\<lambda>c'. Inr (out, c'))"
| "conn_step (out, c) (Conn_segment seg) = rbind (TCPConnection_segment_received c seg) (\<lambda>c'. Inr (out, c'))"
| "conn_step (out, c) (Conn_tick ms) = Inr (out, TCPConnection_tick c ms)"
| "conn_step (out, c) (Conn_read n) =
     rbind (rcv_step (out, tc_receiver c) (Rcv_read n)) (\<lambda>(out', r). Inr (out', c\<lparr>tc_receiver := r\<rparr>))"

fun conn_op_ok :: "byte list \<Rightarrow> byte list \<Rightarrow> WrappingInt32 \<Rightarrow> byte list \<times> tcp_connection \<Rightarrow> conn_op \<Rightarrow> bool" where
  "conn_op_ok S P isn (out, c) (Conn_write d) = snd_op_ok S (tc_sender c) (Snd_write d)"
| "conn_op_ok S P isn (out, c) Conn_end = snd_op_ok S (tc_sender c) Snd_end"
| "conn_op_ok S P isn (out, c) (Conn_segment seg) =
     (seg_acceptable P isn (tc_receiver c) seg \<and>
      snd_next_seqno (tc_sender c) < snd_recv_ackno (tc_sender c) + 2 ^ 31)"
| "conn_op_ok S P isn (out, c) (Conn_read n) = (n < two64)"
| "conn_op_ok S P isn (out, c) _ = True"

definition conn_inv :: "byte list \<Rightarrow> byte list \<Rightarrow> WrappingInt32 \<Rightarrow> byte list \<times> tcp_connection \<Rightarrow> bool" where
  "conn_inv S P isn s \<longleftrightarrow>
     snd_inv S (tc_sender (snd s)) \<and> snd_segments_out (tc_sender (snd s)) = [] \<and>
     rcv_run_inv P isn (fst s, tc_receiver (snd s)) \<and>
     (\<forall>seg\<in>set (tc_segments_out (snd s)). seg_ok S (snd_isn (tc_sender (snd s))) seg)"

definition conn_level :: "byte list \<times> tcp_connection \<Rightarrow> nat" where
  "conn_level s = rcv_level (fst s, tc_receiver (snd s)) + length (tc_segments_out (snd s))"

text \<open>
  What every operation guarantees: the invariant, and an extension of the queue by segments that carry
  the acknowledgment and the window of the receiver as the operation leaves it.
\<close>

definition conn_post :: "byte list \<Rightarrow> byte list \<Rightarrow> WrappingInt32 \<Rightarrow>
    byte list \<times> tcp_connection \<Rightarrow> byte list \<times> tcp_connection \<Rightarrow> bool" where
  "conn_post S P isn s s' \<longleftrightarrow>
     conn_inv S P isn s' \<and> rcv_level (fst s, tc_receiver (snd s)) \<le> rcv_level (fst s', tc_receiver (snd s')) \<and>
     snd_isn (tc_sender (snd s')) = snd_isn (tc_sender (snd s)) \<and>
     (\<exists>new. tc_segments_out (snd s') = tc_segments_out (snd s) @ new \<and>
        (\<forall>seg\<in>set new. seg_ok S (snd_isn (tc_sender (snd s))) seg \<and> seg_stamped (tc_receiver (snd s')) seg))"

lemma rcv_run_inv_err: "rcv_run_inv P isn (out, r) \<Longrightarrow> rcv_run_inv P isn (out, rcv_err r)"
  using rcv_inv_set_error[of P isn r] by (simp add: rcv_run_inv_def rcv_err_def)

lemma rcv_level_err [simp]: "rcv_level (out, rcv_err r) = rcv_level (out, r)"
  by (simp add: rcv_level_def rcv_err_def)

lemma ext_post:
  assumes "conn_inv S P isn (out, c)" and "conn_ext S (c\<lparr>tc_receiver := r\<rparr>) c'"
    and "rcv_run_inv P isn (out', r)" and "rcv_level (out, tc_receiver c) \<le> rcv_level (out', r)"
  shows "conn_post S P isn (out, c) (out', c')"
proof -
  have "tc_receiver c' = r \<or> tc_receiver c' = rcv_err r" using assms(2) by (simp add: conn_ext_def)
  then have "rcv_run_inv P isn (out', tc_receiver c')" "rcv_level (out', tc_receiver c') = rcv_level (out', r)"
    "\<And>seg. seg_stamped (tc_receiver c') seg = seg_stamped r seg"
    using assms(3) rcv_run_inv_err by auto
  then show ?thesis
    using assms unfolding conn_post_def conn_inv_def conn_ext_def by auto
qed

lemma conn_step_post:
  assumes inv: "conn_inv S P isn s" and ok: "conn_op_ok S P isn s p"
  shows "\<exists>s'. conn_step s p = Inr s' \<and> conn_post S P isn s s'"
proof -
  obtain out c where s: "s = (out, c)" by (cases s)
  have si: "snd_inv S (tc_sender c)" "snd_segments_out (tc_sender c) = []" and ri: "rcv_run_inv P isn (out, tc_receiver c)"
    using inv by (simp_all add: s conn_inv_def)
  have c: "c\<lparr>tc_receiver := tc_receiver c\<rparr> = c" by simp
  note post = ext_post[OF inv[unfolded s], of _ _ out, where r = "tc_receiver c", unfolded c, OF _ ri order_refl]
  have fill: "\<exists>s'. TCPSender_fill_window t = Inr s' \<and> conn_post S P isn (out, c) (out, TCPConnection_drain (c\<lparr>tc_sender := s'\<rparr>))"
    if "snd_inv S t" "snd_isn t = snd_isn (tc_sender c)" "snd_recv_ackno (tc_sender c) \<le> snd_recv_ackno t" for t
    using fill_drain_ext[OF that] post by blast
  show ?thesis
  proof (cases p)
    case Conn_connect
    then show ?thesis using fill[OF si(1)] by (auto simp: s TCPConnection_connect_def)
  next
    case (Conn_write d)
    then show ?thesis using fill[OF snd_write_inv[OF si(1), of d]] ok
      by (auto simp: s TCPConnection_write_def split: prod.splits)
  next
    case Conn_end
    then show ?thesis using fill[OF snd_end_inv[OF si(1)]] ok by (auto simp: s TCPConnection_end_input_stream_def)
  next
    case (Conn_segment seg)
    have acc: "seg_acceptable P isn (tc_receiver c) seg"
      and fl: "snd_next_seqno (tc_sender c) < snd_recv_ackno (tc_sender c) + 2 ^ 31"
      using ok by (simp_all add: s Conn_segment)
    obtain a r where r: "TCPReceiver_segment_received (tc_receiver c) seg = Inr (a, r)" "rcv_run_inv P isn (out, r)"
      "rcv_level (out, tc_receiver c) \<le> rcv_level (out, r)"
      using rcv_acceptable_ok[OF ri acc] by blast
    obtain c' where "TCPConnection_segment_received c seg = Inr c'" "conn_ext S (c\<lparr>tc_receiver := r\<rparr>) c'"
      using segment_ext[OF si fl r(1)] by blast
    then show ?thesis using ext_post[OF inv[unfolded s] _ r(2,3)] by (simp add: s Conn_segment)
  next
    case (Conn_tick ms)
    then show ?thesis using post[OF conn_tick_ext[OF si]] by (simp add: s)
  next
    case (Conn_read n)
    have n: "n < two64" using ok by (simp add: s Conn_read)
    obtain out' r where r: "rcv_step (out, tc_receiver c) (Rcv_read n) = Inr (out', r)" "rcv_run_inv P isn (out', r)"
      "rcv_level (out, tc_receiver c) \<le> rcv_level (out', r)"
      using rcv_read_ok[OF ri n] by auto
    have "conn_ext S (c\<lparr>tc_receiver := r\<rparr>) (c\<lparr>tc_receiver := r\<rparr>)" using si by (intro conn_ext_refl) simp_all
    then show ?thesis using ext_post[OF inv[unfolded s] _ r(2,3)] r(1)
      by (auto simp: s Conn_read simp del: rcv_step.simps)
  qed
qed

interpretation connection: step_system conn_step "conn_op_ok S P isn" "conn_inv S P isn" conn_level for S P isn
proof
  fix s p assume "conn_inv S P isn s" "conn_op_ok S P isn s p"
  from conn_step_post[OF this] obtain s' where s': "conn_step s p = Inr s'" "conn_post S P isn s s'" by blast
  then have "conn_level s \<le> conn_level s'" by (auto simp: conn_post_def conn_level_def)
  then show "\<exists>s'. conn_step s p = Inr s' \<and> conn_inv S P isn s' \<and> conn_level s \<le> conn_level s'"
    using s' by (auto simp: conn_post_def)
qed

lemma conn_new_inv:
  assumes "recv_capacity cfg < 2 ^ 32" and "send_capacity cfg < two64" and "length S < 2 ^ 62" and "length P < 2 ^ 63"
  shows "conn_inv S P isn ([], TCPConnection_new cfg rnd)"
  using snd_new_inv[OF assms(2,3)] rcv_new_inv[OF assms(1,4)]
  by (simp add: conn_inv_def TCPConnection_new_def) (simp add: TCPSender_new_def)

section \<open>Opening and closing with empty streams\<close>

text \<open>
  The states of two endpoints that open a connection and close it again, in full: streams that carry
  nothing, a sender with only its SYN or its FIN in flight, a sender with nothing in flight, and the
  receiver before and after the FIN.
\<close>

definition empty_stream :: "u64 \<Rightarrow> bool \<Rightarrow> byte_stream" where
  "empty_stream cap e = (ByteStream_new cap)\<lparr>bs_if_end := e\<rparr>"

definition syn_segment :: "WrappingInt32 \<Rightarrow> tcp_segment" where
  "syn_segment isn = TCPSegment_default\<lparr>ts_header := TCPHeader_default\<lparr>syn := True, seqno := wrap 0 isn\<rparr>\<rparr>"

definition fin_segment :: "WrappingInt32 \<Rightarrow> tcp_segment" where
  "fin_segment isn = TCPSegment_default\<lparr>ts_payload := Buffer_of [], ts_header := TCPHeader_default\<lparr>fin := True, seqno := wrap 1 isn\<rparr>\<rparr>"

definition bare_segment :: "WrappingInt32 \<Rightarrow> tcp_segment" where
  "bare_segment sq = TCPSegment_default\<lparr>ts_header := TCPHeader_default\<lparr>seqno := sq\<rparr>\<rparr>"

definition syn_sender :: "WrappingInt32 \<Rightarrow> u64 \<Rightarrow> u16 \<Rightarrow> tcp_sender" where
  "syn_sender isn cap t =
     \<lparr>snd_isn = isn, snd_segments_out = [], snd_segments_outgoing = [syn_segment isn], snd_bytes_in_flight = 1,
      snd_recv_ackno = 0, snd_window_size = 1, snd_stream = empty_stream cap False, snd_next_seqno = 1,
      snd_syn_flag = True, snd_old_syn_flag = False, snd_fin_sent = False,
      snd_initial_retransmission_timeout = ucast t, snd_consecutive_retransmissions = 0,
      snd_state = running, snd_time = 0, snd_retransmission_timeout = unat t\<rparr>"

definition idle_sender :: "WrappingInt32 \<Rightarrow> u64 \<Rightarrow> u16 \<Rightarrow> u16 \<Rightarrow> bool \<Rightarrow> tcp_sender" where
  "idle_sender isn cap t w done =
     \<lparr>snd_isn = isn, snd_segments_out = [], snd_segments_outgoing = [], snd_bytes_in_flight = 0,
      snd_recv_ackno = (if done then 2 else 1), snd_window_size = w, snd_stream = empty_stream cap done,
      snd_next_seqno = (if done then 2 else 1),
      snd_syn_flag = True, snd_old_syn_flag = True, snd_fin_sent = done,
      snd_initial_retransmission_timeout = ucast t, snd_consecutive_retransmissions = 0,
      snd_state = stop, snd_time = 0, snd_retransmission_timeout = unat t\<rparr>"

definition fin_sender :: "WrappingInt32 \<Rightarrow> u64 \<Rightarrow> u16 \<Rightarrow> u16 \<Rightarrow> tcp_sender" where
  "fin_sender isn cap t w =
     (idle_sender isn cap t w False)\<lparr>snd_segments_outgoing := [fin_segment isn], snd_bytes_in_flight := 1,
       snd_stream := empty_stream cap True, snd_next_seqno := 2, snd_fin_sent := True, snd_state := running\<rparr>"

definition open_receiver :: "WrappingInt32 \<Rightarrow> u64 \<Rightarrow> tcp_receiver" where
  "open_receiver isn cap = (TCPReceiver_new cap)\<lparr>rcv_isn := isn, rcv_syn_received := True, rcv_ackno := wrap 1 isn\<rparr>"

definition ended_receiver :: "WrappingInt32 \<Rightarrow> u64 \<Rightarrow> tcp_receiver" where
  "ended_receiver isn cap = (TCPReceiver_new cap)\<lparr>rcv_isn := isn, rcv_syn_received := True,
     rcv_fin_received := True, rcv_ackno := wrap 2 isn,
     rcv_reassembler := (StreamReassembler_new cap)\<lparr>ra_eof := True, ra_output := empty_stream cap True\<rparr>\<rparr>"

lemma segment_fields [simp]:
  "slen (syn_segment isn) = 1" "slen (fin_segment isn) = 1" "slen (bare_segment sq) = 0"
  "seqno (ts_header (syn_segment isn)) = wrap 0 isn" "seqno (ts_header (fin_segment isn)) = wrap 1 isn"
  "syn (ts_header (syn_segment isn))" "\<not> syn (ts_header (fin_segment isn))" "\<not> syn (ts_header (bare_segment sq))"
  "\<not> fin (ts_header (syn_segment isn))" "fin (ts_header (fin_segment isn))" "\<not> fin (ts_header (bare_segment sq))"
  "\<not> rst (ts_header (syn_segment isn))" "\<not> rst (ts_header (fin_segment isn))" "\<not> rst (ts_header (bare_segment sq))"
  "Buffer_str (ts_payload (syn_segment isn)) = []" "Buffer_str (ts_payload (fin_segment isn)) = []"
  "Buffer_str (ts_payload (bare_segment sq)) = []"
  by (simp_all add: TCPSegment_length_in_sequence_space_def TCPSegment_default_def TCPHeader_default_def
      syn_segment_def fin_segment_def bare_segment_def add64_def)

lemma stamp_slen [simp]: "slen (set_ack_and_window c seg) = slen seg"
  by (simp add: TCPSegment_length_in_sequence_space_def stamp_fields)

lemma empty_stream_simps [simp]:
  "ByteStream_end_input (empty_stream cap e) = empty_stream cap True"
  "ByteStream_eof (empty_stream cap e) = e" "ByteStream_error (empty_stream cap e) = False"
  "ByteStream_input_ended (empty_stream cap e) = e" "ByteStream_bytes_written (empty_stream cap e) = 0"
  "ByteStream_read (empty_stream cap e) n = Inr ([], empty_stream cap e)"
  "cap < two64 \<Longrightarrow> ByteStream_remaining_capacity (empty_stream cap e) = cap"
  by (simp_all add: empty_stream_def ByteStream_new_def ByteStream_eof_def ByteStream_error_def
      ByteStream_input_ended_def ByteStream_bytes_written_def ByteStream_read_def ByteStream_peek_output_def
      ByteStream_pop_output_def BufferList_concatenate_n_def ByteStream_end_input_def Let_def
      ByteStream_remaining_capacity_def)

lemma new_stream: "ByteStream_new cap = empty_stream cap False"
  by (simp add: empty_stream_def ByteStream_new_def)

subsection \<open>The sender\<close>

lemma fill_new:
  "TCPSender_fill_window (TCPSender_new cap t (Some isn) rnd) =
     Inr ((syn_sender isn cap t)\<lparr>snd_segments_out := [syn_segment isn]\<rparr>)"
  by (simp add: TCPSender_fill_window_def TCPSender_new_def TCPSender_make_segment_and_send_def Let_def syn_sender_def
      syn_segment_def TCPSegment_length_in_sequence_space_def TCPSegment_default_def TCPHeader_default_def add64_def new_stream)

lemma unwrap_small:
  "unwrap (wrap 1 isn) isn 0 = 1" "unwrap (wrap 2 isn) isn 0 = 2" "unwrap (wrap 0 isn) isn 1 = 0"
  "unwrap (wrap 1 isn) isn 1 = 1" "unwrap (wrap 1 isn) isn 2 = 1" "unwrap (wrap 2 isn) isn 2 = 2"
  by (rule unwrap_wrap; simp)+

lemma unat_timeout [simp]: "unat (ucast (t :: u16) :: u32) = unat t"
  using word_bounds(2)[of t] by (simp add: unsigned_ucast_eq take_bit_nat_eq_self)

lemma nothing_flag: "TCPSegment_length_in_sequence_space (TCPSegment_default\<lparr>ts_payload := Buffer_of [], ts_header := TCPHeader_default\<lparr>fin := e\<rparr>\<rparr>)
   = (if e then 1 else 0)"
  by (simp add: TCPSegment_length_in_sequence_space_def TCPSegment_default_def TCPHeader_default_def)

lemma idle_loop:
  assumes "snd_stream s = empty_stream cap False"
  shows "TCPSender_fill_loop w s = Some (Inr s)"
  using assms by (subst TCPSender_fill_loop.simps) (auto simp: Let_def nothing_flag intro!: tcp_sender.equality)

lemma done_loop:
  assumes "snd_stream s = empty_stream cap True" and "snd_fin_sent s"
  shows "TCPSender_fill_loop w s = Some (Inr s)"
  using assms by (subst TCPSender_fill_loop.simps) auto

lemma fill_by_loop:
  assumes "snd_syn_flag s" and "snd_old_syn_flag s"
    and "TCPSender_fill_loop (if snd_window_size s \<noteq> 0 then snd_window_size s else 1) s = Some (Inr s')"
  shows "TCPSender_fill_window s = Inr s'"
  using assms by (simp add: TCPSender_fill_window_def)

lemma fill_idle:
  "TCPSender_fill_window (idle_sender isn cap t w e) = Inr (idle_sender isn cap t w e)"
  by (rule fill_by_loop; cases e) (auto simp: idle_sender_def intro: idle_loop[of _ cap] done_loop[of _ cap])

lemma fill_fin_sender: "TCPSender_fill_window (fin_sender isn cap t w) = Inr (fin_sender isn cap t w)"
  by (rule fill_by_loop) (auto simp: fin_sender_def idle_sender_def intro: done_loop[of _ cap])

lemma fin_loop:
  fixes isn :: WrappingInt32 and cap :: u64 and t w :: u16
  defines "s \<equiv> (idle_sender isn cap t w False)\<lparr>snd_stream := empty_stream cap True\<rparr>"
  assumes "w' \<noteq> 0"
  shows "TCPSender_fill_loop w' s = Some (Inr ((fin_sender isn cap t w)\<lparr>snd_segments_out := [fin_segment isn]\<rparr>))"
proof -
  let ?f = "(fin_sender isn cap t w)\<lparr>snd_segments_out := [fin_segment isn]\<rparr>"
  have "TCPSender_room w' s = unat w'"
    using word_bounds(2)[of w'] by (simp add: TCPSender_room_def s_def idle_sender_def)
  moreover have "unat w' \<noteq> 0" using assms(2) by (simp add: unat_eq_zero)
  moreover have "TCPSender_fill_loop w' ?f = Some (Inr ?f)"
    by (rule done_loop[of _ cap]) (simp_all add: fin_sender_def)
  moreover have "(TCPSender_make_segment_and_send (s\<lparr>snd_stream := empty_stream cap True, snd_fin_sent := True\<rparr>)
      (TCPSegment_default\<lparr>ts_payload := Buffer_of [], ts_header := TCPHeader_default\<lparr>fin := True\<rparr>\<rparr>))\<lparr>snd_state := running\<rparr> = ?f"
    by (simp add: TCPSender_make_segment_and_send_def Let_def s_def fin_sender_def idle_sender_def fin_segment_def
        TCPSegment_length_in_sequence_space_def TCPSegment_default_def TCPHeader_default_def add64_def)
  moreover have "snd_stream s = empty_stream cap True" "\<not> snd_fin_sent s" by (simp_all add: s_def idle_sender_def)
  ultimately show ?thesis
    by (subst TCPSender_fill_loop.simps) (simp add: Let_def nothing_flag)
qed

lemma fill_fin:
  "TCPSender_fill_window ((idle_sender isn cap t w False)\<lparr>snd_stream := empty_stream cap True\<rparr>) =
     Inr ((fin_sender isn cap t w)\<lparr>snd_segments_out := [fin_segment isn]\<rparr>)"
proof -
  let ?s = "(idle_sender isn cap t w False)\<lparr>snd_stream := empty_stream cap True\<rparr>"
  have "(if snd_window_size ?s \<noteq> 0 then snd_window_size ?s else 1) \<noteq> 0" by simp
  from fin_loop[OF this, where isn = isn and cap = cap and t = t and w = w] show ?thesis
    by (rule fill_by_loop[rotated 2]) (simp_all add: idle_sender_def)
qed

lemma ack_all:
  assumes "unwrap a (snd_isn s) (snd_next_seqno s) = snd_next_seqno s" and "snd_recv_ackno s < snd_next_seqno s"
    and "TCPSender_pop_acked (snd_next_seqno s) (snd_segments_outgoing s) (s\<lparr>snd_window_size := w, snd_old_syn_flag := True\<rparr>) = s3"
    and "TCPSender_fill_window s3 = Inr s4" and "snd_segments_outgoing s4 = []"
  shows "TCPSender_ack_received s a w = Inr (True, s4\<lparr>snd_time := 0, snd_consecutive_retransmissions := 0,
     snd_retransmission_timeout := unat (snd_initial_retransmission_timeout s4), snd_state := stop\<rparr>)"
  using assms by (simp add: TCPSender_ack_received_def Let_def)

lemma ack_syn:
  "TCPSender_ack_received (syn_sender isn cap t) (wrap 1 isn) w = Inr (True, idle_sender isn cap t w False)"
proof -
  let ?s = "(syn_sender isn cap t)\<lparr>snd_window_size := w, snd_old_syn_flag := True\<rparr>"
  have p: "TCPSender_pop_acked 1 [syn_segment isn] ?s = (idle_sender isn cap t w False)\<lparr>snd_state := running\<rparr>"
    by (simp add: Let_def syn_sender_def idle_sender_def unwrap_small[unfolded One_nat_def] add64_def)
  have f: "TCPSender_fill_window ((idle_sender isn cap t w False)\<lparr>snd_state := running\<rparr>) =
      Inr ((idle_sender isn cap t w False)\<lparr>snd_state := running\<rparr>)"
    by (rule fill_by_loop) (auto simp: idle_sender_def intro: idle_loop[of _ cap])
  have "TCPSender_ack_received (syn_sender isn cap t) (wrap 1 isn) w = Inr (True, ((idle_sender isn cap t w False)\<lparr>snd_state := running\<rparr>)
      \<lparr>snd_time := 0, snd_consecutive_retransmissions := 0,
       snd_retransmission_timeout := unat (snd_initial_retransmission_timeout ((idle_sender isn cap t w False)\<lparr>snd_state := running\<rparr>)),
       snd_state := stop\<rparr>)"
    using unwrap_small(4)[of isn] p
    by (intro ack_all[OF _ _ _ f]) (simp_all add: syn_sender_def fin_sender_def, simp_all add: idle_sender_def)
  then show ?thesis by (simp add: idle_sender_def)
qed

lemma ack_fin:
  "TCPSender_ack_received (fin_sender isn cap t w) (wrap 2 isn) w' = Inr (True, idle_sender isn cap t w' True)"
proof -
  let ?s = "(fin_sender isn cap t w)\<lparr>snd_window_size := w', snd_old_syn_flag := True\<rparr>"
  have p: "TCPSender_pop_acked 2 [fin_segment isn] ?s = (idle_sender isn cap t w' True)\<lparr>snd_state := running\<rparr>"
    by (simp add: Let_def fin_sender_def idle_sender_def unwrap_small[unfolded One_nat_def] add64_def)
  have f: "TCPSender_fill_window ((idle_sender isn cap t w' True)\<lparr>snd_state := running\<rparr>) =
      Inr ((idle_sender isn cap t w' True)\<lparr>snd_state := running\<rparr>)"
    by (rule fill_by_loop) (auto simp: idle_sender_def intro: done_loop[of _ cap])
  have "TCPSender_ack_received (fin_sender isn cap t w) (wrap 2 isn) w' = Inr (True, ((idle_sender isn cap t w' True)\<lparr>snd_state := running\<rparr>)
      \<lparr>snd_time := 0, snd_consecutive_retransmissions := 0,
       snd_retransmission_timeout := unat (snd_initial_retransmission_timeout ((idle_sender isn cap t w' True)\<lparr>snd_state := running\<rparr>)),
       snd_state := stop\<rparr>)"
    using unwrap_small(6)[of isn] p
    by (intro ack_all[OF _ _ _ f]) (simp_all add: syn_sender_def fin_sender_def, simp_all add: idle_sender_def)
  then show ?thesis by (simp add: idle_sender_def)
qed

lemma ack_again:
  "TCPSender_ack_received (idle_sender isn cap t w e) (wrap (if e then 2 else 1) isn) w' =
     Inr (True, idle_sender isn cap t w' e)"
  using unwrap_small(4,6)[of isn] by (cases e) (simp_all add: TCPSender_ack_received_def Let_def idle_sender_def)

subsection \<open>The receiver\<close>

lemma receive_syn:
  assumes "syn (ts_header seg)" "\<not> fin (ts_header seg)" "Buffer_str (ts_payload seg) = []"
  shows "TCPReceiver_segment_received (TCPReceiver_new cap) seg = Inr (True, open_receiver (seqno (ts_header seg)) cap)"
  using assms push_nothing[of "StreamReassembler_new cap"]
  by (auto simp: TCPReceiver_segment_received_def Let_def TCPReceiver_new_def open_receiver_def StreamReassembler_eof_def
      Buffer_copy_def StreamReassembler_first_unassembled_byte_def StreamReassembler_new_def add64_def)

lemma rcv_inv_open:
  assumes "cap < 2 ^ 32" shows "rcv_inv [] isn (open_receiver isn cap)"
  using ra_new_inv[of cap "[]"] ra_new_eof[of "[]" cap] assms
  by (simp add: rcv_inv_def open_receiver_def TCPReceiver_new_def rcv_end_def)
     (simp add: StreamReassembler_new_def)

lemma receive_fin:
  assumes cap: "cap < 2 ^ 32" and seg: "\<not> syn (ts_header seg)" "fin (ts_header seg)" "Buffer_str (ts_payload seg) = []"
    "seqno (ts_header seg) = wrap 1 isn"
  shows "TCPReceiver_segment_received (open_receiver isn cap) seg = Inr (True, ended_receiver isn cap)"
proof -
  have w: "TCPReceiver_window_size (open_receiver isn cap) = cap"
    using cap by (simp add: TCPReceiver_window_size_def TCPReceiver_stream_out_def StreamReassembler_stream_out_def
        open_receiver_def TCPReceiver_new_def StreamReassembler_new_def new_stream)
  have o: "rcv_isn (open_receiver isn cap) = isn" "rcv_ackno (open_receiver isn cap) = wrap 1 isn"
    "rcv_checkpoint (open_receiver isn cap) = 0" "rcv_syn_received (open_receiver isn cap)"
    "\<not> rcv_fin_received (open_receiver isn cap)" "rcv_reassembler (open_receiver isn cap) = StreamReassembler_new cap"
    by (simp_all add: open_receiver_def TCPReceiver_new_def)
  have "1 \<le> sub64 (add64 1 (if cap \<noteq> 0 then cap else 1)) 1"
    using cap by (simp add: add64_exact sub64_exact)
  then have inb: "TCPReceiver_inbound (open_receiver isn cap) seg"
    unfolding TCPReceiver_inbound_def Let_def o w seg(4) unwrap_small(1) by simp
  let ?ra = "(StreamReassembler_new cap)\<lparr>ra_eof := True, ra_output := empty_stream cap True\<rparr>"
  have push: "StreamReassembler_push_substring (StreamReassembler_new cap) [] j True = Inr ?ra" for j
    by (simp add: StreamReassembler_push_substring_def Let_def StreamReassembler_new_def new_stream)
  have "add64 (add64 0 1) 1 = 2" by (simp add: add64_def)
  then show ?thesis
    using inb seg push o
    by (simp add: TCPReceiver_segment_received_def Let_def StreamReassembler_eof_def Buffer_copy_def
        StreamReassembler_first_unassembled_byte_def StreamReassembler_unassembled_bytes_def)
       (simp add: StreamReassembler_new_def ended_receiver_def open_receiver_def TCPReceiver_new_def)
qed

lemma rcv_inv_ended:
  assumes "cap < 2 ^ 32" shows "rcv_inv [] isn (ended_receiver isn cap)"
  using ra_new_inv[of cap "[]"] assms
  by (simp add: rcv_inv_def ended_receiver_def TCPReceiver_new_def rcv_end_def ra_eof_inv_def)
     (simp add: StreamReassembler_new_def ra_inv_def empty_stream_def ra_limit_def
       ByteStream_end_input_def[symmetric] numeral_2_eq_2[symmetric])

lemmas receive_bare_open = rcv_bare_ok[OF rcv_inv_open]
lemmas receive_bare_ended = rcv_bare_ok[OF rcv_inv_ended]


subsection \<open>The connection\<close>

lemma stamp_ack [simp]:
  "ack (ts_header (set_ack_and_window c seg)) \<longleftrightarrow> rcv_syn_received (tc_receiver c) \<or> ack (ts_header seg)"
  "rcv_syn_received (tc_receiver c) \<Longrightarrow> ackno (ts_header (set_ack_and_window c seg)) = rcv_ackno (tc_receiver c)"
  by (simp_all add: set_ack_and_window_def Let_def TCPReceiver_ackno_def)

lemma pop_bare:
  assumes "snd_segments_out (tc_sender c) = []"
  shows "TCPConnection_pop_empty c = Inr (bare_segment (TCPSender_next_seqno (tc_sender c)), c)"
  using assms
  by (auto simp: TCPConnection_pop_empty_def TCPSender_send_empty_segment_def Let_def bare_segment_def
      TCPSender_next_seqno_def intro!: tcp_connection.equality tcp_sender.equality)

lemma sender_fields [simp]:
  "snd_segments_out (syn_sender isn cap t) = []" "snd_syn_flag (syn_sender isn cap t)" 
  "snd_segments_out (idle_sender isn cap t w e) = []" "snd_syn_flag (idle_sender isn cap t w e)"
  "snd_stream (idle_sender isn cap t w e) = empty_stream cap e"
  "snd_segments_out (fin_sender isn cap t w) = []" "snd_syn_flag (fin_sender isn cap t w)"
  "snd_stream (fin_sender isn cap t w) = empty_stream cap True"
  "snd_stream (syn_sender isn cap t) = empty_stream cap False"
  "(syn_sender isn cap t)\<lparr>snd_segments_out := []\<rparr> = syn_sender isn cap t"
  "(idle_sender isn cap t w e)\<lparr>snd_segments_out := []\<rparr> = idle_sender isn cap t w e"
  "(fin_sender isn cap t w)\<lparr>snd_segments_out := []\<rparr> = fin_sender isn cap t w"
  "TCPSender_next_seqno (idle_sender isn cap t w e) = wrap (if e then 2 else 1) isn"
  by (simp_all add: syn_sender_def idle_sender_def fin_sender_def TCPSender_next_seqno_def)

lemma receiver_fields [simp]:
  "TCPReceiver_stream_out (open_receiver isn cap) = empty_stream cap False"
  "TCPReceiver_stream_out (ended_receiver isn cap) = empty_stream cap True"
  "rcv_syn_received (open_receiver isn cap)" "rcv_syn_received (ended_receiver isn cap)"
  "rcv_ackno (open_receiver isn cap) = wrap 1 isn" "rcv_ackno (ended_receiver isn cap) = wrap 2 isn"
  by (simp_all add: open_receiver_def ended_receiver_def TCPReceiver_new_def StreamReassembler_new_def
      TCPReceiver_stream_out_def StreamReassembler_stream_out_def new_stream)

text \<open>An endpoint with its fields in order; \<open>stamp r seg\<close> is \<open>seg\<close> with acknowledgment and window of \<open>r\<close>.\<close>

definition endpoint :: "tcp_config \<Rightarrow> tcp_receiver \<Rightarrow> tcp_sender \<Rightarrow> tcp_segment list \<Rightarrow> bool \<Rightarrow> tcp_connection" where
  "endpoint cfg r s q l =
     \<lparr>tc_cfg = cfg, tc_receiver = r, tc_sender = s, tc_segments_out = q, tc_linger_after_streams_finish = l,
      tc_if_active = True, tc_time_since_last_segment_received = 0\<rparr>"

definition stamp :: "tcp_receiver \<Rightarrow> tcp_segment \<Rightarrow> tcp_segment" where
  "stamp r seg = set_ack_and_window (endpoint TCPConfig_default r (TCPSender_new 0 0 None 0) [] True) seg"

lemma set_stamp: "set_ack_and_window c = stamp (tc_receiver c)"
  unfolding stamp_def by (rule ext, rule fun_cong[OF stamp_receiver]) (simp add: endpoint_def)

lemma stamp_simps [simp]:
  "ts_payload (stamp r seg) = ts_payload seg" "syn (ts_header (stamp r seg)) = syn (ts_header seg)"
  "fin (ts_header (stamp r seg)) = fin (ts_header seg)" "rst (ts_header (stamp r seg)) = rst (ts_header seg)"
  "seqno (ts_header (stamp r seg)) = seqno (ts_header seg)" "slen (stamp r seg) = slen seg"
  "ack (ts_header (stamp r seg)) \<longleftrightarrow> rcv_syn_received r \<or> ack (ts_header seg)"
  "rcv_syn_received r \<Longrightarrow> ackno (ts_header (stamp r seg)) = rcv_ackno r"
  by (simp_all add: stamp_def stamp_fields) (simp_all add: endpoint_def)

lemma unstamped [simp]: "\<not> ack (ts_header (syn_segment isn))" "\<not> rcv_syn_received (TCPReceiver_new n)"
  by (simp_all add: syn_segment_def TCPHeader_default_def TCPReceiver_new_def)

lemma bare_stamped [simp]: "seg_bare (stamp r (bare_segment sq))"
  by (simp add: seg_bare_def)

lemmas handler_defs = TCPConnection_segment_received_def Let_def TCPConnection_check_linger_def
  TCPConnection_ack_branch_def TCPConnection_reply_def drain_eq set_stamp TCPSender_syn_sent_def endpoint_def

text \<open>What arrives at each side, and what it leaves.\<close>

lemma conn_connect:
  "TCPConnection_connect (endpoint cfg r (TCPSender_new sc t (Some isn) rnd) q l) =
     Inr (endpoint cfg r (syn_sender isn sc t) (q @ [stamp r (syn_segment isn)]) l)"
  by (simp add: TCPConnection_connect_def fill_new drain_eq endpoint_def set_stamp)

lemma conn_syn_listen:
  assumes "syn (ts_header seg)" "\<not> fin (ts_header seg)" "\<not> rst (ts_header seg)" "\<not> ack (ts_header seg)"
    "Buffer_str (ts_payload seg) = []" "slen seg = 1" "seqno (ts_header seg) = p"
  shows "TCPConnection_segment_received (endpoint cfg (TCPReceiver_new rc) (TCPSender_new sc t (Some isn) rnd) q l) seg =
    Inr (endpoint cfg (open_receiver p rc) (syn_sender isn sc t) (q @ [stamp (open_receiver p rc) (syn_segment isn)]) l)"
  using assms receive_syn[of seg rc] by (simp add: handler_defs fill_new)

lemma conn_synack:
  assumes "syn (ts_header seg)" "\<not> fin (ts_header seg)" "\<not> rst (ts_header seg)" "ack (ts_header seg)"
    "ackno (ts_header seg) = wrap 1 isn" "Buffer_str (ts_payload seg) = []" "slen seg = 1" "seqno (ts_header seg) = p"
  shows "TCPConnection_segment_received (endpoint cfg (TCPReceiver_new rc) (syn_sender isn sc t) q l) seg =
    Inr (endpoint cfg (open_receiver p rc) (idle_sender isn sc t (win (ts_header seg)) False)
      (q @ [stamp (open_receiver p rc) (bare_segment (wrap 1 isn))]) l)"
  using assms receive_syn[of seg rc] ack_syn[of isn sc t] by (simp add: handler_defs fill_idle pop_bare)

lemma conn_ack_syn:
  assumes "rc < 2 ^ 32" "seg_bare seg" "\<not> rst (ts_header seg)" "ack (ts_header seg)"
    "ackno (ts_header seg) = wrap 1 isn" "slen seg = 0"
  shows "TCPConnection_segment_received (endpoint cfg (open_receiver p rc) (syn_sender isn sc t) q l) seg =
    Inr (endpoint cfg (open_receiver p rc) (idle_sender isn sc t (win (ts_header seg)) False) q l)"
proof -
  obtain a where "TCPReceiver_segment_received (open_receiver p rc) seg = Inr (a, open_receiver p rc)"
    using receive_bare_open[OF assms(1,2)] by blast
  then show ?thesis
    using assms ack_syn[of isn sc t "win (ts_header seg)"] by (simp add: handler_defs fill_idle)
qed

lemma conn_end:
  "TCPConnection_end_input_stream (endpoint cfg r (idle_sender isn sc t w False) q l) =
     Inr (endpoint cfg r (fin_sender isn sc t w) (q @ [stamp r (fin_segment isn)]) l)"
  by (simp add: TCPConnection_end_input_stream_def drain_eq fill_fin endpoint_def set_stamp)

lemma conn_fin:
  assumes "rc < 2 ^ 32" "\<not> syn (ts_header seg)" "fin (ts_header seg)" "Buffer_str (ts_payload seg) = []"
    "seqno (ts_header seg) = wrap 1 p" "\<not> rst (ts_header seg)" "ack (ts_header seg)"
    "ackno (ts_header seg) = wrap (if e then 2 else 1) isn" "slen seg = 1"
  shows "TCPConnection_segment_received (endpoint cfg (open_receiver p rc) (idle_sender isn sc t w e) q l) seg =
    Inr (endpoint cfg (ended_receiver p rc) (idle_sender isn sc t (win (ts_header seg)) e)
      (q @ [stamp (ended_receiver p rc) (bare_segment (wrap (if e then 2 else 1) isn))]) (l \<and> e))"
  using assms(6-) receive_fin[OF assms(1-5)] ack_again[of isn sc t w e "win (ts_header seg)"]
  by (cases e) (simp_all add: handler_defs fill_idle pop_bare)

lemma conn_ack_fin:
  assumes "\<exists>a. TCPReceiver_segment_received r seg = Inr (a, r)"
    "\<not> rst (ts_header seg)" "ack (ts_header seg)" "ackno (ts_header seg) = wrap 2 isn" "slen seg = 0"
  shows "TCPConnection_segment_received (endpoint cfg r (fin_sender isn sc t w) q l) seg =
    Inr (endpoint cfg r (idle_sender isn sc t (win (ts_header seg)) True) q l)"
proof -
  obtain a where "TCPReceiver_segment_received r seg = Inr (a, r)" using assms(1) by blast
  then show ?thesis
    using assms(2-) ack_fin[of isn sc t w "win (ts_header seg)"] by (simp add: handler_defs fill_idle)
qed

lemma conn_tick_idle:
  assumes "ms < two64"
  shows "TCPConnection_tick (endpoint cfg (ended_receiver p rc) (idle_sender isn sc t w True) q l) ms =
    (endpoint cfg (ended_receiver p rc) (idle_sender isn sc t w True) q l)
      \<lparr>tc_time_since_last_segment_received := ms, tc_if_active := l \<and> ms < 10 * unat (rt_timeout cfg)\<rparr>"
proof -
  let ?s = "idle_sender isn sc t w True"
  have "TCPSender_tick ?s ms = ?s" "TCPSender_fin_sent ?s" "TCPSender_bytes_in_flight ?s = 0"
    by (simp_all add: TCPSender_tick_def TCPSender_fin_sent_def TCPSender_bytes_in_flight_def, simp_all add: idle_sender_def)
  then show ?thesis
    using assms by (auto simp: TCPConnection_tick_def TCPConnection_retransmit_def TCPConnection_finish_def Let_def endpoint_def)
qed

subsection \<open>States\<close>

lemma summaries [simp]:
  "sender_state_summary (syn_sender isn sc t) = SENDER_SYN_SENT"
  "sender_state_summary (idle_sender isn sc t w e) = (if e then SENDER_FIN_ACKED else SENDER_SYN_ACKED)"
  "sender_state_summary (fin_sender isn sc t w) = SENDER_FIN_SENT"
  "receiver_state_summary (TCPReceiver_new rc) = RECEIVER_LISTEN"
  "receiver_state_summary (open_receiver p rc) = RECEIVER_SYN_RECV"
  "receiver_state_summary (ended_receiver p rc) = RECEIVER_FIN_RECV"
proof -
  show "sender_state_summary (idle_sender isn sc t w e) = (if e then SENDER_FIN_ACKED else SENDER_SYN_ACKED)"
    by (simp add: sender_state_summary_def TCPSender_next_seqno_absolute_def TCPSender_bytes_in_flight_def add64_def)
       (simp add: idle_sender_def)
  show "receiver_state_summary (TCPReceiver_new rc) = RECEIVER_LISTEN"
    by (simp add: receiver_state_summary_def TCPReceiver_ackno_def TCPReceiver_new_def
        TCPReceiver_stream_out_def StreamReassembler_stream_out_def StreamReassembler_new_def new_stream)
qed (simp_all add: sender_state_summary_def TCPSender_next_seqno_absolute_def TCPSender_bytes_in_flight_def add64_def
      receiver_state_summary_def TCPReceiver_ackno_def, simp_all add: syn_sender_def fin_sender_def idle_sender_def)


section \<open>Properties\<close>

text \<open>The last segment of one endpoint arrives at the other.\<close>

definition deliver :: "tcp_connection \<Rightarrow> tcp_connection \<Rightarrow> tcp_connection result" where
  "deliver x y = TCPConnection_segment_received y (last (tc_segments_out x))"

definition in_state :: "tcp_connection \<Rightarrow> official_state \<Rightarrow> bool" where
  "in_state c s \<longleftrightarrow> TCPState_eq (TCPConnection_state c) (TCPState_of_State s)"

definition handshake :: "tcp_config \<Rightarrow> u32 \<Rightarrow> tcp_config \<Rightarrow> u32 \<Rightarrow> (tcp_connection \<times> tcp_connection) result" where
  "handshake ca ra cb rb =
     rbind (TCPConnection_connect (TCPConnection_new ca ra)) (\<lambda>a1.
     rbind (deliver a1 (TCPConnection_new cb rb)) (\<lambda>b1.
     rbind (deliver b1 a1) (\<lambda>a2.
     rbind (deliver a2 b1) (\<lambda>b2. Inr (a2, b2)))))"

lemma wrap_0 [simp]: "wrap 0 isn = isn"
  by (simp add: wrap_def)

lemma new_endpoint: "TCPConnection_new cfg rnd = endpoint cfg (TCPReceiver_new (recv_capacity cfg))
    (TCPSender_new (send_capacity cfg) (rt_timeout cfg) (fixed_isn cfg) rnd) [] True"
  by (simp add: TCPConnection_new_def endpoint_def)

lemma in_state_endpoint: "in_state (endpoint cfg r s q l) st \<longleftrightarrow>
    TCPState_of_State st = \<lparr>st_sender = sender_state_summary s, st_receiver = receiver_state_summary r, st_active = True, st_linger = l\<rparr>"
  by (auto simp: in_state_def TCPState_eq_def TCPConnection_state_def TCPState_of_def TCPConnection_active_def endpoint_def)

lemma in_state_ticked: "in_state ((endpoint cfg r s q l)\<lparr>tc_time_since_last_segment_received := n, tc_if_active := ac\<rparr>) st \<longleftrightarrow>
    TCPState_of_State st = \<lparr>st_sender = sender_state_summary s, st_receiver = receiver_state_summary r,
      st_active = ac, st_linger = ac \<and> l\<rparr>"
  by (auto simp: in_state_def TCPState_eq_def TCPConnection_state_def TCPState_of_def TCPConnection_active_def endpoint_def)

lemma endpoint_out [simp]: "tc_segments_out (endpoint cfg r s q l) = q"
  by (simp add: endpoint_def)

lemma endpoint_flight [simp]:
  "TCPConnection_bytes_in_flight (endpoint cfg r (idle_sender isn sc t w e) q l) = 0"
  by (simp add: TCPConnection_bytes_in_flight_def TCPSender_bytes_in_flight_def endpoint_def idle_sender_def)

lemmas handshake_steps = new_endpoint conn_connect deliver_def conn_syn_listen conn_synack conn_ack_syn
  in_state_endpoint TCPState_of_State_def

text \<open>C8: two endpoints with any initial sequence numbers establish a connection in three segments: the
  client goes from SYN_SENT to ESTABLISHED when the answer to its SYN arrives, the server from
  SYN_RCVD to ESTABLISHED when that is acknowledged.\<close>

theorem three_way_handshake:
  assumes "fixed_isn ca = Some a" "recv_capacity ca < 2 ^ 32" "fixed_isn cb = Some b" "recv_capacity cb < 2 ^ 32"
  shows "\<exists>a1 b1 a2 b2. TCPConnection_connect (TCPConnection_new ca ra) = Inr a1 \<and> in_state a1 SYN_SENT \<and>
    deliver a1 (TCPConnection_new cb rb) = Inr b1 \<and> in_state b1 SYN_RCVD \<and>
    deliver b1 a1 = Inr a2 \<and> in_state a2 ESTABLISHED \<and> deliver a2 b1 = Inr b2 \<and> in_state b2 ESTABLISHED \<and>
    TCPConnection_bytes_in_flight a2 = 0 \<and> TCPConnection_bytes_in_flight b2 = 0"
  using assms
  by (simp add: handshake_steps)

definition example_config :: "u32 \<Rightarrow> tcp_config" where
  "example_config isn = TCPConfig_default\<lparr>fixed_isn := Some isn\<rparr>"

lemma example_config_fields [simp]:
  "fixed_isn (example_config isn) = Some isn" "recv_capacity (example_config isn) = 64000"
  "send_capacity (example_config isn) = 64000" "rt_timeout (example_config isn) = 1000"
  by (simp_all add: example_config_def TCPConfig_default_def DEFAULT_CAPACITY_def TIMEOUT_DFLT_def)

theorem three_way_handshake_witness:
  "\<exists>a1 b1 a2 b2. TCPConnection_connect (TCPConnection_new (example_config 4294967295) 0) = Inr a1 \<and>
    deliver a1 (TCPConnection_new (example_config 7) 0) = Inr b1 \<and>
    deliver b1 a1 = Inr a2 \<and> in_state a2 ESTABLISHED \<and> deliver a2 b1 = Inr b2 \<and> in_state b2 ESTABLISHED"
  using three_way_handshake[of "example_config 4294967295" 4294967295 "example_config 7" 7 0 0] by auto

text \<open>C19: from there, when one side closes and then the other, they pass through FIN_WAIT_1, CLOSE_WAIT,
  FIN_WAIT_2, LAST_ACK and TIME_WAIT; the side that closed last is closed at its next tick, the other
  stays in TIME_WAIT for exactly ten times the initial timeout and is closed then.\<close>

theorem orderly_release:
  assumes "fixed_isn ca = Some a" "recv_capacity ca < 2 ^ 32" "fixed_isn cb = Some b" "recv_capacity cb < 2 ^ 32"
    and "handshake ca ra cb rb = Inr (x, y)" and "ms < 2 ^ 64"
  shows "\<exists>x1 y1 x2 y2 x3 y3. TCPConnection_end_input_stream x = Inr x1 \<and> in_state x1 FIN_WAIT_1 \<and>
    deliver x1 y = Inr y1 \<and> in_state y1 CLOSE_WAIT \<and> deliver y1 x1 = Inr x2 \<and> in_state x2 FIN_WAIT_2 \<and>
    TCPConnection_end_input_stream y1 = Inr y2 \<and> in_state y2 LAST_ACK \<and>
    deliver y2 x2 = Inr x3 \<and> in_state x3 TIME_WAIT \<and> deliver x3 y2 = Inr y3 \<and>
    in_state (TCPConnection_tick y3 ms) CLOSED \<and>
    in_state (TCPConnection_tick x3 ms) (if ms < 10 * unat (rt_timeout ca) then TIME_WAIT else CLOSED)"
proof -
  obtain wx wy qx qy where
    x: "x = endpoint ca (open_receiver b (recv_capacity ca)) (idle_sender a (send_capacity ca) (rt_timeout ca) wx False) qx True"
    and y: "y = endpoint cb (open_receiver a (recv_capacity cb)) (idle_sender b (send_capacity cb) (rt_timeout cb) wy False) qy True"
    using assms(1-5) by (simp add: handshake_def handshake_steps) metis
  show ?thesis
    using assms(1-4,6) receive_bare_open[OF assms(2)] receive_bare_ended[OF assms(4)] receive_bare_open[OF assms(4)] receive_bare_ended[OF assms(2)]
    by (simp add: x y conn_end conn_fin conn_ack_fin deliver_def in_state_endpoint in_state_ticked
        TCPState_of_State_def conn_tick_idle)
qed


theorem orderly_release_witness:
  "\<exists>x y x1 y1. handshake (example_config 4294967295) 0 (example_config 7) 0 = Inr (x, y) \<and>
    TCPConnection_end_input_stream x = Inr x1 \<and> deliver x1 y = Inr y1 \<and> in_state y1 CLOSE_WAIT"
proof -
  obtain x y where xy: "handshake (example_config 4294967295) 0 (example_config 7) 0 = Inr (x, y)"
    by (simp add: handshake_def handshake_steps)
  then show ?thesis
    using orderly_release[of "example_config 4294967295" 4294967295 "example_config 7" 7 0 0 x y 0] by auto
qed



text \<open>Every segment a call adds to the queue carries the acknowledgment of everything the receiver has
  assembled when the call returns, and a window of its free capacity cut to 65535.\<close>

theorem segments_carry_ack_and_window:
  assumes "conn_inv S P isn (out, c)" and "conn_op_ok S P isn (out, c) p"
  shows "\<exists>out' c' new. conn_step (out, c) p = Inr (out', c') \<and> tc_segments_out c' = tc_segments_out c @ new \<and>
    (\<forall>seg\<in>set new.
       unat (win (ts_header seg)) = min 65535 (TCPReceiver_window_size (tc_receiver c')) \<and>
       (case TCPReceiver_ackno (tc_receiver c') of None \<Rightarrow> True
        | Some a \<Rightarrow> ack (ts_header seg) \<and> ackno (ts_header seg) = a))"
  using conn_step_post[OF assms] by (auto simp: conn_post_def seg_stamped_def)

theorem segments_carry_ack_and_window_witness:
  "\<exists>out' c'. conn_step ([], TCPConnection_new (example_config 5) 0) (Conn_segment (tcp_seg 9 True False [])) = Inr (out', c')"
proof -
  have "conn_inv [1, 2] [7, 8] 9 ([], TCPConnection_new (example_config 5) 0)" by (rule conn_new_inv) simp_all
  moreover have "conn_op_ok [1, 2] [7, 8] 9 ([], TCPConnection_new (example_config 5) 0) (Conn_segment (tcp_seg 9 True False []))"
    by code_simp
  ultimately show ?thesis using segments_carry_ack_and_window by blast
qed


lemma in_state_queue [simp]: "in_state (c\<lparr>tc_segments_out := q\<rparr>) s = in_state c s"
  by (simp add: in_state_def TCPConnection_state_def TCPConnection_active_def)

lemma reset_state: "in_state (TCPConnection_set_errors c) RESET"
  by (simp add: in_state_def TCPState_eq_def TCPConnection_state_def TCPState_of_def TCPConnection_active_def
      TCPState_of_State_def TCPConnection_set_errors_def sender_state_summary_def receiver_state_summary_def
      TCPReceiver_stream_out_def StreamReassembler_stream_out_def ByteStream_error_def)


lemma connected_example:
  "\<exists>c. TCPConnection_connect (TCPConnection_new (example_config 5) 0) = Inr c \<and> conn_inv [1] [2] 9 ([], c) \<and>
    tc_sender c = syn_sender 5 64000 1000"
proof -
  obtain s where s: "conn_step ([], TCPConnection_new (example_config 5) 0) Conn_connect = Inr s" "conn_inv [1] [2] 9 s"
    using conn_step_post[of "[1]" "[2]" 9 "([], TCPConnection_new (example_config 5) 0)" Conn_connect]
      conn_new_inv[of "example_config 5" "[1]" "[2]"] by (auto simp: conn_post_def)
  obtain c where c: "s = ([], c)" "TCPConnection_connect (TCPConnection_new (example_config 5) 0) = Inr c"
    using s(1) by (auto simp: rbind_Inr_conv)
  have "tc_sender c = syn_sender 5 64000 1000" using c(2) by (auto simp: new_endpoint conn_connect) (simp add: endpoint_def)
  then show ?thesis using c s(2) by blast
qed


text \<open>C21: when the retransmission timer expires, the oldest outstanding segment is sent again; after more
  than \<open>MAX_RETX_ATTEMPTS\<close> in a row the connection is aborted instead: the segment carries RST and the
  state is RESET.\<close>

theorem gives_up_after_max_retransmissions:
  assumes "conn_inv S P isn (out, c)" and "snd_state (tc_sender c) = running"
    and "snd_segments_outgoing (tc_sender c) = seg # segs"
    and "snd_retransmission_timeout (tc_sender c) \<le> snd_time (tc_sender c) + ms" and "snd_time (tc_sender c) + ms < 2 ^ 64"
    and "n = TCPSender_consecutive_retransmissions (tc_sender c)" and "unat n < 2 ^ 32 - 1"
  shows "\<exists>s. tc_segments_out (TCPConnection_tick c ms) = tc_segments_out c @ [s] \<and>
    seqno (ts_header s) = seqno (ts_header seg) \<and> ts_payload s = ts_payload seg \<and>
    (if unat n < unat MAX_RETX_ATTEMPTS
     then rst (ts_header s) = rst (ts_header seg) \<and> TCPConnection_active (TCPConnection_tick c ms) = TCPConnection_active c
     else rst (ts_header s) \<and> in_state (TCPConnection_tick c ms) RESET)"
proof -
  let ?s = "tc_sender c"
  have inv: "snd_inv S ?s" and q: "snd_segments_out ?s = []" using assms(1) by (simp_all add: conn_inv_def)
  have fl: "TCPSender_bytes_in_flight ?s \<noteq> 0"
    using snd_inv_basic(8,9)[OF inv] segs_chain_sum[OF snd_inv_basic(8)[OF inv]] assms(3)
    by (auto simp: TCPSender_bytes_in_flight_def)
  have n1: "unat (n + 1) = unat n + 1" using assms(7) by (simp add: unat_word_ariths)
  have gt: "MAX_RETX_ATTEMPTS < n + 1 \<longleftrightarrow> \<not> unat n < unat MAX_RETX_ATTEMPTS"
    unfolding word_less_nat_alt n1 by auto
  define t where "t = ?s\<lparr>snd_consecutive_retransmissions := n + 1, snd_retransmission_timeout := mul64 (snd_retransmission_timeout ?s) 2,
    snd_time := 0, snd_segments_out := [seg]\<rparr>"
  have t: "TCPSender_tick ?s ms = t"
    using assms(2-6) q by (simp add: TCPSender_tick_def Let_def add64_exact t_def TCPSender_consecutive_retransmissions_def)
  have tf: "TCPSender_bytes_in_flight (t\<lparr>snd_segments_out := []\<rparr>) \<noteq> 0" "snd_segments_out t = [seg]"
    "TCPSender_consecutive_retransmissions (t\<lparr>snd_segments_out := []\<rparr>) = n + 1"
    using fl by (simp_all add: t_def TCPSender_bytes_in_flight_def TCPSender_consecutive_retransmissions_def)
  define d where "d = c\<lparr>tc_time_since_last_segment_received := add64 (tc_time_since_last_segment_received c) ms,
    tc_sender := t\<lparr>snd_segments_out := []\<rparr>\<rparr>"
  have fin: "TCPConnection_finish e = e" if "TCPSender_bytes_in_flight (tc_sender e) \<noteq> 0" for e
    using that by (simp add: TCPConnection_finish_def Let_def)
  let ?x = "set_ack_and_window d seg"
  let ?r = "?x\<lparr>ts_header := (ts_header ?x)\<lparr>rst := True\<rparr>\<rparr>"
  have re: "TCPConnection_retransmit (d\<lparr>tc_sender := t\<rparr>) =
     (if unat n < unat MAX_RETX_ATTEMPTS then d\<lparr>tc_segments_out := tc_segments_out c @ [?x]\<rparr>
      else (TCPConnection_set_errors d)\<lparr>tc_segments_out := tc_segments_out c @ [?r]\<rparr>)"
    using tf gt by (simp add: TCPConnection_retransmit_def Let_def d_def TCPConnection_set_errors_def)
  have "TCPSender_bytes_in_flight (tc_sender (TCPConnection_retransmit (d\<lparr>tc_sender := t\<rparr>))) \<noteq> 0"
    unfolding re using tf(1) by (simp add: d_def TCPConnection_set_errors_def TCPSender_bytes_in_flight_def)
  from fin[OF this] have "TCPConnection_tick c ms = TCPConnection_retransmit (d\<lparr>tc_sender := t\<rparr>)"
    by (simp add: TCPConnection_tick_def t d_def)
  then show ?thesis
    using reset_state[of d] unfolding re by (auto simp: stamp_fields) (simp_all add: d_def TCPConnection_active_def)
qed


theorem gives_up_after_max_retransmissions_witness:
  "\<exists>c s. TCPConnection_connect (TCPConnection_new (example_config 5) 0) = Inr c \<and>
    tc_segments_out (TCPConnection_tick c 1000) = tc_segments_out c @ [s] \<and> seqno (ts_header s) = 5"
proof -
  obtain c where c: "TCPConnection_connect (TCPConnection_new (example_config 5) 0) = Inr c" "conn_inv [1] [2] 9 ([], c)"
    and sender: "tc_sender c = syn_sender 5 64000 1000" using connected_example by blast
  from gives_up_after_max_retransmissions[OF c(2), of "syn_segment 5" "[]" 1000 0] c(1) show ?thesis
    by (auto simp: sender TCPSender_consecutive_retransmissions_def) (auto simp: syn_sender_def)
qed

text \<open>The summaries of the twelve official states are pairwise different, so a connection is in at
  most one of them.\<close>

theorem official_states_distinct:
  "TCPState_neq (TCPState_of_State s) (TCPState_of_State t) \<longleftrightarrow> s \<noteq> t"
  by (cases s; cases t) (simp_all add: TCPState_neq_def TCPState_eq_def TCPState_of_State_def
    RECEIVER_ERROR_def RECEIVER_LISTEN_def RECEIVER_SYN_RECV_def RECEIVER_FIN_RECV_def SENDER_ERROR_def SENDER_CLOSED_def
    SENDER_SYN_SENT_def SENDER_SYN_ACKED_def SENDER_FIN_SENT_def SENDER_FIN_ACKED_def)


section \<open>Observations\<close>

text \<open>
  The peer's stream has ended, but its bytes are not all read: although this side has not ended its own
  stream, it keeps lingering, because the test is \<open>eof\<close> and not \<open>input_ended\<close>.
\<close>

lemma unread_data_keeps_lingering:
  assumes "ByteStream_input_ended (TCPConnection_inbound_stream c)"
    and "\<not> ByteStream_buffer_empty (TCPConnection_inbound_stream c)"
  shows "TCPConnection_check_linger c = c"
  using assms by (simp add: TCPConnection_check_linger_def TCPConnection_inbound_stream_def ByteStream_eof_def
      ByteStream_buffer_empty_def)

end
