(* ===== verification/End_To_End.thy ===== *)
theory End_To_End
  imports Connection_Correct
begin

text \<open>
  Two connections and the network between them (\<open>libsponge/tcp_connection.cc\<close> at both ends).  Each end keeps
  every segment it has handed to the network; the network may deliver any of them to the other end, at any
  time, in any order, more than once or never.
\<close>

section \<open>Two ends and a network\<close>

type_synonym conn_end = "byte list \<times> tcp_connection"

datatype net_op = At_A conn_op | At_B conn_op | To_A nat | To_B nat

text \<open>\<open>To_B n\<close> delivers to the second end the segment that the first end sent as its \<open>n\<close>-th.\<close>

fun deliver_nth :: "conn_end \<Rightarrow> nat \<Rightarrow> conn_end \<Rightarrow> conn_end result" where
  "deliver_nth (_, from) n to_end =
     (if n < length (tc_segments_out from) then conn_step to_end (Conn_segment (tc_segments_out from ! n))
      else Inl (Undefined_behaviour ''no such segment''))"

fun net_step :: "conn_end \<times> conn_end \<Rightarrow> net_op \<Rightarrow> (conn_end \<times> conn_end) result" where
  "net_step (a, b) (At_A p) = rbind (conn_step a p) (\<lambda>a'. Inr (a', b))"
| "net_step (a, b) (At_B p) = rbind (conn_step b p) (\<lambda>b'. Inr (a, b'))"
| "net_step (a, b) (To_A n) = rbind (deliver_nth b n a) (\<lambda>a'. Inr (a', b))"
| "net_step (a, b) (To_B n) = rbind (deliver_nth a n b) (\<lambda>b'. Inr (a, b'))"

text \<open>
  The applications write the streams \<open>SA\<close> and \<open>SB\<close>.  Of the network only this is asked: it makes up no segments,
  and a segment with the FIN is delivered when its bytes fit in the receiver's window, and in order if it
  has none.
\<close>

definition fin_in_order :: "byte list \<Rightarrow> tcp_receiver \<Rightarrow> tcp_segment \<Rightarrow> bool" where
  "fin_in_order S r seg \<longleftrightarrow>
     (fin (ts_header seg) \<and> \<not> rcv_fin_received r \<longrightarrow>
        (let d = Buffer_str (ts_payload seg); i = length S - length d; fu = ra_first_unassemble_byte (rcv_reassembler r)
         in eof_honest S (rcv_reassembler r) d i \<and> (fu \<le> i \<or> length S < fu + TCPReceiver_window_size r)))"

definition local_op :: "conn_op \<Rightarrow> bool" where
  "local_op p = (case p of Conn_segment _ \<Rightarrow> False | _ \<Rightarrow> True)"

fun deliverable :: "byte list \<Rightarrow> conn_end \<Rightarrow> nat \<Rightarrow> conn_end \<Rightarrow> bool" where
  "deliverable S (_, from) n (_, to) \<longleftrightarrow>
     n < length (tc_segments_out from) \<and> fin_in_order S (tc_receiver to) (tc_segments_out from ! n)"

fun net_ok :: "byte list \<Rightarrow> byte list \<Rightarrow> conn_end \<times> conn_end \<Rightarrow> net_op \<Rightarrow> bool" where
  "net_ok SA SB (a, b) (At_A p) = (local_op p \<and> conn_op_ok SA SB 0 a p)"
| "net_ok SA SB (a, b) (At_B p) = (local_op p \<and> conn_op_ok SB SA 0 b p)"
| "net_ok SA SB (a, b) (To_A n) = deliverable SB b n a"
| "net_ok SA SB (a, b) (To_B n) = deliverable SA a n b"

abbreviation end_isn :: "conn_end \<Rightarrow> WrappingInt32" where
  "end_isn e \<equiv> snd_isn (tc_sender (snd e))"

definition net_inv :: "byte list \<Rightarrow> byte list \<Rightarrow> conn_end \<times> conn_end \<Rightarrow> bool" where
  "net_inv SA SB s \<longleftrightarrow> length SA < 2 ^ 31 - 2 \<and> length SB < 2 ^ 31 - 2 \<and>
     conn_inv SA SB (end_isn (snd s)) (fst s) \<and> conn_inv SB SA (end_isn (fst s)) (snd s)"

lemma local_op_isn: "local_op p \<Longrightarrow> conn_op_ok S P i e p = conn_op_ok S P j e p"
  by (cases e; cases p) (simp_all add: local_op_def)

text \<open>With streams shorter than \<open>2 ^ 31\<close> no sequence number is ambiguous, however late it arrives.\<close>

lemma sent_acceptable:
  assumes src: "\<forall>seg\<in>set (tc_segments_out c). seg_ok S isn seg" and n: "n < length (tc_segments_out c)"
    and rcv: "rcv_run_inv S isn (out, r)" and small: "length S < 2 ^ 31 - 2"
    and fin: "fin_in_order S r (tc_segments_out c ! n)"
  shows "seg_acceptable S isn r (tc_segments_out c ! n)"
proof -
  let ?seg = "tc_segments_out c ! n"
  let ?fu = "ra_first_unassemble_byte (rcv_reassembler r)"
  have fu: "?fu \<le> length S" using rcv ra_inv_basic(5)[of S "rcv_reassembler r"] by (simp add: rcv_run_inv_def rcv_inv_def)
  have "seg_ok S isn ?seg" using src n by simp
  then consider "seg_bare ?seg" | "seg_syn isn ?seg" | i where "seg_at S isn i ?seg"
    unfolding seg_ok_def snd_seg_at_def by (metis (full_types))
  then show ?thesis
  proof cases
    case 3
    then have le: "i + length (Buffer_str (ts_payload ?seg)) \<le> length S"
      and ends: "fin (ts_header ?seg) \<longrightarrow> i + length (Buffer_str (ts_payload ?seg)) = length S"
      by (simp_all add: seg_at_def piece_of_def)
    have "i + 1 < ?fu + 2 ^ 31" "?fu < i + 1 + 2 ^ 31" using le fu small by simp_all
    moreover have "i = length S - length (Buffer_str (ts_payload ?seg))" if "fin (ts_header ?seg)" using ends that by auto
    ultimately have "seg_timely S r i ?seg" using fin unfolding seg_timely_def fin_in_order_def Let_def by blast
    then show ?thesis using 3 le unfolding seg_acceptable_def by auto
  qed (simp_all add: seg_acceptable_def)
qed

lemma deliver_ok:
  assumes src: "conn_inv S P isn' a" and to: "conn_inv P S (end_isn a) b"
    and small: "length S < 2 ^ 31 - 2" "length P < 2 ^ 31 - 2" and ok: "deliverable S a n b"
  shows "\<exists>b'. deliver_nth a n b = Inr b' \<and> conn_post P S (end_isn a) b b'"
proof -
  obtain outa ca outb cb where ab: "a = (outa, ca)" "b = (outb, cb)" by (metis surj_pair)
  let ?seg = "tc_segments_out ca ! n"
  have n: "n < length (tc_segments_out ca)" and fin: "fin_in_order S (tc_receiver cb) ?seg" using ok by (simp_all add: ab)
  have acc: "seg_acceptable S (snd_isn (tc_sender ca)) (tc_receiver cb) ?seg"
    using src to by (intro sent_acceptable[OF _ n _ small(1) fin, where out = outb]) (simp_all add: ab conn_inv_def)
  have "snd_next_seqno (tc_sender cb) \<le> length P + 2" using to by (intro snd_next_bound) (simp add: ab conn_inv_def)
  then have "conn_op_ok P S (snd_isn (tc_sender ca)) (outb, cb) (Conn_segment ?seg)" using acc small(2) by simp
  from conn_step_post[OF to[unfolded ab snd_conv] this] show ?thesis using n by (simp add: ab)
qed

lemma local_ok:
  assumes "conn_inv S P isn e" and "local_op p" and "conn_op_ok S P 0 e p"
  shows "\<exists>e'. conn_step e p = Inr e' \<and> conn_post S P isn e e'"
  using conn_step_post[OF assms(1)] assms(3) local_op_isn[OF assms(2), of S P 0 e isn] by blast

lemma post_inv: "conn_post S P isn e e' \<Longrightarrow> conn_inv S P isn e' \<and> end_isn e' = end_isn e"
  by (simp add: conn_post_def)

definition net_level :: "conn_end \<times> conn_end \<Rightarrow> nat" where
  "net_level s = rcv_level (fst (fst s), tc_receiver (snd (fst s))) + rcv_level (fst (snd s), tc_receiver (snd (snd s)))"

lemma post_level:
  "conn_post S P isn e e' \<Longrightarrow> rcv_level (fst e, tc_receiver (snd e)) \<le> rcv_level (fst e', tc_receiver (snd e'))"
  by (simp add: conn_post_def)

interpretation end_to_end: step_system net_step "net_ok SA SB" "net_inv SA SB" net_level for SA SB
proof
  fix s p assume inv: "net_inv SA SB s" and ok: "net_ok SA SB s p"
  obtain a b where s: "s = (a, b)" by (cases s)
  have small: "length SA < 2 ^ 31 - 2" "length SB < 2 ^ 31 - 2"
    and ia: "conn_inv SA SB (end_isn b) a" and ib: "conn_inv SB SA (end_isn a) b"
    using inv by (simp_all add: s net_inv_def)
  have a': "\<exists>s'. Inr (a', b) = Inr s' \<and> net_inv SA SB s' \<and> net_level s \<le> net_level s'" if "conn_post SA SB (end_isn b) a a'" for a'
    using post_inv[OF that] post_level[OF that] ib small by (simp add: s net_inv_def net_level_def)
  have b': "\<exists>s'. Inr (a, b') = Inr s' \<and> net_inv SA SB s' \<and> net_level s \<le> net_level s'" if "conn_post SB SA (end_isn a) b b'" for b'
    using post_inv[OF that] post_level[OF that] ia small by (simp add: s net_inv_def net_level_def)
  show "\<exists>s'. net_step s p = Inr s' \<and> net_inv SA SB s' \<and> net_level s \<le> net_level s'"
  proof (cases p)
    case (At_A q)
    obtain a1 where "conn_step a q = Inr a1" "conn_post SA SB (end_isn b) a a1"
      using local_ok[OF ia, of q] ok by (auto simp: s At_A simp del: deliver_nth.simps)
    then show ?thesis using a' by (simp add: s At_A del: deliver_nth.simps)
  next
    case (At_B q)
    obtain b1 where "conn_step b q = Inr b1" "conn_post SB SA (end_isn a) b b1"
      using local_ok[OF ib, of q] ok by (auto simp: s At_B simp del: deliver_nth.simps)
    then show ?thesis using b' by (simp add: s At_B del: deliver_nth.simps)
  next
    case (To_A n)
    obtain a1 where "deliver_nth b n a = Inr a1" "conn_post SA SB (end_isn b) a a1"
      using deliver_ok[OF ib ia small(2,1), of n] ok by (auto simp: s To_A simp del: deliver_nth.simps)
    then show ?thesis using a' by (simp add: s To_A del: deliver_nth.simps)
  next
    case (To_B n)
    obtain b1 where "deliver_nth a n b = Inr b1" "conn_post SB SA (end_isn a) b b1"
      using deliver_ok[OF ia ib small(1,2), of n] ok by (auto simp: s To_B simp del: deliver_nth.simps)
    then show ?thesis using b' by (simp add: s To_B del: deliver_nth.simps)
  qed
qed

lemma end_delivered:
  assumes "conn_inv S P isn (out, c)"
  shows "out @ bs_bytes (TCPConnection_inbound_stream c) = take (rcv_level (out, tc_receiver c)) P \<and>
    (ByteStream_input_ended (TCPConnection_inbound_stream c) \<longrightarrow> out @ bs_bytes (TCPConnection_inbound_stream c) = P)"
proof -
  have r: "rcv_run_inv P isn (out, tc_receiver c)" using assms by (simp add: conn_inv_def)
  have "ra_eof_inv P (rcv_reassembler (tc_receiver c))" using r by (simp add: rcv_run_inv_def rcv_inv_def)
  then have "ByteStream_input_ended (TCPConnection_inbound_stream c) \<longrightarrow> rcv_level (out, tc_receiver c) = length P"
    by (simp add: ra_eof_inv_def ByteStream_input_ended_def TCPConnection_inbound_stream_def TCPReceiver_stream_out_def
        StreamReassembler_stream_out_def rcv_level_def)
  then show ?thesis using rcv_delivered[OF r] by (simp add: TCPConnection_inbound_stream_def)
qed

section \<open>Properties\<close>



text \<open>
  What happens without the hypothesis on FIN.  The network delivers every segment once and in order, and the second end
  has room for one byte.  Its window closes, the first end probes it with the last byte and adds the FIN to the
  probe, and the byte that does not fit is dropped while the FIN counts: the application reads one byte of two and then
  the end of the stream.
\<close>

definition small_config :: "WrappingInt32 \<Rightarrow> u64 \<Rightarrow> tcp_config" where
  "small_config isn capacity = \<lparr>rt_timeout = 1000, recv_capacity = capacity, send_capacity = capacity, fixed_isn = Some isn\<rparr>"

lemma zero_window_fin_loses_byte:
  "case run_steps net_step (([], TCPConnection_new (small_config 9 2) 0), ([], TCPConnection_new (small_config 5 1) 0))
      [At_A Conn_connect, To_B 0, To_A 0, At_A (Conn_write [1, 2]), At_A Conn_end, To_B 2, To_A 1, To_B 3, At_B (Conn_read 1)] of
     Inl _ \<Rightarrow> False
   | Inr (_, (outB, b)) \<Rightarrow> outB = [1] \<and> ByteStream_eof (TCPConnection_inbound_stream b)"
  by code_simp

end
