(* ===== verification/Net_Address.thy ===== *)
theory Net_Address
  imports Sponge_Prelude
begin

text \<open>
  Socket addresses (\<open>libsponge/util/address.hh\<close>, \<open>.cc\<close>).  A \<open>sockaddr_storage\<close> is kept as the fields that
  the code reads: the family, and for IPv4 the port and the numeric address in host byte order.  The
  resolver \<open>getaddrinfo\<close> is an argument.  Also the text forms of numbers that the code prints with
  \<open>stringstream\<close>, \<open>to_string\<close> and \<open>inet_ntoa\<close>.
\<close>

section \<open>Numbers as text\<close>

definition digit_char :: "nat \<Rightarrow> char" where
  "digit_char d = (if d < 10 then char_of (48 + d) else char_of (87 + d))"

fun digits_in :: "nat \<Rightarrow> nat \<Rightarrow> string" where
  "digits_in b n = (if b < 2 \<or> n < b then [digit_char n] else digits_in b (n div b) @ [digit_char (n mod b)])"

declare digits_in.simps [simp del]

definition dec_string :: "nat \<Rightarrow> string" where
  "dec_string n = digits_in 10 n"

definition hex_string :: "nat \<Rightarrow> string" where
  "hex_string n = digits_in 16 n"

definition bytes_of_string :: "string \<Rightarrow> byte list" where
  "bytes_of_string s = map (\<lambda>c. of_nat (of_char c)) s"

definition string_of_bytes :: "byte list \<Rightarrow> string" where
  "string_of_bytes bs = map (\<lambda>b. char_of (unat b)) bs"

definition bool_string :: "bool \<Rightarrow> string" where
  "bool_string b = (if b then ''true'' else ''false'')"

text \<open>\<open>inet_ntoa\<close> on an address given in host byte order.\<close>

definition inet_ntoa_string :: "u32 \<Rightarrow> string" where
  "inet_ntoa_string a =
     dec_string (unat (drop_bit 24 a)) @ ''.'' @ dec_string (unat (drop_bit 16 a) mod 256) @ ''.'' @
     dec_string (unat (drop_bit 8 a) mod 256) @ ''.'' @ dec_string (unat a mod 256)"

section \<open>Address\<close>

definition AF_INET :: nat where
  "AF_INET = 2"

definition sizeof_sockaddr_in :: nat where
  "sizeof_sockaddr_in = 16"

definition sizeof_sockaddr_storage :: nat where
  "sizeof_sockaddr_storage = 128"

record address =
  ad_size :: nat
  ad_family :: nat
  ad_port :: u16
  ad_ip :: u32

text \<open>From a raw socket address of the given size, and the size check.\<close>

definition Address_of_sockaddr :: "address \<Rightarrow> nat \<Rightarrow> address result" where
  "Address_of_sockaddr raw sz =
     (if sz > sizeof_sockaddr_storage then Inl (Runtime_error ''invalid sockaddr size'')
      else Inr (raw\<lparr>ad_size := sz\<rparr>))"

text \<open>
  \<open>getaddrinfo\<close> takes node, service and the two hint fields that the code sets, and returns an error or
  the list of resolved addresses.
\<close>

datatype ai_flags = AI_ALL | AI_NUMERICHOST_NUMERICSERV

record addrinfo =
  hint_flags :: ai_flags
  hint_family :: nat

type_synonym resolver = "string \<Rightarrow> string \<Rightarrow> addrinfo \<Rightarrow> string + address list"

definition make_hints :: "ai_flags \<Rightarrow> nat \<Rightarrow> addrinfo" where
  "make_hints ai_flags ai_family = \<lparr>hint_flags = ai_flags, hint_family = ai_family\<rparr>"

definition Address_resolve :: "resolver \<Rightarrow> string \<Rightarrow> string \<Rightarrow> addrinfo \<Rightarrow> address result" where
  "Address_resolve getaddrinfo node service hints =
     (case getaddrinfo node service hints of
        Inl e \<Rightarrow> Inl (Runtime_error (''getaddrinfo('' @ node @ '', '' @ service @ '')''))
      | Inr [] \<Rightarrow> Inl (Runtime_error ''getaddrinfo returned successfully but with no results'')
      | Inr (a # _) \<Rightarrow> Address_of_sockaddr a (ad_size a))"

definition Address_of_host :: "resolver \<Rightarrow> string \<Rightarrow> string \<Rightarrow> address result" where
  "Address_of_host getaddrinfo hostname service =
     Address_resolve getaddrinfo hostname service (make_hints AI_ALL AF_INET)"

definition Address_of_ip_port :: "resolver \<Rightarrow> string \<Rightarrow> u16 \<Rightarrow> address result" where
  "Address_of_ip_port getaddrinfo ip port =
     Address_resolve getaddrinfo ip (dec_string (unat port)) (make_hints AI_NUMERICHOST_NUMERICSERV AF_INET)"

text \<open>\<open>getnameinfo\<close> with numeric flags gives the dotted quad and the port of an IPv4 address.\<close>

definition Address_ip_port :: "address \<Rightarrow> (string \<times> u16) result" where
  "Address_ip_port a =
     (if ad_family a \<noteq> AF_INET \<or> ad_size a \<noteq> sizeof_sockaddr_in then Inl (Runtime_error ''getnameinfo'')
      else Inr (inet_ntoa_string (ad_ip a), ad_port a))"

definition Address_ip :: "address \<Rightarrow> string result" where
  "Address_ip a = rbind (Address_ip_port a) (\<lambda>(i, p). Inr i)"

definition Address_port :: "address \<Rightarrow> u16 result" where
  "Address_port a = rbind (Address_ip_port a) (\<lambda>(i, p). Inr p)"

definition Address_to_string :: "address \<Rightarrow> string result" where
  "Address_to_string a = rbind (Address_ip_port a) (\<lambda>(i, p). Inr (i @ '':'' @ dec_string (unat p)))"

definition Address_ipv4_numeric :: "address \<Rightarrow> u32 result" where
  "Address_ipv4_numeric a =
     (if ad_family a \<noteq> AF_INET \<or> ad_size a \<noteq> sizeof_sockaddr_in
      then Inl (Runtime_error ''ipv4_numeric called on non-IPV4 address'')
      else Inr (ad_ip a))"

definition Address_from_ipv4_numeric :: "u32 \<Rightarrow> address" where
  "Address_from_ipv4_numeric ip_address =
     \<lparr>ad_size = sizeof_sockaddr_in, ad_family = AF_INET, ad_port = 0, ad_ip = ip_address\<rparr>"

definition Address_eq :: "address \<Rightarrow> address \<Rightarrow> bool" where
  "Address_eq a b =
     (if ad_size a \<noteq> ad_size b then False
      else ad_family a = ad_family b \<and> ad_port a = ad_port b \<and> ad_ip a = ad_ip b)"

section \<open>Lemmas\<close>

definition ipv4_address :: "u32 \<Rightarrow> u16 \<Rightarrow> address" where
  "ipv4_address ip port = \<lparr>ad_size = sizeof_sockaddr_in, ad_family = AF_INET, ad_port = port, ad_ip = ip\<rparr>"

lemma ipv4_address_simps [simp]:
  "Address_ipv4_numeric (ipv4_address ip port) = Inr ip"
  "Address_port (ipv4_address ip port) = Inr port"
  "Address_from_ipv4_numeric ip = ipv4_address ip 0"
  by (simp_all add: Address_ipv4_numeric_def Address_port_def Address_ip_port_def ipv4_address_def
      Address_from_ipv4_numeric_def)

lemma ipv4_numeric_Inr: "Address_ipv4_numeric a = Inr ip \<longleftrightarrow> (\<exists>port. a = ipv4_address ip port)"
  by (cases a) (auto simp: Address_ipv4_numeric_def ipv4_address_def)

text \<open>
  What the code relies on of the resolver: with numeric hints, the dotted quad and the decimal port of an
  address resolve to that address.
\<close>

definition resolves :: "resolver \<Rightarrow> u32 \<Rightarrow> u16 \<Rightarrow> bool" where
  "resolves getaddrinfo ip port \<longleftrightarrow>
     (case getaddrinfo (inet_ntoa_string ip) (dec_string (unat port)) (make_hints AI_NUMERICHOST_NUMERICSERV AF_INET) of
        Inr (a # _) \<Rightarrow> a = ipv4_address ip port | _ \<Rightarrow> False)"

lemma resolve_ok:
  "resolves getaddrinfo ip port \<Longrightarrow>
   Address_of_ip_port getaddrinfo (inet_ntoa_string ip) port = Inr (ipv4_address ip port)"
  by (auto simp: resolves_def Address_of_ip_port_def Address_resolve_def Address_of_sockaddr_def
      ipv4_address_def sizeof_sockaddr_in_def sizeof_sockaddr_storage_def split: sum.splits list.splits)

lemma digits_length: "2 \<le> b \<Longrightarrow> n < b ^ k \<Longrightarrow> 0 < k \<Longrightarrow> length (digits_in b n) \<le> k"
proof (induction k arbitrary: n)
  case (Suc k)
  show ?case
  proof (cases "n < b")
    case True then show ?thesis by (subst digits_in.simps) simp
  next
    case False
    then have k: "0 < k" using Suc.prems by (cases k) auto
    have "n div b < b ^ k" using Suc.prems(2) by (simp add: less_mult_imp_div_less mult.commute)
    from Suc.IH[OF Suc.prems(1) this k] show ?thesis using False Suc.prems(1) by (subst digits_in.simps) simp
  qed
qed simp

subsection \<open>Text forms are injective\<close>

lemma digit_char_inj: "a < 16 \<Longrightarrow> b < 16 \<Longrightarrow> digit_char a = digit_char b \<Longrightarrow> a = b"
  by (auto simp: digit_char_def split: if_splits)

lemma digits_ne [simp]: "digits_in b n \<noteq> []"
  by (subst digits_in.simps) simp

lemma digits_ne' [simp]: "[] \<noteq> digits_in b n"
  using digits_ne[of b n] by metis

lemma digits_in_inj:
  "2 \<le> b \<Longrightarrow> b \<le> 16 \<Longrightarrow> digits_in b m = digits_in b n \<Longrightarrow> m = n"
proof (induction b m arbitrary: n rule: digits_in.induct)
  case (1 b m)
  show ?case
  proof (cases "m < b")
    case True
    have "n < b" using 1(2,4) True by (auto simp: digits_in.simps[of b m] digits_in.simps[of b n] split: if_splits)
    then show ?thesis using 1(2-4) True digit_char_inj[of m n]
      by (auto simp: digits_in.simps[of b m] digits_in.simps[of b n])
  next
    case False
    have "\<not> n < b" using 1(2,4) False
      by (auto simp: digits_in.simps[of b m] digits_in.simps[of b n] split: if_splits)
    then have "digits_in b (m div b) = digits_in b (n div b)" "digit_char (m mod b) = digit_char (n mod b)"
      using 1(2,4) False by (auto simp: digits_in.simps[of b m] digits_in.simps[of b n])
    moreover have "m mod b < b" "n mod b < b" using 1(2) by simp_all
    then have "m mod b < 16" "n mod b < 16" using 1(3) by linarith+
    ultimately have "m div b = n div b" "m mod b = n mod b"
      using 1(1)[of "n div b"] 1(2,3) False digit_char_inj by auto
    then show ?thesis by (metis div_mult_mod_eq)
  qed
qed

end
