(* ===== verification/IPv4.thy ===== *)
theory IPv4
  imports TCP_Segment Net_Address
begin

text \<open>
  IPv4 headers and datagrams (\<open>tcp_helpers/ipv4_header.hh\<close>, \<open>.cc\<close>, \<open>ipv4_datagram.hh\<close>, \<open>.cc\<close>): parsing with
  every check in the code's order, serializing with the header checksum, the payload length and the
  pseudo-header sum, and the text forms.  The header format is an instance of \<open>codec\<close>.
\<close>

section \<open>IPv4Header\<close>

record ipv4_header =
  ip_ver :: u8
  ip_hlen :: u8
  ip_tos :: u8
  ip_len :: u16
  ip_id :: u16
  ip_df :: bool
  ip_mf :: bool
  ip_offset :: u16
  ip_ttl :: u8
  ip_proto :: u8
  ip_cksum :: u16
  ip_src :: u32
  ip_dst :: u32

definition IPv4Header_LENGTH :: u64 where
  "IPv4Header_LENGTH = 20"

definition DEFAULT_TTL :: u8 where
  "DEFAULT_TTL = 128"

definition PROTO_TCP :: u8 where
  "PROTO_TCP = 6"

definition IPv4Header_default :: ipv4_header where
  "IPv4Header_default =
     \<lparr>ip_ver = 4, ip_hlen = 5, ip_tos = 0, ip_len = 0, ip_id = 0, ip_df = True, ip_mf = False, ip_offset = 0,
      ip_ttl = DEFAULT_TTL, ip_proto = PROTO_TCP, ip_cksum = 0, ip_src = 0, ip_dst = 0\<rparr>"

text \<open>The result pairs the header as filled in so far with the \<open>ParseResult\<close>, and the parser.\<close>

definition IPv4Header_parse ::
  "ipv4_header \<Rightarrow> net_parser \<Rightarrow> ((ipv4_header \<times> parse_result) \<times> net_parser) result" where
  "IPv4Header_parse h0 p =
     (let original_serialized_version = np_buffer p;
          data_size = Buffer_size (np_buffer p)
      in if data_size < IPv4Header_LENGTH then Inr ((h0, PacketTooShort), p)
         else
     rbind (NetParser_u8 p) (\<lambda>(first_byte, p).
     rbind (NetParser_u8 p) (\<lambda>(tos, p).
     rbind (NetParser_u16 p) (\<lambda>(len, p).
     rbind (NetParser_u16 p) (\<lambda>(id, p).
     rbind (NetParser_u16 p) (\<lambda>(fo_val, p).
     rbind (NetParser_u8 p) (\<lambda>(ttl, p).
     rbind (NetParser_u8 p) (\<lambda>(proto, p).
     rbind (NetParser_u16 p) (\<lambda>(cksum, p).
     rbind (NetParser_u32 p) (\<lambda>(src, p).
     rbind (NetParser_u32 p) (\<lambda>(dst, p).
     let h = \<lparr>ip_ver = drop_bit 4 first_byte, ip_hlen = and first_byte 0x0f, ip_tos = tos, ip_len = len, ip_id = id,
              ip_df = (and fo_val 0x4000 \<noteq> 0), ip_mf = (and fo_val 0x2000 \<noteq> 0), ip_offset = and fo_val 0x1fff,
              ip_ttl = ttl, ip_proto = proto, ip_cksum = cksum, ip_src = src, ip_dst = dst\<rparr>
     in if data_size < 4 * unat (ip_hlen h) then Inr ((h, PacketTooShort), p)
        else if ip_ver h \<noteq> 4 then Inr ((h, WrongIPVersion), p)
        else if ip_hlen h < 5 then Inr ((h, HeaderTooShort), p)
        else if data_size \<noteq> unat (ip_len h) then Inr ((h, TruncatedPacket), p)
        else rbind (NetParser_remove_prefix p (sub64 (unat (ip_hlen h) * 4) IPv4Header_LENGTH)) (\<lambda>p.
               if NetParser_error p then Inr ((h, np_error p), p)
               else
                 let check = InternetChecksum_add (InternetChecksum_new 0)
                               (take (4 * unat (ip_hlen h)) (Buffer_str original_serialized_version))
                 in if InternetChecksum_value check \<noteq> 0 then Inr ((h, BadChecksum), p)
                    else Inr ((h, NoError), p)))))))))))))"

definition IPv4Header_flags :: "ipv4_header \<Rightarrow> u16" where
  "IPv4Header_flags h =
     or (or (if ip_df h then 0x4000 else 0) (if ip_mf h then 0x2000 else 0)) (and (ip_offset h) 0x1fff)"

definition IPv4Header_serialize :: "ipv4_header \<Rightarrow> byte list result" where
  "IPv4Header_serialize h =
     (if ip_ver h \<noteq> 4 then Inl (Runtime_error ''wrong IP version'')
      else if 4 * unat (ip_hlen h) < IPv4Header_LENGTH then Inl (Runtime_error ''IP header too short'')
      else let first_byte = or (push_bit 4 (ip_ver h)) (and (ip_hlen h) 0xf);
               ret = NetUnparser_u8 [] first_byte;
               ret = NetUnparser_u8 ret (ip_tos h);
               ret = NetUnparser_u16 ret (ip_len h);
               ret = NetUnparser_u16 ret (ip_id h);
               ret = NetUnparser_u16 ret (IPv4Header_flags h);
               ret = NetUnparser_u8 ret (ip_ttl h);
               ret = NetUnparser_u8 ret (ip_proto h);
               ret = NetUnparser_u16 ret (ip_cksum h);
               ret = NetUnparser_u32 ret (ip_src h);
               ret = NetUnparser_u32 ret (ip_dst h)
           in Inr (string_resize ret (4 * unat (ip_hlen h))))"

definition IPv4Header_payload_length :: "ipv4_header \<Rightarrow> u16" where
  "IPv4Header_payload_length h = ip_len h - 4 * ucast (ip_hlen h)"

definition IPv4Header_pseudo_cksum :: "ipv4_header \<Rightarrow> u32" where
  "IPv4Header_pseudo_cksum h =
     (let pcksum = drop_bit 16 (ip_src h) + and (ip_src h) 0xffff;
          pcksum = pcksum + (drop_bit 16 (ip_dst h) + and (ip_dst h) 0xffff);
          pcksum = pcksum + ucast (ip_proto h);
          pcksum = pcksum + ucast (IPv4Header_payload_length h)
      in pcksum)"

definition newline :: string where
  "newline = [char_of (10 :: nat)]"

definition IPv4Header_to_string :: "ipv4_header \<Rightarrow> string" where
  "IPv4Header_to_string h =
     ''IP version: '' @ hex_string (unat (ip_ver h)) @ newline @
     ''IP hdr len: '' @ hex_string (unat (ip_hlen h)) @ newline @
     ''IP tos: '' @ hex_string (unat (ip_tos h)) @ newline @
     ''IP dgram len: '' @ hex_string (unat (ip_len h)) @ newline @
     ''IP id: '' @ hex_string (unat (ip_id h)) @ newline @
     ''Flags: df: '' @ bool_string (ip_df h) @ '' mf: '' @ bool_string (ip_mf h) @ newline @
     ''Offset: '' @ hex_string (unat (ip_offset h)) @ newline @
     ''TTL: '' @ hex_string (unat (ip_ttl h)) @ newline @
     ''Protocol: '' @ hex_string (unat (ip_proto h)) @ newline @
     ''Checksum: '' @ hex_string (unat (ip_cksum h)) @ newline @
     ''Src addr: '' @ hex_string (unat (ip_src h)) @ newline @
     ''Dst addr: '' @ hex_string (unat (ip_dst h)) @ newline"

definition IPv4Header_summary :: "ipv4_header \<Rightarrow> string" where
  "IPv4Header_summary h =
     ''IPv'' @ hex_string (unat (ip_ver h)) @ '', '' @
     ''len='' @ hex_string (unat (ip_len h)) @ '', '' @
     ''protocol='' @ hex_string (unat (ip_proto h)) @ '', '' @
     (if ip_ttl h \<ge> 10 then '''' else ''ttl='' @ dec_string (unat (ip_ttl h)) @ '', '') @
     ''src='' @ inet_ntoa_string (ip_src h) @ '', '' @
     ''dst='' @ inet_ntoa_string (ip_dst h)"

section \<open>IPv4Datagram\<close>

record ipv4_datagram =
  dg_header :: ipv4_header
  dg_payload :: buffer_list

definition IPv4Datagram_default :: ipv4_datagram where
  "IPv4Datagram_default = \<lparr>dg_header = IPv4Header_default, dg_payload = []\<rparr>"

definition IPv4Datagram_parse :: "ipv4_datagram \<Rightarrow> buffer \<Rightarrow> (ipv4_datagram \<times> parse_result) result" where
  "IPv4Datagram_parse d buffer =
     rbind (IPv4Header_parse (dg_header d) (NetParser_new buffer)) (\<lambda>((h, _), p).
       let d' = \<lparr>dg_header = h, dg_payload = BufferList_of_Buffer (np_buffer p)\<rparr>
       in if BufferList_size (dg_payload d') \<noteq> unat (IPv4Header_payload_length h)
          then Inr (d', PacketTooShort)
          else Inr (d', np_error p))"

definition IPv4Datagram_serialize :: "ipv4_datagram \<Rightarrow> buffer_list result" where
  "IPv4Datagram_serialize d =
     (if BufferList_size (dg_payload d) \<noteq> unat (IPv4Header_payload_length (dg_header d))
      then Inl (Runtime_error ''IPv4Datagram::serialize: payload is wrong size'')
      else
        let header_out = (dg_header d)\<lparr>ip_cksum := 0\<rparr>
        in rbind (IPv4Header_serialize header_out) (\<lambda>header_zero_checksum.
           let check = InternetChecksum_add (InternetChecksum_new 0) header_zero_checksum;
               header_out = header_out\<lparr>ip_cksum := InternetChecksum_value check\<rparr>
           in rbind (IPv4Header_serialize header_out) (\<lambda>hs.
              let ret = BufferList_append [] (BufferList_of_string hs);
                  ret = BufferList_append ret (dg_payload d)
              in Inr ret)))"

section \<open>The header format\<close>

definition ipv4_header_valid :: "ipv4_header \<Rightarrow> bool" where
  "ipv4_header_valid h \<longleftrightarrow> ip_ver h = 4 \<and> 5 \<le> ip_hlen h \<and> ip_hlen h \<le> 15 \<and> ip_offset h \<le> 0x1fff"

definition ipv4_first_byte :: "ipv4_header \<Rightarrow> byte" where
  "ipv4_first_byte h = or (push_bit 4 (ip_ver h)) (and (ip_hlen h) 0xf)"

definition ipv4_header_bytes :: "ipv4_header \<Rightarrow> byte list" where
  "ipv4_header_bytes h =
     ipv4_first_byte h # ip_tos h # be16 (ip_len h) @ be16 (ip_id h) @ be16 (IPv4Header_flags h) @
     ip_ttl h # ip_proto h # be16 (ip_cksum h) @ be32 (ip_src h) @ be32 (ip_dst h) @
     replicate (4 * unat (ip_hlen h) - 20) 0"

lemma hlen_unat: "ipv4_header_valid h \<Longrightarrow> \<exists>k\<le>10. unat (ip_hlen h) = 5 + k"
  by (rule exI[of _ "unat (ip_hlen h) - 5"]) (auto simp: ipv4_header_valid_def word_le_nat_alt)

lemma serialize_ipv4_header:
  "ipv4_header_valid h \<Longrightarrow> IPv4Header_serialize h = Inr (ipv4_header_bytes h)"
  using hlen_unat[of h]
  by (auto simp: IPv4Header_serialize_def ipv4_header_valid_def ipv4_header_bytes_def string_resize_def
      IPv4Header_LENGTH_def ipv4_first_byte_def)

lemma length_ipv4_header: "ipv4_header_valid h \<Longrightarrow> length (ipv4_header_bytes h) = 4 * unat (ip_hlen h)"
  using hlen_unat[of h] by (auto simp: ipv4_header_bytes_def)

lemma first_byte_bits:
  assumes "ipv4_header_valid h"
  shows "drop_bit 4 (ipv4_first_byte h) = 4" "and (ipv4_first_byte h) 0x0f = ip_hlen h"
proof -
  obtain k where k: "k \<le> 10" "unat (ip_hlen h) = 5 + k" using hlen_unat[OF assms] by blast
  have "ip_hlen h = of_nat (5 + k)" by (simp flip: k(2))
  moreover have "k \<in> {0, 1, 2, 3, 4, 5, 6, 7, 8, 9, 10}" using k(1) by simp presburger
  ultimately show "drop_bit 4 (ipv4_first_byte h) = 4" "and (ipv4_first_byte h) 0x0f = ip_hlen h"
    using assms by (auto simp: ipv4_first_byte_def ipv4_header_valid_def)
qed

lemma offset_mask: "(x :: u16) \<le> 0x1fff \<Longrightarrow> and x 0x1fff = x"
proof -
  assume "x \<le> 0x1fff"
  then have "unat x < 2 ^ 13" by (simp add: word_le_nat_alt)
  then have "take_bit 13 x = x" by (simp add: word_unat_eq_iff unat_take_bit)
  then show ?thesis by (simp add: take_bit_eq_mask mask_eq_exp_minus_1)
qed

lemma ipv4_flag_bits:
  "(and (IPv4Header_flags h) 0x4000 \<noteq> 0) = ip_df h" "(and (IPv4Header_flags h) 0x2000 \<noteq> 0) = ip_mf h"
  "ip_offset h \<le> 0x1fff \<Longrightarrow> and (IPv4Header_flags h) 0x1fff = ip_offset h"
  by (cases "ip_df h"; cases "ip_mf h"; simp add: IPv4Header_flags_def bit.conj_disj_distrib2 and.assoc offset_mask)+

definition ipv4_verifies :: "ipv4_header \<Rightarrow> bool" where
  "ipv4_verifies h \<longleftrightarrow> InternetChecksum_value (InternetChecksum_add (InternetChecksum_new 0) (ipv4_header_bytes h)) = 0"

lemma parse_ipv4_header:
  assumes valid: "ipv4_header_valid h" and ok: "np_ok p" and bytes: "np_bytes p = ipv4_header_bytes h @ rest"
    and len: "unat (ip_len h) = length (np_bytes p)"
  shows "\<exists>r. IPv4Header_parse h0 p = Inr r \<and>
    (fst r = (h, if ipv4_verifies h then NoError else BadChecksum) \<and> np_ok (snd r) \<and> np_bytes (snd r) = rest)"
proof -
  obtain k where k: "k \<le> 10" "unat (ip_hlen h) = 5 + k" using hlen_unat[OF valid] by blast
  note fb = first_byte_bits[OF valid] and l = length_ipv4_header[OF valid]
  have h: "\<not> ip_hlen h < 5" "ip_ver h = 4" "ip_offset h \<le> 0x1fff" using valid by (auto simp: ipv4_header_valid_def)
  have size: "Buffer_size (np_buffer p) = unat (ip_len h)" using len by (simp add: Buffer_size_def np_bytes_def)
  have ge: "\<not> unat (ip_len h) < IPv4Header_LENGTH" "\<not> unat (ip_len h) < 4 * unat (ip_hlen h)"
    unfolding len bytes using k l by (simp_all add: IPv4Header_LENGTH_def)
  have tk: "take (4 * unat (ip_hlen h)) (Buffer_str (np_buffer p)) = ipv4_header_bytes h"
    using bytes l by (simp add: np_bytes_def)
  have skip: "sub64 (unat (ip_hlen h) * 4) IPv4Header_LENGTH = length (replicate (4 * unat (ip_hlen h) - 20) (0::byte))"
    using k by (simp add: IPv4Header_LENGTH_def sub64_exact)
  have hd: "h = \<lparr>ip_ver = 4, ip_hlen = ip_hlen h, ip_tos = ip_tos h, ip_len = ip_len h, ip_id = ip_id h,
    ip_df = ip_df h, ip_mf = ip_mf h, ip_offset = ip_offset h, ip_ttl = ip_ttl h, ip_proto = ip_proto h,
    ip_cksum = ip_cksum h, ip_src = ip_src h, ip_dst = ip_dst h\<rparr>" using h(2) by simp
  note b = bytes[unfolded ipv4_header_bytes_def append_assoc append_Cons]
  show ?thesis
    unfolding IPv4Header_parse_def Let_def size if_not_P[OF ge(1)]
    apply (rule np_step_u8[OF ok b], simp only: prod.case Let_def)
    apply (rule np_steps, assumption, assumption, simp only: prod.case Let_def)+
    apply (simp only: ipv4_header.select_convs fb ipv4_flag_bits(1,2) ipv4_flag_bits(3)[OF h(3)] h(1) ge simp_thms if_False tk)
    apply (rule np_step_remove, assumption, assumption, rule skip)
    apply (simp add: ipv4_verifies_def hd[symmetric])
    done
qed

section \<open>Datagrams\<close>

definition ipv4_before :: "ipv4_header \<Rightarrow> byte list" where
  "ipv4_before h = [ipv4_first_byte h, ip_tos h] @ be16 (ip_len h) @ be16 (ip_id h) @ be16 (IPv4Header_flags h) @
     [ip_ttl h, ip_proto h]"

definition ipv4_after :: "ipv4_header \<Rightarrow> byte list" where
  "ipv4_after h = be32 (ip_src h) @ be32 (ip_dst h) @ replicate (4 * unat (ip_hlen h) - 20) 0"

lemma ipv4_header_split: "ipv4_header_bytes (h\<lparr>ip_cksum := c\<rparr>) = ipv4_before h @ be16 c @ ipv4_after h"
  by (simp add: ipv4_header_bytes_def ipv4_before_def ipv4_after_def ipv4_first_byte_def IPv4Header_flags_def)

lemma ipv4_valid_cksum [simp]: "ipv4_header_valid (h\<lparr>ip_cksum := c\<rparr>) = ipv4_header_valid h"
  by (simp add: ipv4_header_valid_def)

definition ipv4_checksum :: "ipv4_header \<Rightarrow> u16" where
  "ipv4_checksum h = InternetChecksum_value (InternetChecksum_add (InternetChecksum_new 0) (ipv4_header_bytes (h\<lparr>ip_cksum := 0\<rparr>)))"

lemma ipv4_checksum_verifies:
  assumes valid: "ipv4_header_valid h" shows "ipv4_verifies (h\<lparr>ip_cksum := ipv4_checksum h\<rparr>)"
proof -
  obtain k where k: "k \<le> 10" "unat (ip_hlen h) = 5 + k" using hlen_unat[OF valid] by blast
  let ?z = "ipv4_before h @ [0, 0] @ ipv4_after h"
  have even: "even (length (ipv4_before h))" by (simp add: ipv4_before_def)
  have "length ?z \<le> 60" using k by (simp add: ipv4_before_def ipv4_after_def)
  moreover have "csum False ?z \<le> 65280 * length ?z" by (rule csum_bound)
  ultimately have "unat (0 :: u32) + csum False ?z + 65535 < 2 ^ 32" by simp
  from checksum_insert[OF even this] show ?thesis
    by (simp add: ipv4_verifies_def ipv4_checksum_def ipv4_header_split be16_0)
qed

definition dgram_valid :: "ipv4_datagram \<Rightarrow> bool" where
  "dgram_valid d \<longleftrightarrow> ipv4_header_valid (dg_header d) \<and> bl_wf (dg_payload d) \<and>
     unat (ip_len (dg_header d)) = 4 * unat (ip_hlen (dg_header d)) + length (bl_bytes (dg_payload d))"

lemma payload_length_unat:
  assumes "4 * unat (ip_hlen h) \<le> unat (ip_len h)"
  shows "unat (IPv4Header_payload_length h) = unat (ip_len h) - 4 * unat (ip_hlen h)"
proof -
  have "unat (4 * ucast (ip_hlen h) :: u16) = 4 * unat (ip_hlen h)"
    using word_bounds(1)[of "ip_hlen h"] by (simp add: unat_word_ariths unsigned_ucast_eq take_bit_nat_eq_self)
  then show ?thesis
    using assms by (simp add: IPv4Header_payload_length_def unat_sub word_le_nat_alt)
qed

lemma serialize_dgram:
  assumes "dgram_valid d"
  shows "IPv4Datagram_serialize d =
    Inr (Buffer_of (ipv4_header_bytes ((dg_header d)\<lparr>ip_cksum := ipv4_checksum (dg_header d)\<rparr>)) # dg_payload d)"
  using assms
  by (simp add: IPv4Datagram_serialize_def dgram_valid_def payload_length_unat serialize_ipv4_header ipv4_checksum_def
      BufferList_of_string_def BufferList_of_Buffer_def)

lemma dgram_parses:
  assumes valid: "dgram_valid d" and wf: "buffer_wf b"
    and bytes: "Buffer_str b = ipv4_header_bytes ((dg_header d)\<lparr>ip_cksum := ipv4_checksum (dg_header d)\<rparr>) @ bl_bytes (dg_payload d)"
  shows "\<exists>pl. IPv4Datagram_parse d0 b =
      Inr (\<lparr>dg_header = (dg_header d)\<lparr>ip_cksum := ipv4_checksum (dg_header d)\<rparr>, dg_payload = [pl]\<rparr>, NoError) \<and>
    buffer_wf pl \<and> Buffer_str pl = bl_bytes (dg_payload d)"
proof -
  let ?h = "(dg_header d)\<lparr>ip_cksum := ipv4_checksum (dg_header d)\<rparr>"
  have v: "ipv4_header_valid ?h" and hv: "ipv4_header_valid (dg_header d)" using valid by (simp_all add: dgram_valid_def)
  have len: "unat (ip_len ?h) = length (np_bytes (NetParser_new b))"
    using valid length_ipv4_header[OF v] bytes by (simp add: dgram_valid_def)
  from parse_ipv4_header[OF v _ _ len, of "bl_bytes (dg_payload d)" "dg_header d0"] wf bytes ipv4_checksum_verifies[OF hv]
  obtain q where q: "IPv4Header_parse (dg_header d0) (NetParser_new b) = Inr ((?h, NoError), q)" "np_ok q"
      "np_bytes q = bl_bytes (dg_payload d)" by fastforce
  have pl: "unat (IPv4Header_payload_length ?h) = length (bl_bytes (dg_payload d))"
    using valid by (subst payload_length_unat) (simp_all add: dgram_valid_def)
  have "BufferList_size [np_buffer q] = length (bl_bytes (dg_payload d))"
    using q(2,3) bl_wf_of_Buffer[of "np_buffer q"] size_bytes[of "[np_buffer q]"]
    by (simp add: np_ok_def np_bytes_def BufferList_of_Buffer_def)
  then show ?thesis
    using q pl by (simp add: IPv4Datagram_parse_def Let_def BufferList_of_Buffer_def np_ok_def np_bytes_def)
qed


lemma pseudo_header_sum:
  assumes "4 * unat (ip_hlen h) \<le> unat (ip_len h)"
  shows "unat (IPv4Header_payload_length h) = unat (ip_len h) - 4 * unat (ip_hlen h) \<and>
    unat (IPv4Header_pseudo_cksum h) =
      unat (ip_src h) div 65536 + unat (ip_src h) mod 65536 + unat (ip_dst h) div 65536 + unat (ip_dst h) mod 65536 +
      unat (ip_proto h) + unat (IPv4Header_payload_length h) \<and>
    unat (IPv4Header_pseudo_cksum h) < 2 ^ 19"
proof -
  have m: "(0xffff :: u32) = mask 16" by (simp add: mask_eq_exp_minus_1)
  have hi: "unat (drop_bit 16 x) = unat x div 65536" "unat (drop_bit 16 x) < 65536" for x :: u32
    using word_bounds(3)[of x] by (simp_all add: unat_drop_bit)
  have lo: "unat (and x 0xffff) = unat x mod 65536" for x :: u32
    unfolding m take_bit_eq_mask[symmetric] unat_take_bit by simp
  have p: "unat (ucast (ip_proto h) :: u32) = unat (ip_proto h)" "unat (ip_proto h) < 256"
    using word_bounds(1)[of "ip_proto h"] by (simp_all add: unsigned_ucast_eq take_bit_nat_eq_self)
  have l: "unat (ucast (IPv4Header_payload_length h) :: u32) = unat (IPv4Header_payload_length h)"
    "unat (IPv4Header_payload_length h) < 65536"
    using word_bounds(2)[of "IPv4Header_payload_length h"] by (simp_all add: unsigned_ucast_eq take_bit_nat_eq_self)
  have eq: "unat (IPv4Header_pseudo_cksum h) =
      unat (ip_src h) div 65536 + unat (ip_src h) mod 65536 + (unat (ip_dst h) div 65536 + unat (ip_dst h) mod 65536) +
      unat (ip_proto h) + unat (IPv4Header_payload_length h)"
    using hi(2)[of "ip_src h"] hi(2)[of "ip_dst h"] p l
    by (simp add: IPv4Header_pseudo_cksum_def Let_def unat_word_ariths hi(1) lo)
  have "unat (ip_src h) mod 65536 < 65536" "unat (ip_dst h) mod 65536 < 65536" by simp_all
  moreover have "unat (ip_src h) div 65536 < 65536" "unat (ip_dst h) div 65536 < 65536"
    using hi[of "ip_src h"] hi[of "ip_dst h"] by simp_all
  ultimately have "unat (IPv4Header_pseudo_cksum h) < 524288" using eq p(2) l(2) by linarith
  with eq show ?thesis using payload_length_unat[OF assms] by simp
qed

section \<open>Properties\<close>

text \<open>C22: a datagram whose length field is right serializes, and its bytes parse back without error to the
  same header up to the checksum and the same payload; the checksum stored in the header verifies.\<close>

theorem ipv4_datagram_roundtrip:
  assumes "dgram_valid d"
  shows "\<exists>bl d'. IPv4Datagram_serialize d = Inr bl \<and>
    IPv4Datagram_parse d0 (Buffer_of (BufferList_concatenate bl)) = Inr (d', NoError) \<and>
    dg_header d' = (dg_header d)\<lparr>ip_cksum := ip_cksum (dg_header d')\<rparr> \<and>
    BufferList_concatenate (dg_payload d') = BufferList_concatenate (dg_payload d) \<and>
    InternetChecksum_value (InternetChecksum_add (InternetChecksum_new 0)
      (take (4 * unat (ip_hlen (dg_header d))) (BufferList_concatenate bl))) = 0"
proof -
  let ?h = "(dg_header d)\<lparr>ip_cksum := ipv4_checksum (dg_header d)\<rparr>"
  let ?bs = "ipv4_header_bytes ?h @ bl_bytes (dg_payload d)"
  have v: "ipv4_header_valid (dg_header d)" using assms by (simp add: dgram_valid_def)
  have l: "length (ipv4_header_bytes ?h) = 4 * unat (ip_hlen (dg_header d))" using length_ipv4_header[of ?h] v by simp
  have "length ?bs = unat (ip_len (dg_header d))" using assms l by (simp add: dgram_valid_def)
  then have "buffer_wf (Buffer_of ?bs)" using word_bounds(2)[of "ip_len (dg_header d)"] by simp
  from dgram_parses[OF assms this] obtain pl where
    "IPv4Datagram_parse d0 (Buffer_of ?bs) = Inr (\<lparr>dg_header = ?h, dg_payload = [pl]\<rparr>, NoError)"
    "Buffer_str pl = bl_bytes (dg_payload d)" by auto
  moreover have "InternetChecksum_value (InternetChecksum_add (InternetChecksum_new 0) (ipv4_header_bytes ?h)) = 0"
    using ipv4_checksum_verifies[OF v] by (simp add: ipv4_verifies_def)
  ultimately show ?thesis using serialize_dgram[OF assms] l by simp
qed

definition example_dgram :: "u32 \<Rightarrow> u32 \<Rightarrow> byte list \<Rightarrow> ipv4_datagram" where
  "example_dgram src dst pl =
     \<lparr>dg_header = IPv4Header_default\<lparr>ip_len := of_nat (20 + length pl), ip_src := src, ip_dst := dst\<rparr>,
      dg_payload = [Buffer_of pl]\<rparr>"

lemma example_dgram_valid: "dgram_valid (example_dgram s d [1, 2, 3])"
  by (simp add: dgram_valid_def example_dgram_def IPv4Header_default_def ipv4_header_valid_def bl_wf_def)

theorem ipv4_datagram_roundtrip_witness:
  "\<exists>bl d'. IPv4Datagram_serialize (example_dgram 5 6 [1, 2, 3]) = Inr bl \<and>
    IPv4Datagram_parse IPv4Datagram_default (Buffer_of (BufferList_concatenate bl)) = Inr (d', NoError) \<and>
    BufferList_concatenate (dg_payload d') = [1, 2, 3]"
  using ipv4_datagram_roundtrip[OF example_dgram_valid[of 5 6], of IPv4Datagram_default]
  by (auto simp: example_dgram_def)

text \<open>The payload length the header gives and the sum over the pseudo-header are exact: no 16-bit or
  32-bit operation in them wraps when the header is within the packet.\<close>

theorem ipv4_pseudo_header_exact:
  assumes "4 * unat (ip_hlen h) \<le> unat (ip_len h)"
  shows "unat (IPv4Header_payload_length h) = unat (ip_len h) - 4 * unat (ip_hlen h) \<and>
    unat (IPv4Header_pseudo_cksum h) =
      unat (ip_src h) div 65536 + unat (ip_src h) mod 65536 + unat (ip_dst h) div 65536 + unat (ip_dst h) mod 65536 +
      unat (ip_proto h) + unat (IPv4Header_payload_length h) \<and>
    unat (IPv4Header_pseudo_cksum h) < 2 ^ 19"
  using assms by (rule pseudo_header_sum)

theorem ipv4_pseudo_header_exact_witness:
  "unat (IPv4Header_pseudo_cksum (dg_header (example_dgram 65537 3 [1, 2, 3]))) = 14"
  using ipv4_pseudo_header_exact[of "dg_header (example_dgram 65537 3 [1, 2, 3])"]
  by (simp add: example_dgram_def IPv4Header_default_def PROTO_TCP_def)

text \<open>
  \<open>IPv4Datagram::parse\<close> drops the result of \<open>IPv4Header::parse\<close>: a header with a wrong checksum is
  accepted with \<open>NoError\<close>.
\<close>

lemma bad_ipv4_checksum_accepted:
  assumes "ipv4_header_valid h" "unat (ip_len h) = 4 * unat (ip_hlen h) + length pl" "\<not> ipv4_verifies h"
  shows "\<exists>d. IPv4Datagram_parse d0 (Buffer_of (ipv4_header_bytes h @ pl)) = Inr (d, NoError)"
proof -
  let ?b = "Buffer_of (ipv4_header_bytes h @ pl)"
  have len: "unat (ip_len h) = length (np_bytes (NetParser_new ?b))" using assms(2) length_ipv4_header[OF assms(1)] by simp
  have wf: "buffer_wf ?b" using len word_bounds(2)[of "ip_len h"] by simp
  from parse_ipv4_header[OF assms(1) _ _ len, of pl "dg_header d0"] wf assms(3)
  obtain q where q: "IPv4Header_parse (dg_header d0) (NetParser_new ?b) = Inr ((h, BadChecksum), q)" "np_ok q"
      "np_bytes q = pl" by fastforce
  have pl: "unat (IPv4Header_payload_length h) = length pl"
    using assms(2) by (subst payload_length_unat) simp_all
  have "BufferList_size [np_buffer q] = length pl"
    using q(2,3) bl_wf_of_Buffer[of "np_buffer q"] size_bytes[of "[np_buffer q]"]
    by (simp add: np_ok_def np_bytes_def BufferList_of_Buffer_def)
  then show ?thesis
    using q pl by (simp add: IPv4Datagram_parse_def Let_def BufferList_of_Buffer_def np_ok_def)
qed

end
