(* ===== verification/Ethernet.thy ===== *)
theory Ethernet
  imports IPv4
begin

text \<open>
  Ethernet headers and frames (\<open>tcp_helpers/ethernet_header.hh\<close>, \<open>.cc\<close>, \<open>ethernet_frame.hh\<close>, \<open>.cc\<close>) and ARP
  messages (\<open>tcp_helpers/arp_message.hh\<close>, \<open>.cc\<close>).  An Ethernet address is the list of its six bytes.  The
  header and the message are instances of \<open>codec\<close>.
\<close>

section \<open>EthernetHeader\<close>

type_synonym ethernet_address = "byte list"

definition ETHERNET_BROADCAST :: ethernet_address where
  "ETHERNET_BROADCAST = [0xff, 0xff, 0xff, 0xff, 0xff, 0xff]"

record ethernet_header =
  eth_dst :: ethernet_address
  eth_src :: ethernet_address
  eth_type :: u16

definition EthernetHeader_LENGTH :: u64 where
  "EthernetHeader_LENGTH = 14"

definition TYPE_IPv4 :: u16 where
  "TYPE_IPv4 = 0x800"

definition TYPE_ARP :: u16 where
  "TYPE_ARP = 0x806"

definition EthernetHeader_default :: ethernet_header where
  "EthernetHeader_default = \<lparr>eth_dst = replicate 6 0, eth_src = replicate 6 0, eth_type = 0\<rparr>"

text \<open>The loop \<open>for (auto& byte : address) byte = p.u8()\<close>, for the given number of bytes.\<close>

fun parse_bytes :: "nat \<Rightarrow> net_parser \<Rightarrow> (byte list \<times> net_parser) result" where
  "parse_bytes 0 p = Inr ([], p)"
| "parse_bytes (Suc n) p =
     rbind (NetParser_u8 p) (\<lambda>(b, p). rbind (parse_bytes n p) (\<lambda>(bs, p). Inr (b # bs, p)))"

text \<open>The loop \<open>for (auto& byte : address) NetUnparser::u8(ret, byte)\<close>.\<close>

fun unparse_address :: "byte list \<Rightarrow> byte list \<Rightarrow> byte list" where
  "unparse_address ret [] = ret"
| "unparse_address ret (b # bs) = unparse_address (NetUnparser_u8 ret b) bs"

definition EthernetHeader_parse ::
  "ethernet_header \<Rightarrow> net_parser \<Rightarrow> ((ethernet_header \<times> parse_result) \<times> net_parser) result" where
  "EthernetHeader_parse h p =
     (if Buffer_size (np_buffer p) < EthernetHeader_LENGTH then Inr ((h, PacketTooShort), p)
      else rbind (parse_bytes 6 p) (\<lambda>(d, p).
           rbind (parse_bytes 6 p) (\<lambda>(s, p).
           rbind (NetParser_u16 p) (\<lambda>(t, p).
           Inr ((\<lparr>eth_dst = d, eth_src = s, eth_type = t\<rparr>, np_error p), p)))))"

definition EthernetHeader_serialize :: "ethernet_header \<Rightarrow> byte list" where
  "EthernetHeader_serialize h =
     (let ret = unparse_address [] (eth_dst h);
          ret = unparse_address ret (eth_src h)
      in NetUnparser_u16 ret (eth_type h))"

definition EthernetAddress_hex :: "byte \<Rightarrow> string" where
  "EthernetAddress_hex b = (let s = hex_string (unat b) in replicate (2 - length s) (char_of (48 :: nat)) @ s)"

fun EthernetAddress_to_string :: "ethernet_address \<Rightarrow> string" where
  "EthernetAddress_to_string [] = ''''"
| "EthernetAddress_to_string [b] = EthernetAddress_hex b"
| "EthernetAddress_to_string (b # c # bs) = EthernetAddress_hex b @ '':'' @ EthernetAddress_to_string (c # bs)"

definition EthernetHeader_to_string :: "ethernet_header \<Rightarrow> string" where
  "EthernetHeader_to_string h =
     ''dst='' @ EthernetAddress_to_string (eth_dst h) @
     '', src='' @ EthernetAddress_to_string (eth_src h) @ '', type='' @
     (if eth_type h = TYPE_IPv4 then ''IPv4''
      else if eth_type h = TYPE_ARP then ''ARP''
      else ''[unknown type '' @ hex_string (unat (eth_type h)) @ ''!]'')"

section \<open>EthernetFrame\<close>

record ethernet_frame =
  fr_header :: ethernet_header
  fr_payload :: buffer_list

definition EthernetFrame_default :: ethernet_frame where
  "EthernetFrame_default = \<lparr>fr_header = EthernetHeader_default, fr_payload = []\<rparr>"

definition EthernetFrame_parse :: "ethernet_frame \<Rightarrow> buffer \<Rightarrow> (ethernet_frame \<times> parse_result) result" where
  "EthernetFrame_parse f buffer =
     rbind (EthernetHeader_parse (fr_header f) (NetParser_new buffer)) (\<lambda>((h, _), p).
       Inr (\<lparr>fr_header = h, fr_payload = BufferList_of_Buffer (np_buffer p)\<rparr>, np_error p))"

definition EthernetFrame_serialize :: "ethernet_frame \<Rightarrow> buffer_list" where
  "EthernetFrame_serialize f =
     (let ret = BufferList_append [] (BufferList_of_string (EthernetHeader_serialize (fr_header f)))
      in BufferList_append ret (fr_payload f))"

section \<open>ARPMessage\<close>

record arp_message =
  arp_hardware_type :: u16
  arp_protocol_type :: u16
  arp_hardware_address_size :: u8
  arp_protocol_address_size :: u8
  arp_opcode :: u16
  arp_sender_ethernet_address :: ethernet_address
  arp_sender_ip_address :: u32
  arp_target_ethernet_address :: ethernet_address
  arp_target_ip_address :: u32

definition ARPMessage_LENGTH :: u64 where
  "ARPMessage_LENGTH = 28"

definition TYPE_ETHERNET :: u16 where
  "TYPE_ETHERNET = 1"

definition OPCODE_REQUEST :: u16 where
  "OPCODE_REQUEST = 1"

definition OPCODE_REPLY :: u16 where
  "OPCODE_REPLY = 2"

definition ARPMessage_default :: arp_message where
  "ARPMessage_default =
     \<lparr>arp_hardware_type = TYPE_ETHERNET, arp_protocol_type = TYPE_IPv4, arp_hardware_address_size = 6,
      arp_protocol_address_size = 4, arp_opcode = 0, arp_sender_ethernet_address = replicate 6 0,
      arp_sender_ip_address = 0, arp_target_ethernet_address = replicate 6 0, arp_target_ip_address = 0\<rparr>"

definition ARPMessage_supported :: "arp_message \<Rightarrow> bool" where
  "ARPMessage_supported m \<longleftrightarrow>
     arp_hardware_type m = TYPE_ETHERNET \<and> arp_protocol_type m = TYPE_IPv4 \<and>
     arp_hardware_address_size m = 6 \<and> arp_protocol_address_size m = 4 \<and>
     (arp_opcode m = OPCODE_REQUEST \<or> arp_opcode m = OPCODE_REPLY)"

definition ARPMessage_parse :: "arp_message \<Rightarrow> buffer \<Rightarrow> (arp_message \<times> parse_result) result" where
  "ARPMessage_parse m buffer =
     (let p = NetParser_new buffer
      in if Buffer_size (np_buffer p) < ARPMessage_LENGTH then Inr (m, PacketTooShort)
         else
     rbind (NetParser_u16 p) (\<lambda>(ht, p).
     rbind (NetParser_u16 p) (\<lambda>(pt, p).
     rbind (NetParser_u8 p) (\<lambda>(hs, p).
     rbind (NetParser_u8 p) (\<lambda>(ps, p).
     rbind (NetParser_u16 p) (\<lambda>(op, p).
     let m = m\<lparr>arp_hardware_type := ht, arp_protocol_type := pt, arp_hardware_address_size := hs,
               arp_protocol_address_size := ps, arp_opcode := op\<rparr>
     in if \<not> ARPMessage_supported m then Inr (m, Unsupported)
        else
     rbind (parse_bytes 6 p) (\<lambda>(se, p).
     rbind (NetParser_u32 p) (\<lambda>(si, p).
     rbind (parse_bytes 6 p) (\<lambda>(te, p).
     rbind (NetParser_u32 p) (\<lambda>(ti, p).
     Inr (m\<lparr>arp_sender_ethernet_address := se, arp_sender_ip_address := si,
            arp_target_ethernet_address := te, arp_target_ip_address := ti\<rparr>, np_error p)))))))))))"

definition ARPMessage_serialize :: "arp_message \<Rightarrow> byte list result" where
  "ARPMessage_serialize m =
     (if \<not> ARPMessage_supported m then
        Inl (Runtime_error ''ARPMessage::serialize(): unsupported field combination (must be Ethernet/IP, and request or reply)'')
      else let ret = NetUnparser_u16 [] (arp_hardware_type m);
               ret = NetUnparser_u16 ret (arp_protocol_type m);
               ret = NetUnparser_u8 ret (arp_hardware_address_size m);
               ret = NetUnparser_u8 ret (arp_protocol_address_size m);
               ret = NetUnparser_u16 ret (arp_opcode m);
               ret = unparse_address ret (arp_sender_ethernet_address m);
               ret = NetUnparser_u32 ret (arp_sender_ip_address m);
               ret = unparse_address ret (arp_target_ethernet_address m);
               ret = NetUnparser_u32 ret (arp_target_ip_address m)
           in Inr ret)"

definition ARPMessage_to_string :: "arp_message \<Rightarrow> string" where
  "ARPMessage_to_string m =
     (let opcode_str = ''(unknown type)'';
          opcode_str = (if arp_opcode m = OPCODE_REQUEST then ''REQUEST'' else opcode_str);
          opcode_str = (if arp_opcode m = OPCODE_REPLY then ''REPLY'' else opcode_str)
      in ''opcode='' @ opcode_str @ '', sender='' @ EthernetAddress_to_string (arp_sender_ethernet_address m) @ ''/'' @
         inet_ntoa_string (arp_sender_ip_address m) @
         '', target='' @ EthernetAddress_to_string (arp_target_ethernet_address m) @ ''/'' @
         inet_ntoa_string (arp_target_ip_address m))"

section \<open>Formats\<close>

lemma unparse_address_eq [simp, bytes_of]: "unparse_address ret bs = ret @ bs"
  by (induction bs arbitrary: ret) simp_all

lemma parse_bytes_ok:
  "np_ok p \<Longrightarrow> np_bytes p = bs @ rest \<Longrightarrow>
   \<exists>q. parse_bytes (length bs) p = Inr (bs, q) \<and> np_ok q \<and> np_bytes q = rest"
proof (induction bs arbitrary: p)
  case Nil
  then show ?case by simp
next
  case (Cons b bs)
  then have "np_ok (np_drop p 1)" "np_bytes (np_drop p 1) = bs @ rest" by simp_all
  from Cons.IH[OF this] Cons.prems show ?case by auto
qed

lemma np_step_bytes:
  assumes "np_ok p" and "np_bytes p = v @ rest" and "length v = n"
    and "\<And>q. np_ok q \<Longrightarrow> np_bytes q = rest \<Longrightarrow> \<exists>r. f (v, q) = Inr r \<and> P r"
  shows "\<exists>r. rbind (parse_bytes n p) f = Inr r \<and> P r"
  using parse_bytes_ok[OF assms(1,2)] assms(3,4) by auto

definition eth_valid :: "ethernet_header \<Rightarrow> bool" where
  "eth_valid h \<longleftrightarrow> length (eth_dst h) = 6 \<and> length (eth_src h) = 6"

lemma serialize_eth: "EthernetHeader_serialize h = eth_dst h @ eth_src h @ be16 (eth_type h)"
  by (simp add: EthernetHeader_serialize_def Let_def)

lemma parse_eth:
  assumes "eth_valid h" and ok: "np_ok p" and bytes: "np_bytes p = EthernetHeader_serialize h @ rest"
  shows "\<exists>r. EthernetHeader_parse h0 p = Inr r \<and> (fst r = (h, NoError) \<and> np_ok (snd r) \<and> np_bytes (snd r) = rest)"
proof -
  have d: "length (eth_dst h) = 6" and s: "length (eth_src h) = 6" using assms(1) by (simp_all add: eth_valid_def)
  have "14 \<le> length (np_bytes p)" using bytes d s by (simp add: serialize_eth)
  then have ge: "\<not> Buffer_size (np_buffer p) < EthernetHeader_LENGTH"
    by (simp add: Buffer_size_def np_bytes_def EthernetHeader_LENGTH_def)
  note b = bytes[unfolded serialize_eth append_assoc]
  show ?thesis
    unfolding EthernetHeader_parse_def if_not_P[OF ge]
    apply (rule np_step_bytes[OF ok b d], simp only: prod.case)
    apply (rule np_step_bytes, assumption, assumption, rule s, simp only: prod.case)
    apply (rule np_step_u16, assumption, assumption, simp only: prod.case)
    apply simp
    done
qed

interpretation eth_codec: codec EthernetHeader_serialize "\<lambda>p h q. EthernetHeader_parse h0 p = Inr ((h, NoError), q)" eth_valid
  for h0
proof unfold_locales
  fix h p rest assume "eth_valid h" "np_ok p" "np_bytes p = EthernetHeader_serialize h @ rest"
  from parse_eth[OF this]
  show "\<exists>q. EthernetHeader_parse h0 p = Inr ((h, NoError), q) \<and> np_ok q \<and> np_bytes q = rest" by force
qed simp

definition arp_valid :: "arp_message \<Rightarrow> bool" where
  "arp_valid m \<longleftrightarrow> ARPMessage_supported m \<and> length (arp_sender_ethernet_address m) = 6 \<and>
     length (arp_target_ethernet_address m) = 6"

definition arp_bytes :: "arp_message \<Rightarrow> byte list" where
  "arp_bytes m = be16 (arp_hardware_type m) @ be16 (arp_protocol_type m) @ arp_hardware_address_size m #
     arp_protocol_address_size m # be16 (arp_opcode m) @ arp_sender_ethernet_address m @ be32 (arp_sender_ip_address m) @
     arp_target_ethernet_address m @ be32 (arp_target_ip_address m)"

lemma serialize_arp: "arp_valid m \<Longrightarrow> ARPMessage_serialize m = Inr (arp_bytes m)"
  by (simp add: ARPMessage_serialize_def arp_valid_def arp_bytes_def Let_def)

lemma length_arp: "arp_valid m \<Longrightarrow> length (arp_bytes m) = 28"
  by (simp add: arp_valid_def arp_bytes_def)

lemma parse_arp:
  assumes valid: "arp_valid m" and wf: "buffer_wf b" and bytes: "Buffer_str b = arp_bytes m @ rest"
  shows "ARPMessage_parse m0 b = Inr (m, NoError)"
proof -
  let ?p = "NetParser_new b"
  have sup: "ARPMessage_supported m" and l: "length (arp_sender_ethernet_address m) = 6" "length (arp_target_ethernet_address m) = 6"
    using valid by (simp_all add: arp_valid_def)
  have ok: "np_ok ?p" using wf by simp
  have b: "np_bytes ?p = be16 (arp_hardware_type m) @ be16 (arp_protocol_type m) @ arp_hardware_address_size m #
     arp_protocol_address_size m # be16 (arp_opcode m) @ arp_sender_ethernet_address m @ be32 (arp_sender_ip_address m) @
     arp_target_ethernet_address m @ be32 (arp_target_ip_address m) @ rest" using bytes by (simp add: arp_bytes_def)
  have ge: "\<not> Buffer_size (np_buffer ?p) < ARPMessage_LENGTH"
    using bytes length_arp[OF valid] by (simp add: Buffer_size_def ARPMessage_LENGTH_def NetParser_new_def)
  have s: "ARPMessage_supported (m0\<lparr>arp_hardware_type := arp_hardware_type m, arp_protocol_type := arp_protocol_type m,
     arp_hardware_address_size := arp_hardware_address_size m, arp_protocol_address_size := arp_protocol_address_size m,
     arp_opcode := arp_opcode m\<rparr>)" using sup by (simp add: ARPMessage_supported_def)
  have "\<exists>r. ARPMessage_parse m0 b = Inr r \<and> r = (m, NoError)"
    unfolding ARPMessage_parse_def Let_def if_not_P[OF ge]
    apply (rule np_step_u16[OF ok b], simp only: prod.case)
    apply (rule np_steps, assumption, assumption, simp only: prod.case)+
    apply (simp only: s simp_thms if_False)
    apply (rule np_step_bytes, assumption, assumption, rule l, simp only: prod.case)
    apply (rule np_step_u32, assumption, assumption, simp only: prod.case)
    apply (rule np_step_bytes, assumption, assumption, rule l, simp only: prod.case)
    apply (rule np_step_u32, assumption, assumption, simp only: prod.case)
    apply simp
    done
  then show ?thesis by simp
qed

lemma frame_parses:
  assumes "eth_valid (fr_header f)" "bl_wf (fr_payload f)" "length (bl_bytes (fr_payload f)) < 2 ^ 32"
  shows "\<exists>b. EthernetFrame_parse f0 (Buffer_of (BufferList_concatenate (EthernetFrame_serialize f))) =
    Inr (\<lparr>fr_header = fr_header f, fr_payload = [b]\<rparr>, NoError) \<and> buffer_wf b \<and> Buffer_str b = bl_bytes (fr_payload f)"
proof -
  let ?b = "Buffer_of (EthernetHeader_serialize (fr_header f) @ bl_bytes (fr_payload f))"
  have cat: "BufferList_concatenate (EthernetFrame_serialize f) = EthernetHeader_serialize (fr_header f) @ bl_bytes (fr_payload f)"
    by (simp add: EthernetFrame_serialize_def Let_def)
  have ok: "np_ok (NetParser_new ?b)" "np_bytes (NetParser_new ?b) = EthernetHeader_serialize (fr_header f) @ bl_bytes (fr_payload f)"
    using assms(1,3) by (simp_all add: serialize_eth eth_valid_def)
  from eth_codec.read_back[OF assms(1) ok, of "fr_header f0"] show ?thesis unfolding cat
    by (auto simp: EthernetFrame_parse_def BufferList_of_Buffer_def np_ok_def np_bytes_def)
qed

section \<open>Properties\<close>

text \<open>An Ethernet frame serialized and parsed back is the same frame: both addresses, the type and the
  payload bytes.\<close>

theorem ethernet_frame_roundtrip:
  assumes "eth_valid (fr_header f)" "bl_wf (fr_payload f)" "length (bl_bytes (fr_payload f)) < 2 ^ 32"
  shows "\<exists>f'. EthernetFrame_parse f0 (Buffer_of (BufferList_concatenate (EthernetFrame_serialize f))) = Inr (f', NoError) \<and>
    fr_header f' = fr_header f \<and> BufferList_concatenate (fr_payload f') = BufferList_concatenate (fr_payload f)"
  using frame_parses[OF assms, of f0] by auto

theorem ethernet_frame_roundtrip_witness:
  "\<exists>f'. EthernetFrame_parse EthernetFrame_default (Buffer_of (BufferList_concatenate (EthernetFrame_serialize
      \<lparr>fr_header = \<lparr>eth_dst = ETHERNET_BROADCAST, eth_src = [2, 0, 0, 0, 0, 1], eth_type = TYPE_ARP\<rparr>,
       fr_payload = [Buffer_of [1, 2], Buffer_of [3]]\<rparr>))) = Inr (f', NoError) \<and>
    BufferList_concatenate (fr_payload f') = [1, 2, 3]"
  using ethernet_frame_roundtrip[of "\<lparr>fr_header = \<lparr>eth_dst = ETHERNET_BROADCAST, eth_src = [2, 0, 0, 0, 0, 1], eth_type = TYPE_ARP\<rparr>,
       fr_payload = [Buffer_of [1, 2], Buffer_of [3]]\<rparr>" EthernetFrame_default]
  by (auto simp: eth_valid_def ETHERNET_BROADCAST_def bl_wf_def)

text \<open>\<open>serialize\<close> of an ARP message throws exactly when the message is not a supported one, and a
  serialized message, with any bytes after it, parses back to itself.\<close>

theorem arp_message_roundtrip:
  assumes "length (arp_sender_ethernet_address m) = 6" "length (arp_target_ethernet_address m) = 6" "length pad < 2 ^ 32"
  shows "case ARPMessage_serialize m of
      Inl _ \<Rightarrow> \<not> ARPMessage_supported m
    | Inr bs \<Rightarrow> ARPMessage_supported m \<and> length bs = ARPMessage_LENGTH \<and>
                ARPMessage_parse m0 (Buffer_of (bs @ pad)) = Inr (m, NoError)"
proof (cases "ARPMessage_supported m")
  case True
  then have v: "arp_valid m" using assms by (simp add: arp_valid_def)
  have "ARPMessage_parse m0 (Buffer_of (arp_bytes m @ pad)) = Inr (m, NoError)"
    using assms(3) by (intro parse_arp[OF v]) (simp_all add: length_arp[OF v])
  then show ?thesis using serialize_arp[OF v] True by (simp add: length_arp[OF v] ARPMessage_LENGTH_def)
next
  case False
  then show ?thesis by (simp add: ARPMessage_serialize_def)
qed

theorem arp_message_roundtrip_witness:
  "case ARPMessage_serialize (ARPMessage_default\<lparr>arp_opcode := OPCODE_REPLY, arp_target_ip_address := 7\<rparr>) of
     Inl _ \<Rightarrow> False
   | Inr bs \<Rightarrow> ARPMessage_parse ARPMessage_default (Buffer_of (bs @ [0, 0])) =
       Inr (ARPMessage_default\<lparr>arp_opcode := OPCODE_REPLY, arp_target_ip_address := 7\<rparr>, NoError)"
  using arp_message_roundtrip[of "ARPMessage_default\<lparr>arp_opcode := OPCODE_REPLY, arp_target_ip_address := 7\<rparr>" "[0, 0]" ARPMessage_default]
  by (simp add: ARPMessage_supported_def ARPMessage_default_def split: sum.splits)

end
