(* ===== verification/Network_Interface.thy ===== *)
theory Network_Interface
  imports Ethernet
begin

text \<open>
  The network interface (\<open>libsponge/network_interface.hh\<close>, \<open>.cc\<close>): ARP cache, datagrams that wait for an ARP
  reply, and the queue of frames to send.  The two \<open>std::map\<close>s are partial functions.  The C++ \<open>int\<close> that counts
  down a lifetime is an integer that wraps at 32 bits (\<open>to_int32\<close>).  Using the \<open>end\<close> iterator is
  \<open>Undefined_behaviour\<close>.
\<close>

section \<open>NetworkInterface\<close>

definition ARP_PENDING_TTL :: int where
  "ARP_PENDING_TTL = 5000"

definition ARP_CACHE_TTL :: int where
  "ARP_CACHE_TTL = 30000"

record arp_entry =
  ae_eth_addr :: ethernet_address
  ae_ttl :: int

record network_interface =
  ni_arp_cache :: "u32 \<rightharpoonup> arp_entry"
  ni_ethernet_address :: ethernet_address
  ni_ip_address :: address
  ni_frames_out :: "ethernet_frame list"
  ni_frames_cannot_find_arp :: "u32 \<rightharpoonup> ipv4_datagram list \<times> int"

definition NetworkInterface_new :: "ethernet_address \<Rightarrow> address \<Rightarrow> network_interface" where
  "NetworkInterface_new ethernet_address ip_address =
     \<lparr>ni_arp_cache = Map.empty, ni_ethernet_address = ethernet_address, ni_ip_address = ip_address,
      ni_frames_out = [], ni_frames_cannot_find_arp = Map.empty\<rparr>"

definition NetworkInterface_push :: "network_interface \<Rightarrow> ethernet_address \<Rightarrow> u16 \<Rightarrow> buffer_list \<Rightarrow> network_interface" where
  "NetworkInterface_push ni dst type payload =
     ni\<lparr>ni_frames_out := ni_frames_out ni @
          [\<lparr>fr_header = \<lparr>eth_dst = dst, eth_src = ni_ethernet_address ni, eth_type = type\<rparr>, fr_payload = payload\<rparr>]\<rparr>"

definition NetworkInterface_send_datagram ::
  "network_interface \<Rightarrow> ipv4_datagram \<Rightarrow> address \<Rightarrow> network_interface result" where
  "NetworkInterface_send_datagram ni dgram next_hop =
     rbind (Address_ipv4_numeric next_hop) (\<lambda>next_hop_ip.
       case ni_arp_cache ni next_hop_ip of
         Some e \<Rightarrow>
           rbind (IPv4Datagram_serialize dgram) (\<lambda>payload.
             Inr (NetworkInterface_push ni (ae_eth_addr e) TYPE_IPv4 payload))
       | None \<Rightarrow>
           (case ni_frames_cannot_find_arp ni next_hop_ip of
              None \<Rightarrow>
                rbind (Address_ipv4_numeric (ni_ip_address ni)) (\<lambda>ip.
                  let seg = ARPMessage_default\<lparr>arp_opcode := OPCODE_REQUEST,
                              arp_sender_ethernet_address := ni_ethernet_address ni,
                              arp_sender_ip_address := ip, arp_target_ip_address := next_hop_ip\<rparr>
                  in rbind (ARPMessage_serialize seg) (\<lambda>payload.
                     let ni = NetworkInterface_push ni ETHERNET_BROADCAST TYPE_ARP (BufferList_of_string payload)
                     in Inr (ni\<lparr>ni_frames_cannot_find_arp :=
                               (ni_frames_cannot_find_arp ni)(next_hop_ip \<mapsto> ([dgram], ARP_PENDING_TTL))\<rparr>)))
            | Some (waiting, ttl) \<Rightarrow>
                Inr (ni\<lparr>ni_frames_cannot_find_arp :=
                       (ni_frames_cannot_find_arp ni)(next_hop_ip \<mapsto> (waiting @ [dgram], ttl))\<rparr>)))"

text \<open>The loop that sends the waiting datagrams.\<close>

fun NetworkInterface_flush ::
  "network_interface \<Rightarrow> ethernet_address \<Rightarrow> ipv4_datagram list \<Rightarrow> network_interface result" where
  "NetworkInterface_flush ni dst [] = Inr ni"
| "NetworkInterface_flush ni dst (dgram # dgrams) =
     rbind (IPv4Datagram_serialize dgram) (\<lambda>payload.
       NetworkInterface_flush (NetworkInterface_push ni dst TYPE_IPv4 payload) dst dgrams)"

definition NetworkInterface_learn :: "network_interface \<Rightarrow> arp_message \<Rightarrow> network_interface" where
  "NetworkInterface_learn ni seg =
     ni\<lparr>ni_arp_cache := (ni_arp_cache ni)(arp_sender_ip_address seg \<mapsto>
          \<lparr>ae_eth_addr = arp_sender_ethernet_address seg, ae_ttl = ARP_CACHE_TTL\<rparr>)\<rparr>"

text \<open>An ARP message has arrived: a reply, and anything else.\<close>

definition NetworkInterface_recv_arp :: "network_interface \<Rightarrow> arp_message \<Rightarrow> network_interface result" where
  "NetworkInterface_recv_arp ni seg =
     rbind (Address_ipv4_numeric (ni_ip_address ni)) (\<lambda>ip.
       if arp_opcode seg = OPCODE_REPLY then
         (if arp_target_ip_address seg = ip then
            (let ni = NetworkInterface_learn ni seg
             in case ni_frames_cannot_find_arp ni (arp_sender_ip_address seg) of
                  None \<Rightarrow> Inl (Undefined_behaviour ''dereference of end()'')
                | Some (waiting, ttl) \<Rightarrow>
                    rbind (NetworkInterface_flush ni (arp_sender_ethernet_address seg) waiting) (\<lambda>ni.
                      Inr (ni\<lparr>ni_frames_cannot_find_arp :=
                             (ni_frames_cannot_find_arp ni)(arp_sender_ip_address seg := None)\<rparr>)))
          else Inr ni)
       else
         (if arp_target_ip_address seg = ip then
            (let ni = NetworkInterface_learn ni seg;
                 arp_reply = ARPMessage_default\<lparr>arp_opcode := OPCODE_REPLY,
                   arp_sender_ethernet_address := ni_ethernet_address ni, arp_sender_ip_address := ip,
                   arp_target_ip_address := arp_sender_ip_address seg,
                   arp_target_ethernet_address := arp_sender_ethernet_address seg\<rparr>
             in rbind (ARPMessage_serialize arp_reply) (\<lambda>payload.
                  Inr (NetworkInterface_push ni (arp_target_ethernet_address arp_reply) TYPE_ARP
                         (BufferList_of_string payload))))
          else Inr ni))"

definition NetworkInterface_recv_frame ::
  "network_interface \<Rightarrow> ethernet_frame \<Rightarrow> (ipv4_datagram option \<times> network_interface) result" where
  "NetworkInterface_recv_frame ni frame =
     (if eth_dst (fr_header frame) \<noteq> [0xff, 0xff, 0xff, 0xff, 0xff, 0xff] \<and>
         eth_dst (fr_header frame) \<noteq> ni_ethernet_address ni
      then Inr (None, ni)
      else
        rbind (if eth_type (fr_header frame) = TYPE_ARP then
                 rbind (BufferList_to_Buffer (fr_payload frame)) (\<lambda>b.
                 rbind (ARPMessage_parse ARPMessage_default b) (\<lambda>(seg, _).
                   NetworkInterface_recv_arp ni seg))
               else Inr ni) (\<lambda>ni.
          if eth_type (fr_header frame) = TYPE_IPv4 then
            rbind (BufferList_to_Buffer (fr_payload frame)) (\<lambda>b.
            rbind (IPv4Datagram_parse IPv4Datagram_default b) (\<lambda>(dgram, _). Inr (Some dgram, ni)))
          else Inr (None, ni)))"

definition NetworkInterface_tick :: "network_interface \<Rightarrow> u64 \<Rightarrow> network_interface" where
  "NetworkInterface_tick ni ms_since_last_tick =
     ni\<lparr>ni_arp_cache := (\<lambda>ip. case ni_arp_cache ni ip of
            None \<Rightarrow> None
          | Some e \<Rightarrow> let ttl = to_int32 (ae_ttl e - int ms_since_last_tick)
                       in if ttl \<le> 0 then None else Some (e\<lparr>ae_ttl := ttl\<rparr>)),
        ni_frames_cannot_find_arp := (\<lambda>ip. case ni_frames_cannot_find_arp ni ip of
            None \<Rightarrow> None
          | Some (waiting, t) \<Rightarrow> let ttl = to_int32 (t - int ms_since_last_tick)
                       in if ttl \<le> 0 then None else Some (waiting, ttl))\<rparr>"

section \<open>Lemmas\<close>

lemma push_fields [simp]:
  "ni_arp_cache (NetworkInterface_push ni d t p) = ni_arp_cache ni"
  "ni_ethernet_address (NetworkInterface_push ni d t p) = ni_ethernet_address ni"
  "ni_ip_address (NetworkInterface_push ni d t p) = ni_ip_address ni"
  "ni_frames_cannot_find_arp (NetworkInterface_push ni d t p) = ni_frames_cannot_find_arp ni"
  "ni_frames_out (NetworkInterface_push ni d t p) = ni_frames_out ni @
     [\<lparr>fr_header = \<lparr>eth_dst = d, eth_src = ni_ethernet_address ni, eth_type = t\<rparr>, fr_payload = p\<rparr>]"
  by (simp_all add: NetworkInterface_push_def)

lemma learn_fields [simp]:
  "ni_arp_cache (NetworkInterface_learn ni seg) = (ni_arp_cache ni)(arp_sender_ip_address seg \<mapsto>
     \<lparr>ae_eth_addr = arp_sender_ethernet_address seg, ae_ttl = ARP_CACHE_TTL\<rparr>)"
  "ni_ethernet_address (NetworkInterface_learn ni seg) = ni_ethernet_address ni"
  "ni_ip_address (NetworkInterface_learn ni seg) = ni_ip_address ni"
  "ni_frames_cannot_find_arp (NetworkInterface_learn ni seg) = ni_frames_cannot_find_arp ni"
  "ni_frames_out (NetworkInterface_learn ni seg) = ni_frames_out ni"
  by (simp_all add: NetworkInterface_learn_def)

lemma arp_types [simp]: "TYPE_ARP \<noteq> TYPE_IPv4" "TYPE_IPv4 \<noteq> TYPE_ARP" "OPCODE_REQUEST \<noteq> OPCODE_REPLY" "OPCODE_REPLY \<noteq> OPCODE_REQUEST"
  by (simp_all add: TYPE_ARP_def TYPE_IPv4_def OPCODE_REQUEST_def OPCODE_REPLY_def)

text \<open>The frame that carries a datagram, and the loop that sends the waiting ones.\<close>

definition dgram_bytes :: "ipv4_datagram \<Rightarrow> buffer_list" where
  "dgram_bytes d = Buffer_of (ipv4_header_bytes ((dg_header d)\<lparr>ip_cksum := ipv4_checksum (dg_header d)\<rparr>)) # dg_payload d"

definition dgram_frame :: "ethernet_address \<Rightarrow> ethernet_address \<Rightarrow> ipv4_datagram \<Rightarrow> ethernet_frame" where
  "dgram_frame dst src d = \<lparr>fr_header = \<lparr>eth_dst = dst, eth_src = src, eth_type = TYPE_IPv4\<rparr>, fr_payload = dgram_bytes d\<rparr>"

lemma serialize_dgram_bytes: "dgram_valid d \<Longrightarrow> IPv4Datagram_serialize d = Inr (dgram_bytes d)"
  using serialize_dgram by (simp add: dgram_bytes_def)

lemma flush_ok:
  assumes "\<forall>d\<in>set ds. dgram_valid d"
  shows "NetworkInterface_flush ni dst ds = Inr (ni\<lparr>ni_frames_out := ni_frames_out ni @ map (dgram_frame dst (ni_ethernet_address ni)) ds\<rparr>)"
  using assms
  by (induction ds arbitrary: ni) (simp_all add: serialize_dgram_bytes, simp add: NetworkInterface_push_def dgram_frame_def)

section \<open>Invariant\<close>

definition ni_inv :: "network_interface \<Rightarrow> bool" where
  "ni_inv ni \<longleftrightarrow>
     length (ni_ethernet_address ni) = 6 \<and> (\<exists>ip port. ni_ip_address ni = ipv4_address ip port) \<and>
     (\<forall>ip e. ni_arp_cache ni ip = Some e \<longrightarrow> length (ae_eth_addr e) = 6 \<and> 0 < ae_ttl e \<and> ae_ttl e \<le> ARP_CACHE_TTL) \<and>
     (\<forall>ip ds t. ni_frames_cannot_find_arp ni ip = Some (ds, t) \<longrightarrow>
        ds \<noteq> [] \<and> (\<forall>d\<in>set ds. dgram_valid d) \<and> 0 < t \<and> t \<le> ARP_PENDING_TTL)"

datatype ni_op = NI_send ipv4_datagram address | NI_recv ethernet_frame | NI_tick u64

fun ni_step :: "network_interface \<Rightarrow> ni_op \<Rightarrow> network_interface result" where
  "ni_step ni (NI_send d hop) = NetworkInterface_send_datagram ni d hop"
| "ni_step ni (NI_recv f) = rbind (NetworkInterface_recv_frame ni f) (\<lambda>(_, ni'). Inr ni')"
| "ni_step ni (NI_tick ms) = Inr (NetworkInterface_tick ni ms)"

text \<open>
  What an interface can be given: valid datagrams for an IPv4 next hop, frames as they come off the wire
  with their payload in one buffer, where an ARP message is a supported one and a reply to this
  interface answers a pending request, and ticks below \<open>2 ^ 31\<close> milliseconds.
\<close>

definition arp_expected :: "network_interface \<Rightarrow> arp_message \<Rightarrow> bool" where
  "arp_expected ni m \<longleftrightarrow> arp_valid m \<and>
     (arp_opcode m = OPCODE_REPLY \<and> Address_ipv4_numeric (ni_ip_address ni) = Inr (arp_target_ip_address m) \<longrightarrow>
        ni_frames_cannot_find_arp ni (arp_sender_ip_address m) \<noteq> None)"

fun ni_op_ok :: "network_interface \<Rightarrow> ni_op \<Rightarrow> bool" where
  "ni_op_ok ni (NI_send d hop) = (dgram_valid d \<and> (\<exists>ip port. hop = ipv4_address ip port))"
| "ni_op_ok ni (NI_recv f) =
     (\<exists>b. fr_payload f = [b] \<and> buffer_wf b \<and>
        (eth_type (fr_header f) = TYPE_ARP \<longrightarrow> (\<exists>m pad. Buffer_str b = arp_bytes m @ pad \<and> arp_expected ni m)) \<and>
        (eth_type (fr_header f) = TYPE_IPv4 \<longrightarrow> (\<exists>d r. IPv4Datagram_parse IPv4Datagram_default b = Inr (d, r))))"
| "ni_op_ok ni (NI_tick ms) = (ms < 2 ^ 31)"

lemma request_valid:
  assumes "length e = 6"
  shows "arp_valid (ARPMessage_default\<lparr>arp_opcode := OPCODE_REQUEST, arp_sender_ethernet_address := e,
    arp_sender_ip_address := i, arp_target_ip_address := j\<rparr>)"
  using assms by (simp add: arp_valid_def ARPMessage_supported_def ARPMessage_default_def)

lemma reply_valid:
  assumes "length e = 6" "length f = 6"
  shows "arp_valid (ARPMessage_default\<lparr>arp_opcode := OPCODE_REPLY, arp_sender_ethernet_address := e,
    arp_sender_ip_address := i, arp_target_ip_address := j, arp_target_ethernet_address := f\<rparr>)"
  using assms by (simp add: arp_valid_def ARPMessage_supported_def ARPMessage_default_def)

lemma ni_send_inv:
  assumes inv: "ni_inv ni" and ok: "dgram_valid d"
  shows "\<exists>ni'. NetworkInterface_send_datagram ni d (ipv4_address ip port) = Inr ni' \<and> ni_inv ni' \<and>
    length (ni_frames_out ni) \<le> length (ni_frames_out ni')"
proof -
  obtain i p where ip: "ni_ip_address ni = ipv4_address i p" using inv by (auto simp: ni_inv_def)
  have e: "length (ni_ethernet_address ni) = 6" using inv by (simp add: ni_inv_def)
  show ?thesis
  proof (cases "ni_arp_cache ni ip")
    case (Some en)
    then show ?thesis using inv ok by (auto simp: NetworkInterface_send_datagram_def serialize_dgram_bytes ni_inv_def)
  next
    case None
    show ?thesis
    proof (cases "ni_frames_cannot_find_arp ni ip")
      case pn: None
      show ?thesis using inv ok None pn ip serialize_arp[OF request_valid[OF e]]
        by (auto simp: NetworkInterface_send_datagram_def Let_def ni_inv_def ARP_PENDING_TTL_def)
    next
      case (Some w)
      then show ?thesis using inv ok None
        by (cases w) (auto simp: NetworkInterface_send_datagram_def ni_inv_def)
    qed
  qed
qed

lemma ni_arp_inv:
  assumes inv: "ni_inv ni" and ok: "arp_expected ni m"
  shows "\<exists>ni'. NetworkInterface_recv_arp ni m = Inr ni' \<and> ni_inv ni' \<and> length (ni_frames_out ni) \<le> length (ni_frames_out ni')"
proof -
  obtain i p where ip: "ni_ip_address ni = ipv4_address i p" using inv by (auto simp: ni_inv_def)
  have e: "length (ni_ethernet_address ni) = 6" using inv by (simp add: ni_inv_def)
  have v: "length (arp_sender_ethernet_address m) = 6" using ok by (simp add: arp_expected_def arp_valid_def)
  have learn: "ni_inv (NetworkInterface_learn ni m)" using inv v by (auto simp: ni_inv_def ARP_CACHE_TTL_def)
  consider "arp_target_ip_address m \<noteq> i" | "arp_target_ip_address m = i" "arp_opcode m = OPCODE_REPLY"
    | "arp_target_ip_address m = i" "arp_opcode m \<noteq> OPCODE_REPLY" by blast
  then show ?thesis
  proof cases
    case 1
    then show ?thesis using inv by (simp add: NetworkInterface_recv_arp_def ip)
  next
    case 2
    then obtain w t where w: "ni_frames_cannot_find_arp ni (arp_sender_ip_address m) = Some (w, t)"
      using ok by (auto simp: arp_expected_def ip)
    then have "\<forall>d\<in>set w. dgram_valid d" using inv unfolding ni_inv_def by blast
    from flush_ok[OF this] show ?thesis
      using 2 w learn by (simp add: NetworkInterface_recv_arp_def ip Let_def ni_inv_def)
  next
    case 3
    then show ?thesis using learn serialize_arp[OF reply_valid[OF e v]]
      by (simp add: NetworkInterface_recv_arp_def ip Let_def) (simp add: ni_inv_def)
  qed
qed

lemma tick_cache:
  assumes "ni_inv ni" and "ms < 2 ^ 31"
  shows "ni_arp_cache (NetworkInterface_tick ni ms) ip =
    (case ni_arp_cache ni ip of None \<Rightarrow> None
     | Some e \<Rightarrow> if ae_ttl e \<le> int ms then None else Some (e\<lparr>ae_ttl := ae_ttl e - int ms\<rparr>))"
proof (cases "ni_arp_cache ni ip")
  case (Some e)
  then have "0 < ae_ttl e" "ae_ttl e \<le> 30000" using assms(1) by (auto simp: ni_inv_def ARP_CACHE_TTL_def)
  then have "to_int32 (ae_ttl e - int ms) = ae_ttl e - int ms" using assms(2) by (intro to_int32_small) simp_all
  then show ?thesis using Some by (simp add: NetworkInterface_tick_def)
qed (simp add: NetworkInterface_tick_def)

lemma tick_pending:
  assumes "ni_inv ni" and "ms < 2 ^ 31"
  shows "ni_frames_cannot_find_arp (NetworkInterface_tick ni ms) ip =
    (case ni_frames_cannot_find_arp ni ip of None \<Rightarrow> None
     | Some (ds, t) \<Rightarrow> if t \<le> int ms then None else Some (ds, t - int ms))"
proof (cases "ni_frames_cannot_find_arp ni ip")
  case (Some w)
  obtain ds t where w: "w = (ds, t)" by (cases w)
  then have "0 < t" "t \<le> 5000" using assms(1) Some unfolding ni_inv_def ARP_PENDING_TTL_def by blast+
  then have "to_int32 (t - int ms) = t - int ms" using assms(2) by (intro to_int32_small) simp_all
  then show ?thesis using Some w by (simp add: NetworkInterface_tick_def)
qed (simp add: NetworkInterface_tick_def)

lemma ni_tick_inv:
  assumes inv: "ni_inv ni" and ms: "ms < 2 ^ 31" shows "ni_inv (NetworkInterface_tick ni ms)"
proof -
  have "length (ae_eth_addr e) = 6 \<and> 0 < ae_ttl e \<and> ae_ttl e \<le> ARP_CACHE_TTL"
    if "ni_arp_cache (NetworkInterface_tick ni ms) ip = Some e" for ip e
    using that inv unfolding tick_cache[OF inv ms] ni_inv_def by (force split: option.splits if_splits)
  moreover have "ds \<noteq> [] \<and> (\<forall>d\<in>set ds. dgram_valid d) \<and> 0 < t \<and> t \<le> ARP_PENDING_TTL"
    if pd: "ni_frames_cannot_find_arp (NetworkInterface_tick ni ms) ip = Some (ds, t)" for ip ds t
  proof -
    obtain t' where "ni_frames_cannot_find_arp ni ip = Some (ds, t')" "t = t' - int ms" "\<not> t' \<le> int ms"
      using pd unfolding tick_pending[OF inv ms] by (auto split: option.splits if_splits)
    moreover then have "ds \<noteq> [] \<and> (\<forall>d\<in>set ds. dgram_valid d) \<and> t' \<le> ARP_PENDING_TTL" using inv unfolding ni_inv_def by blast
    ultimately show ?thesis by auto
  qed
  moreover have "ni_ethernet_address (NetworkInterface_tick ni ms) = ni_ethernet_address ni"
    "ni_ip_address (NetworkInterface_tick ni ms) = ni_ip_address ni" by (simp_all add: NetworkInterface_tick_def)
  ultimately show ?thesis using inv unfolding ni_inv_def by simp
qed

lemma ni_recv_inv:
  assumes inv: "ni_inv ni" and ok: "ni_op_ok ni (NI_recv f)"
  shows "\<exists>ni'. ni_step ni (NI_recv f) = Inr ni' \<and> ni_inv ni' \<and> length (ni_frames_out ni) \<le> length (ni_frames_out ni')"
proof -
  obtain b where b: "fr_payload f = [b]" "buffer_wf b" using ok by auto
  consider "eth_type (fr_header f) = TYPE_ARP" | "eth_type (fr_header f) = TYPE_IPv4"
    | "eth_type (fr_header f) \<noteq> TYPE_ARP" "eth_type (fr_header f) \<noteq> TYPE_IPv4" by blast
  then show ?thesis
  proof cases
    case 1
    then obtain m pad where m: "Buffer_str b = arp_bytes m @ pad" "arp_expected ni m" using ok b by auto
    then have "ARPMessage_parse ARPMessage_default b = Inr (m, NoError)"
      using parse_arp[OF _ b(2) m(1)] by (simp add: arp_expected_def)
    then show ?thesis using ni_arp_inv[OF inv m(2)] 1 b inv by (auto simp: NetworkInterface_recv_frame_def)
  next
    case 2
    then obtain d r where "IPv4Datagram_parse IPv4Datagram_default b = Inr (d, r)" using ok b by auto
    then show ?thesis using 2 b inv by (simp add: NetworkInterface_recv_frame_def)
  next
    case 3
    then show ?thesis using inv by (simp add: NetworkInterface_recv_frame_def)
  qed
qed

interpretation network_if: step_system ni_step ni_op_ok ni_inv "\<lambda>ni. length (ni_frames_out ni)"
proof
  fix ni p assume inv: "ni_inv ni" and ok: "ni_op_ok ni p"
  show "\<exists>ni'. ni_step ni p = Inr ni' \<and> ni_inv ni' \<and> length (ni_frames_out ni) \<le> length (ni_frames_out ni')"
  proof (cases p)
    case (NI_send d hop)
    then show ?thesis using ni_send_inv[OF inv] ok by auto
  next
    case (NI_recv f)
    then show ?thesis using ni_recv_inv[OF inv] ok by blast
  next
    case (NI_tick ms)
    then show ?thesis using ni_tick_inv[OF inv] ok by (simp add: NetworkInterface_tick_def)
  qed
qed


section \<open>Properties\<close>



text \<open>C24: \<open>send_datagram\<close> to a cached address emits exactly one IPv4 frame for that address; to an address
  whose request is pending it only queues the datagram; otherwise it broadcasts exactly one ARP request
  for it and queues the datagram for five seconds.\<close>

theorem send_datagram_correct:
  assumes "ni_inv ni" and "dgram_valid d" and "ni_ip_address ni = ipv4_address self sp"
  shows "\<exists>ni'. NetworkInterface_send_datagram ni d (ipv4_address ip port) = Inr ni' \<and> ni_arp_cache ni' = ni_arp_cache ni \<and>
    (case ni_arp_cache ni ip of
       Some e \<Rightarrow> ni_frames_cannot_find_arp ni' = ni_frames_cannot_find_arp ni \<and>
         (\<exists>bl. IPv4Datagram_serialize d = Inr bl \<and> ni_frames_out ni' = ni_frames_out ni @
            [\<lparr>fr_header = \<lparr>eth_dst = ae_eth_addr e, eth_src = ni_ethernet_address ni, eth_type = TYPE_IPv4\<rparr>, fr_payload = bl\<rparr>])
     | None \<Rightarrow>
       (case ni_frames_cannot_find_arp ni ip of
          Some (ds, t) \<Rightarrow> ni_frames_out ni' = ni_frames_out ni \<and>
            ni_frames_cannot_find_arp ni' = (ni_frames_cannot_find_arp ni)(ip \<mapsto> (ds @ [d], t))
        | None \<Rightarrow> ni_frames_cannot_find_arp ni' = (ni_frames_cannot_find_arp ni)(ip \<mapsto> ([d], ARP_PENDING_TTL)) \<and>
            (\<exists>m bs. ARPMessage_serialize m = Inr bs \<and> arp_opcode m = OPCODE_REQUEST \<and> arp_target_ip_address m = ip \<and>
               arp_sender_ip_address m = self \<and> arp_sender_ethernet_address m = ni_ethernet_address ni \<and>
               ni_frames_out ni' = ni_frames_out ni @
                 [\<lparr>fr_header = \<lparr>eth_dst = ETHERNET_BROADCAST, eth_src = ni_ethernet_address ni, eth_type = TYPE_ARP\<rparr>,
                   fr_payload = BufferList_of_string bs\<rparr>])))"
proof -
  let ?m = "ARPMessage_default\<lparr>arp_opcode := OPCODE_REQUEST, arp_sender_ethernet_address := ni_ethernet_address ni,
    arp_sender_ip_address := self, arp_target_ip_address := ip\<rparr>"
  have e: "length (ni_ethernet_address ni) = 6" using assms(1) by (simp add: ni_inv_def)
  have "ARPMessage_serialize ?m = Inr (arp_bytes ?m)" by (rule serialize_arp[OF request_valid[OF e]])
  moreover have "arp_opcode ?m = OPCODE_REQUEST" "arp_target_ip_address ?m = ip" "arp_sender_ip_address ?m = self"
    "arp_sender_ethernet_address ?m = ni_ethernet_address ni" by simp_all
  ultimately have req: "\<exists>m bs. ARPMessage_serialize m = Inr bs \<and> arp_opcode m = OPCODE_REQUEST \<and> arp_target_ip_address m = ip \<and>
      arp_sender_ip_address m = self \<and> arp_sender_ethernet_address m = ni_ethernet_address ni \<and>
      BufferList_of_string (arp_bytes ?m) = BufferList_of_string bs" by metis
  show ?thesis
  proof (cases "ni_arp_cache ni ip")
    case (Some en)
    then show ?thesis using assms(2) by (simp add: NetworkInterface_send_datagram_def serialize_dgram_bytes)
  next
    case None
    then show ?thesis
      using assms(3) serialize_arp[OF request_valid[OF e]] req
      by (cases "ni_frames_cannot_find_arp ni ip") (auto simp: NetworkInterface_send_datagram_def Let_def)
  qed
qed

theorem send_datagram_correct_witness:
  "\<exists>ni'. NetworkInterface_send_datagram (NetworkInterface_new [2, 0, 0, 0, 0, 1] (ipv4_address 7 0))
      (example_dgram 7 9 [1, 2, 3]) (ipv4_address 9 0) = Inr ni' \<and> length (ni_frames_out ni') = 1"
proof -
  have "ni_inv (NetworkInterface_new [2, 0, 0, 0, 0, 1] (ipv4_address 7 0))"
    by (auto simp: ni_inv_def NetworkInterface_new_def)
  from send_datagram_correct[OF this example_dgram_valid, of 7 0 7 9 9 0] show ?thesis
    by (auto simp: NetworkInterface_new_def)
qed


text \<open>A frame goes over the wire: it is serialized, and the bytes are parsed at the other end.\<close>

definition wire :: "ethernet_frame \<Rightarrow> ethernet_frame result" where
  "wire f = rbind (EthernetFrame_parse EthernetFrame_default (Buffer_of (BufferList_concatenate (EthernetFrame_serialize f))))
     (\<lambda>(f', r). Inr f')"

lemma wire_ok:
  assumes "eth_valid (fr_header f)" "bl_wf (fr_payload f)" "length (bl_bytes (fr_payload f)) < 2 ^ 32"
  shows "\<exists>b. wire f = Inr \<lparr>fr_header = fr_header f, fr_payload = [b]\<rparr> \<and> buffer_wf b \<and> Buffer_str b = bl_bytes (fr_payload f)"
  using frame_parses[OF assms, of EthernetFrame_default] by (auto simp: wire_def)

lemma dgram_bytes_wf:
  assumes "dgram_valid d"
  shows "bl_wf (dgram_bytes d)" "length (bl_bytes (dgram_bytes d)) < 65536"
proof -
  let ?h = "(dg_header d)\<lparr>ip_cksum := ipv4_checksum (dg_header d)\<rparr>"
  have "ipv4_header_valid ?h" using assms by (simp add: dgram_valid_def)
  from length_ipv4_header[OF this] have l: "length (ipv4_header_bytes ?h) = 4 * unat (ip_hlen (dg_header d))" by simp
  then show "length (bl_bytes (dgram_bytes d)) < 65536"
    using assms word_bounds(2)[of "ip_len (dg_header d)"] by (simp add: dgram_bytes_def dgram_valid_def)
  then show "bl_wf (dgram_bytes d)"
    using assms l by (auto simp: dgram_bytes_def dgram_valid_def bl_wf_def)
qed

text \<open>What each arrival in an address resolution does.\<close>

lemma request_arrives:
  assumes "ni_ip_address nb = ipv4_address ipb pb" "length (ni_ethernet_address nb) = 6" "length ea = 6" "buffer_wf b"
    and "Buffer_str b = arp_bytes (ARPMessage_default\<lparr>arp_opcode := OPCODE_REQUEST, arp_sender_ethernet_address := ea,
      arp_sender_ip_address := ipa, arp_target_ip_address := ipb\<rparr>)"
  shows "\<exists>nb'. NetworkInterface_recv_frame nb \<lparr>fr_header = \<lparr>eth_dst = ETHERNET_BROADCAST, eth_src = s, eth_type = TYPE_ARP\<rparr>,
      fr_payload = [b]\<rparr> = Inr (None, nb') \<and>
    ni_ethernet_address nb' = ni_ethernet_address nb \<and> ni_ip_address nb' = ni_ip_address nb \<and>
    ni_frames_cannot_find_arp nb' = ni_frames_cannot_find_arp nb \<and>
    ni_arp_cache nb' = (ni_arp_cache nb)(ipa \<mapsto> \<lparr>ae_eth_addr = ea, ae_ttl = ARP_CACHE_TTL\<rparr>) \<and>
    ni_frames_out nb' = ni_frames_out nb @ [\<lparr>fr_header = \<lparr>eth_dst = ea, eth_src = ni_ethernet_address nb, eth_type = TYPE_ARP\<rparr>,
      fr_payload = BufferList_of_string (arp_bytes (ARPMessage_default\<lparr>arp_opcode := OPCODE_REPLY,
        arp_sender_ethernet_address := ni_ethernet_address nb, arp_sender_ip_address := ipb,
        arp_target_ip_address := ipa, arp_target_ethernet_address := ea\<rparr>))\<rparr>]"
proof -
  have "ARPMessage_parse ARPMessage_default b = Inr (ARPMessage_default\<lparr>arp_opcode := OPCODE_REQUEST,
      arp_sender_ethernet_address := ea, arp_sender_ip_address := ipa, arp_target_ip_address := ipb\<rparr>, NoError)"
    by (rule parse_arp[OF request_valid[OF assms(3)] assms(4), where rest = "[]"]) (simp add: assms(5))
  then show ?thesis
    using assms(1) serialize_arp[OF reply_valid[OF assms(2,3)]]
    by (simp add: NetworkInterface_recv_frame_def ETHERNET_BROADCAST_def NetworkInterface_recv_arp_def Let_def)
qed

lemma reply_arrives:
  assumes "ni_ip_address na = ipv4_address ipa pa" "length (ni_ethernet_address na) = 6" "length eb = 6" "buffer_wf b"
    and "Buffer_str b = arp_bytes (ARPMessage_default\<lparr>arp_opcode := OPCODE_REPLY, arp_sender_ethernet_address := eb,
      arp_sender_ip_address := ipb, arp_target_ip_address := ipa, arp_target_ethernet_address := ni_ethernet_address na\<rparr>)"
    and w: "ni_frames_cannot_find_arp na ipb = Some (ds, t)" and v: "\<forall>d\<in>set ds. dgram_valid d"
  shows "\<exists>na'. NetworkInterface_recv_frame na \<lparr>fr_header = \<lparr>eth_dst = ni_ethernet_address na, eth_src = s, eth_type = TYPE_ARP\<rparr>,
      fr_payload = [b]\<rparr> = Inr (None, na') \<and>
    ni_ethernet_address na' = ni_ethernet_address na \<and> ni_ip_address na' = ni_ip_address na \<and>
    ni_arp_cache na' = (ni_arp_cache na)(ipb \<mapsto> \<lparr>ae_eth_addr = eb, ae_ttl = ARP_CACHE_TTL\<rparr>) \<and>
    ni_frames_cannot_find_arp na' = (ni_frames_cannot_find_arp na)(ipb := None) \<and>
    ni_frames_out na' = ni_frames_out na @ map (dgram_frame eb (ni_ethernet_address na)) ds"
proof -
  have "ARPMessage_parse ARPMessage_default b = Inr (ARPMessage_default\<lparr>arp_opcode := OPCODE_REPLY,
      arp_sender_ethernet_address := eb, arp_sender_ip_address := ipb, arp_target_ip_address := ipa,
      arp_target_ethernet_address := ni_ethernet_address na\<rparr>, NoError)"
    by (rule parse_arp[OF reply_valid[OF assms(3,2)] assms(4), where rest = "[]"]) (simp add: assms(5))
  then show ?thesis
    using assms(1) w flush_ok[OF v]
    by (simp add: NetworkInterface_recv_frame_def NetworkInterface_recv_arp_def Let_def)
qed

lemma dgram_arrives:
  assumes "dgram_valid d" "buffer_wf b" "Buffer_str b = bl_bytes (dgram_bytes d)"
  shows "\<exists>d'. NetworkInterface_recv_frame nb \<lparr>fr_header = \<lparr>eth_dst = ni_ethernet_address nb, eth_src = s, eth_type = TYPE_IPv4\<rparr>,
      fr_payload = [b]\<rparr> = Inr (Some d', nb) \<and>
    dg_header d' = (dg_header d)\<lparr>ip_cksum := ip_cksum (dg_header d')\<rparr> \<and> bl_bytes (dg_payload d') = bl_bytes (dg_payload d) \<and>
    dgram_valid d'"
proof -
  have "Buffer_str b = ipv4_header_bytes ((dg_header d)\<lparr>ip_cksum := ipv4_checksum (dg_header d)\<rparr>) @ bl_bytes (dg_payload d)"
    using assms(3) by (simp add: dgram_bytes_def)
  from dgram_parses[OF assms(1,2) this, of IPv4Datagram_default] show ?thesis
    using assms(1) by (auto simp: NetworkInterface_recv_frame_def dgram_valid_def bl_wf_of_Buffer[unfolded BufferList_of_Buffer_def])
qed




lemma ticks_none: "ni_arp_cache ni ip = None \<Longrightarrow> ni_arp_cache (foldl NetworkInterface_tick ni mss) ip = None"
  by (induction mss arbitrary: ni) (simp_all add: NetworkInterface_tick_def)

text \<open>However time is cut into ticks, a cache entry is used until its lifetime has passed, and from
  then on it is gone.\<close>

theorem arp_cache_expires:
  assumes "ni_inv ni" and "ni_arp_cache ni ip = Some e" and "\<forall>ms\<in>set mss. ms < 2 ^ 31"
  shows "ni_arp_cache (foldl NetworkInterface_tick ni mss) ip =
    (if int (sum_list mss) < ae_ttl e then Some (e\<lparr>ae_ttl := ae_ttl e - int (sum_list mss)\<rparr>) else None)"
  using assms
proof (induction mss arbitrary: ni e)
  case Nil
  then have "0 < ae_ttl e" by (auto simp: ni_inv_def)
  then show ?case using Nil by simp
next
  case (Cons ms mss)
  have ms: "ms < 2 ^ 31" using Cons.prems(3) by simp
  note t = tick_cache[OF Cons.prems(1) ms, of ip]
  show ?case
  proof (cases "ae_ttl e \<le> int ms")
    case True
    then have "ni_arp_cache (NetworkInterface_tick ni ms) ip = None" using t Cons.prems(2) by simp
    then show ?thesis using ticks_none True by simp
  next
    case False
    then have "ni_arp_cache (NetworkInterface_tick ni ms) ip = Some (e\<lparr>ae_ttl := ae_ttl e - int ms\<rparr>)" using t Cons.prems(2) by simp
    from Cons.IH[OF ni_tick_inv[OF Cons.prems(1) ms] this] Cons.prems(3) False show ?thesis
      by (simp add: algebra_simps)
  qed
qed

theorem arp_cache_expires_witness:
  "ni_arp_cache (foldl NetworkInterface_tick ((NetworkInterface_new [2, 0, 0, 0, 0, 1] (ipv4_address 7 0))
      \<lparr>ni_arp_cache := [9 \<mapsto> \<lparr>ae_eth_addr = [2, 0, 0, 0, 0, 2], ae_ttl = 30000\<rparr>]\<rparr>) [29000, 1000]) 9 = None"
proof -
  let ?e = "\<lparr>ae_eth_addr = [2, 0, 0, 0, 0, 2], ae_ttl = 30000\<rparr>"
  let ?ni = "(NetworkInterface_new [2, 0, 0, 0, 0, 1] (ipv4_address 7 0))\<lparr>ni_arp_cache := [9 \<mapsto> ?e]\<rparr>"
  have "ni_inv ?ni" unfolding ni_inv_def by (auto simp: NetworkInterface_new_def ARP_CACHE_TTL_def split: if_splits)
  from arp_cache_expires[OF this, of 9 ?e "[29000, 1000]"] show ?thesis by simp
qed

section \<open>Observations\<close>

text \<open>A reply that nobody asked for dereferences the \<open>end\<close> iterator.\<close>

lemma unsolicited_reply_undefined:
  assumes "ni_ip_address ni = ipv4_address ip p" "arp_opcode m = OPCODE_REPLY" "arp_target_ip_address m = ip"
    "ni_frames_cannot_find_arp ni (arp_sender_ip_address m) = None"
  shows "\<exists>e. NetworkInterface_recv_arp ni m = Inl (Undefined_behaviour e)"
  using assms by (simp add: NetworkInterface_recv_arp_def Let_def)

text \<open>A datagram that does not parse is handed up all the same: here nine bytes that are no datagram.\<close>

lemma unparsable_datagram_returned:
  assumes "eth_dst (fr_header f) = ni_ethernet_address ni" "eth_type (fr_header f) = TYPE_IPv4"
    "fr_payload f = [Buffer_of (replicate 9 0)]"
  shows "\<exists>d. NetworkInterface_recv_frame ni f = Inr (Some d, ni) \<and>
    IPv4Datagram_parse IPv4Datagram_default (Buffer_of (replicate 9 0)) = Inr (d, PacketTooShort)"
proof -
  have "IPv4Datagram_parse IPv4Datagram_default (Buffer_of (replicate 9 0)) =
      Inr (\<lparr>dg_header = IPv4Header_default, dg_payload = [Buffer_of (replicate 9 0)]\<rparr>, PacketTooShort)"
    by (simp add: IPv4Datagram_parse_def IPv4Header_parse_def IPv4Header_LENGTH_def Buffer_size_def NetParser_new_def Let_def
        IPv4Datagram_default_def BufferList_of_Buffer_def IPv4Header_payload_length_def IPv4Header_default_def BufferList_size_def
        add64_def)
  then show ?thesis using assms by (simp add: NetworkInterface_recv_frame_def)
qed

end
