(* ===== verification/File_Descriptor.thy ===== *)
theory File_Descriptor
  imports TCP_Segment Net_Address
begin

text \<open>
  File descriptors (\<open>libsponge/util/file_descriptor.hh\<close>, \<open>.cc\<close>), the error check \<open>SystemCall\<close> of
  \<open>libsponge/util/util.cc\<close>.  What the kernel
  answers to a system call is an argument: the value returned with \<open>errno\<close>, and the data it fills in;
  for \<open>read\<close> and \<open>write\<close> the kernel is a function on a state \<open>'k\<close> of its own.  A
  \<open>FileDescriptor\<close> shares its \<open>FDWrapper\<close> with its duplicates; the record here is that wrapper, and
  the theory of the event loop keeps wrappers in a store so that duplicates see each other's changes.
\<close>

section \<open>SystemCall\<close>

text \<open>The value a call returns, and \<open>errno\<close> after it.  \<open>SystemCall\<close> takes the value as an \<open>int\<close>.\<close>

type_synonym sys_ret = "int \<times> int"

definition SystemCall :: "string \<Rightarrow> sys_ret \<Rightarrow> int \<Rightarrow> int result" where
  "SystemCall attempt sr errno_mask =
     (let return_value = to_int32 (fst sr)
      in if return_value \<ge> 0 \<or> snd sr = errno_mask then Inr return_value
         else Inl (Unix_error attempt (snd sr)))"

section \<open>FileDescriptor\<close>

record fd_wrapper =
  fd_num :: int
  fd_eof :: bool
  fd_closed :: bool
  fd_read_count :: u32
  fd_write_count :: u32

definition int_string :: "int \<Rightarrow> string" where
  "int_string i = (if i < 0 then ''-'' @ dec_string (nat (- i)) else dec_string (nat i))"

definition FDWrapper_new :: "int \<Rightarrow> fd_wrapper result" where
  "FDWrapper_new fd =
     (if fd < 0 then Inl (Runtime_error (''invalid fd number:'' @ int_string fd))
      else Inr \<lparr>fd_num = fd, fd_eof = False, fd_closed = False, fd_read_count = 0, fd_write_count = 0\<rparr>)"

definition FDWrapper_close :: "fd_wrapper \<Rightarrow> sys_ret \<Rightarrow> fd_wrapper result" where
  "FDWrapper_close w sr =
     rbind (SystemCall ''close'' sr 0) (\<lambda>_. Inr (w\<lparr>fd_eof := True, fd_closed := True\<rparr>))"

text \<open>The destructor closes unless that was done, and swallows the exception.\<close>

definition FDWrapper_destroy :: "fd_wrapper \<Rightarrow> sys_ret \<Rightarrow> fd_wrapper" where
  "FDWrapper_destroy w sr =
     (if fd_closed w then w
      else case FDWrapper_close w sr of Inl _ \<Rightarrow> w | Inr w' \<Rightarrow> w')"

definition register_read :: "fd_wrapper \<Rightarrow> fd_wrapper" where
  "register_read w = w\<lparr>fd_read_count := fd_read_count w + 1\<rparr>"

definition register_write :: "fd_wrapper \<Rightarrow> fd_wrapper" where
  "register_write w = w\<lparr>fd_write_count := fd_write_count w + 1\<rparr>"

text \<open>
  \<open>read\<close>: the kernel is asked for at most the given number of bytes and leaves the buffer of that size
  with the bytes read at its front.  Resizing to a negative length is a length error.
\<close>

definition BUFFER_SIZE :: u64 where
  "BUFFER_SIZE = 1024 * 1024"

definition FileDescriptor_read ::
  "('k \<Rightarrow> u64 \<Rightarrow> (sys_ret \<times> byte list) \<times> 'k) \<Rightarrow> fd_wrapper \<Rightarrow> u64 \<Rightarrow> 'k \<Rightarrow> (byte list \<times> fd_wrapper \<times> 'k) result" where
  "FileDescriptor_read sys_read w limit k =
     (let size_to_read = min BUFFER_SIZE limit;
          ((sr, str), k) = sys_read k size_to_read
      in rbind (SystemCall ''read'' sr 0) (\<lambda>bytes_read.
         let w = (if limit > 0 \<and> bytes_read = 0 then w\<lparr>fd_eof := True\<rparr> else w)
         in if bytes_read > int size_to_read then Inl (Runtime_error ''read() read more than requested'')
            else if bytes_read < 0 then Inl (Length_error ''basic_string::resize'')
            else Inr (string_resize str (nat bytes_read), register_read w, k)))"

text \<open>The limit that \<open>read\<close> has when none is given.\<close>

definition SIZE_MAX :: u64 where
  "SIZE_MAX = two64 - 1"

lemma BufferViewList_remove_prefix_length:
  "BufferViewList_remove_prefix vs n = Inr vs' \<Longrightarrow> n < two64 \<Longrightarrow>
   concat vs' = drop n (concat vs) \<and> n + length (concat vs') = length (concat vs)"
proof (induction vs n arbitrary: vs' rule: BufferViewList_remove_prefix.induct)
  case (2 v vs n)
  show ?case
  proof (cases "n = 0 \<or> n < length v")
    case True then show ?thesis using 2(2) by (auto split: if_splits)
  next
    case False
    then have s: "sub64 n (length v) = n - length v" using 2(3) by (simp add: sub64_exact)
    have "BufferViewList_remove_prefix vs (n - length v) = Inr vs'" using 2(2) False by (simp add: s)
    moreover have "n - length v < two64" using 2(3) by linarith
    ultimately have "concat vs' = drop (n - length v) (concat vs)"
      "n - length v + length (concat vs') = length (concat vs)" using 2(1)[of vs'] False by (auto simp: s)
    then show ?thesis using False by (simp del: length_concat)
  qed
qed (auto split: if_splits)

text \<open>
  \<open>write\<close>: one \<open>writev\<close> per turn of the loop, on what is left of the buffers.  Every turn that is
  followed by another one has removed at least one byte, so the loop ends whatever the kernel answers.
\<close>

function FileDescriptor_write_loop ::
  "('k \<Rightarrow> byte list list \<Rightarrow> sys_ret \<times> 'k) \<Rightarrow> bool \<Rightarrow> fd_wrapper \<Rightarrow> 'k \<Rightarrow> buffer_view_list \<Rightarrow> u64 \<Rightarrow>
   (u64 \<times> fd_wrapper \<times> 'k) result" where
  "FileDescriptor_write_loop writev write_all w k buffer total_bytes_written =
     (let (sr, k) = writev k (BufferViewList_as_iovecs buffer)
      in rbind (SystemCall ''writev'' sr 0) (\<lambda>bytes_written.
         if bytes_written = 0 \<and> BufferViewList_size buffer \<noteq> 0
           then Inl (Runtime_error ''write returned 0 given non-empty input buffer'')
         else if bytes_written > to_int64 (int (BufferViewList_size buffer))
           then Inl (Runtime_error ''write wrote more than length of input buffer'')
         else let w = register_write w
           in rbind (BufferViewList_remove_prefix buffer (to_size_t bytes_written)) (\<lambda>buffer'.
              let total_bytes_written = add64 total_bytes_written (to_size_t bytes_written)
              in if write_all \<and> BufferViewList_size buffer' \<noteq> 0
                 then FileDescriptor_write_loop writev write_all w k buffer' total_bytes_written
                 else Inr (total_bytes_written, w, k))))"
  by pat_completeness auto

lemma size_nonzero_decreases:
  assumes "BufferViewList_remove_prefix vs (to_size_t n) = Inr vs'" "BufferViewList_size vs' \<noteq> 0"
    "\<not> (n = 0 \<and> BufferViewList_size vs \<noteq> 0)" "- (2 ^ 31) \<le> n" "n < 2 ^ 31"
  shows "length (concat vs') < length (concat vs)"
proof -
  have "n \<noteq> 0"
  proof
    assume "n = 0"
    then have "vs' = vs" using assms(1) by (cases vs) (simp_all add: to_size_t_def)
    then show False using assms(2,3) \<open>n = 0\<close> by simp
  qed
  moreover have "n mod 18446744073709551616 = (n + 18446744073709551616) mod 18446744073709551616" by simp
  moreover have "n < 0 \<Longrightarrow> (n + 18446744073709551616) mod 18446744073709551616 = n + 18446744073709551616"
    using assms(4) by (intro mod_pos_pos_trivial) simp_all
  ultimately have "0 < to_size_t n"
    using assms(4,5) by (cases "0 < n") (simp_all add: to_size_t_def)
  then show ?thesis using BufferViewList_remove_prefix_length[OF assms(1) to_size_t_bound] by linarith
qed

lemma to_int32_bounds: "- (2 ^ 31) \<le> to_int32 i" "to_int32 i < 2 ^ 31"
  using signed_take_bit_int_greater_eq_minus_exp[of 31 i] signed_take_bit_int_less_exp[of 31 i]
  by (simp_all add: to_int32_def)

lemma SystemCall_Inr: "SystemCall attempt sr m = Inr n \<Longrightarrow> n = to_int32 (fst sr)"
  by (simp add: SystemCall_def Let_def split: if_splits)

termination FileDescriptor_write_loop
proof (relation "measure (\<lambda>(writev, write_all, w, k, buffer, total). length (concat buffer))")
qed (auto simp: not_less intro!: size_nonzero_decreases dest!: SystemCall_Inr simp: to_int32_bounds[simplified])

declare FileDescriptor_write_loop.simps [simp del]

definition FileDescriptor_write ::
  "('k \<Rightarrow> byte list list \<Rightarrow> sys_ret \<times> 'k) \<Rightarrow> fd_wrapper \<Rightarrow> 'k \<Rightarrow> buffer_view_list \<Rightarrow> bool \<Rightarrow>
   (u64 \<times> fd_wrapper \<times> 'k) result" where
  "FileDescriptor_write writev w k buffer write_all = FileDescriptor_write_loop writev write_all w k buffer 0"

text \<open>\<open>set_blocking\<close>: the flags that are set again, from the ones the kernel reports.\<close>

definition O_NONBLOCK :: u32 where
  "O_NONBLOCK = 0x800"

definition blocking_flags :: "bool \<Rightarrow> u32 \<Rightarrow> u32" where
  "blocking_flags blocking_state flags =
     (if blocking_state then xor flags (and flags O_NONBLOCK) else or flags O_NONBLOCK)"

definition FileDescriptor_set_blocking :: "bool \<Rightarrow> sys_ret \<Rightarrow> (u32 \<Rightarrow> sys_ret) \<Rightarrow> u32 result" where
  "FileDescriptor_set_blocking blocking_state getfl setfl =
     rbind (SystemCall ''fcntl'' getfl 0) (\<lambda>flags.
       let flags = blocking_flags blocking_state (word_of_int flags)
       in rbind (SystemCall ''fcntl'' (setfl flags) 0) (\<lambda>_. Inr flags))"

section \<open>Lemmas\<close>

text \<open>
  What \<open>writev\<close> promises for a descriptor that accepts data: it takes a non-empty prefix of the bytes
  given, and reports its length, which Linux keeps below \<open>2 ^ 31\<close>.  \<open>accepted\<close> is all that the kernel has
  taken so far.
\<close>

definition takes_prefix :: "('k \<Rightarrow> byte list list \<Rightarrow> sys_ret \<times> 'k) \<Rightarrow> ('k \<Rightarrow> byte list) \<Rightarrow> bool" where
  "takes_prefix writev accepted \<longleftrightarrow>
     (\<forall>k iov. case writev k iov of ((n, errno), k') \<Rightarrow>
        0 \<le> n \<and> n < 2 ^ 31 \<and> n \<le> int (length (concat iov)) \<and> (concat iov \<noteq> [] \<longrightarrow> 0 < n) \<and>
        accepted k' = accepted k @ take (nat n) (concat iov))"

lemma takes_prefixD:
  assumes "takes_prefix writev accepted" "writev k iov = ((n, errno), k')"
  shows "0 \<le> n" "n < 2 ^ 31" "n \<le> int (length (concat iov))" "concat iov \<noteq> [] \<Longrightarrow> 0 < n"
    "accepted k' = accepted k @ take (nat n) (concat iov)"
  using assms(1)[unfolded takes_prefix_def, THEN spec[of _ k], THEN spec[of _ iov]] assms(2) by simp_all

lemma write_loop_ok:
  assumes k: "takes_prefix writev accepted"
  shows "sofar + length (concat buffer) < 2 ^ 63 \<Longrightarrow>
    \<exists>n w' k'. FileDescriptor_write_loop writev write_all w k buffer sofar = Inr (sofar + n, w', k') \<and>
      n \<le> length (concat buffer) \<and> (concat buffer \<noteq> [] \<longrightarrow> 0 < n) \<and> (write_all \<longrightarrow> n = length (concat buffer)) \<and>
      accepted k' = accepted k @ take n (concat buffer) \<and>
      fd_num w' = fd_num w \<and> fd_eof w' = fd_eof w \<and> fd_closed w' = fd_closed w"
proof (induction "length (concat buffer)" arbitrary: w k buffer sofar rule: less_induct)
  case less
  let ?c = "concat buffer"
  obtain n errno k1 where wr: "writev k (BufferViewList_as_iovecs buffer) = ((n, errno), k1)" by (metis prod.exhaust)
  have iov: "concat (BufferViewList_as_iovecs buffer) = ?c" by (simp add: BufferViewList_as_iovecs_def)
  note d = takes_prefixD[OF k wr, unfolded iov]
  have sz: "BufferViewList_size buffer = length ?c" using less.prems by (intro view_size) simp
  have sc: "SystemCall ''writev'' (n, errno) 0 = Inr n" using d(1,2) by (simp add: SystemCall_def to_int32_small)
  have nat: "to_size_t n = nat n" using d(1,2) by (simp add: to_size_t_nat)
  have big: "\<not> n > to_int64 (int (length ?c))" using less.prems d(3) by (simp add: to_int64_small del: length_concat)
  have nz: "\<not> (n = 0 \<and> length ?c \<noteq> 0)" using d(4) by auto
  have le: "nat n \<le> length ?c" using d(3) by linarith
  from BufferViewList_remove_prefix_Inr[OF le] less.prems obtain b' where
    b': "BufferViewList_remove_prefix buffer (nat n) = Inr b'" "concat b' = drop (nat n) ?c" by auto
  have sz': "BufferViewList_size b' = length ?c - nat n" using less.prems b'(2) by (subst view_size) simp_all
  have tot: "add64 sofar (nat n) = sofar + nat n" using less.prems le by (simp add: add64_exact)
  have eq: "FileDescriptor_write_loop writev write_all w k buffer sofar =
      (if write_all \<and> length ?c - nat n \<noteq> 0
       then FileDescriptor_write_loop writev write_all (register_write w) k1 b' (sofar + nat n)
       else Inr (sofar + nat n, register_write w, k1))"
    using wr sc nz big nat sz b' sz' tot
    by (subst FileDescriptor_write_loop.simps) (simp add: Let_def del: length_concat)
  have rw: "fd_num (register_write w) = fd_num w" "fd_eof (register_write w) = fd_eof w"
    "fd_closed (register_write w) = fd_closed w" by (simp_all add: register_write_def)
  show ?case
  proof (cases "write_all \<and> length ?c - nat n \<noteq> 0")
    case True
    then have lt: "length (concat b') < length ?c" using b'(2) d(4) le by (cases "?c = []") auto
    have "sofar + nat n + length (concat b') < 2 ^ 63" using less.prems b'(2) le by simp
    note ih = less.hyps[OF lt this, of "register_write w" k1, unfolded rw]
    from ih obtain m w' k' where m:
      "FileDescriptor_write_loop writev write_all (register_write w) k1 b' (sofar + nat n) = Inr (sofar + nat n + m, w', k')"
      "m \<le> length (concat b')" "write_all \<longrightarrow> m = length (concat b')" "accepted k' = accepted k1 @ take m (concat b')"
      "fd_num w' = fd_num w" "fd_eof w' = fd_eof w" "fd_closed w' = fd_closed w"
      by blast
    have "m = length ?c - nat n" using m(3) True b'(2) by simp
    then show ?thesis using True m eq d(5) b'(2) le
      by (intro exI[of _ "length ?c"]) (auto simp: take_all_iff)
  next
    case False
    then show ?thesis using eq d(4,5) le by (intro exI[of _ "nat n"]) (auto simp: register_write_def)
  qed
qed

lemma blocking_flags_bits:
  "bit (blocking_flags b flags) i = (if i = 11 then \<not> b else bit flags i)"
proof -
  have o: "bit O_NONBLOCK i \<longleftrightarrow> i = 11" for i
    using bit_push_bit_iff[of 11 "1 :: u32" i] by (auto simp: O_NONBLOCK_def bit_1_iff)
  show ?thesis by (auto simp: blocking_flags_def o bit_simps)
qed

section \<open>Properties\<close>

text \<open>C27: on a descriptor whose \<open>writev\<close> takes some prefix of what it is given, \<open>write\<close> returns, and the kernel
  has received exactly the first bytes of the buffers, as many as are reported; with \<open>write_all\<close> that
  is all of them, whatever the sizes of the partial writes.\<close>

theorem write_all_writes_everything:
  assumes "takes_prefix writev accepted" and "length (concat buffer) < 2 ^ 63"
  shows "\<exists>n w' k'. FileDescriptor_write writev w k buffer write_all = Inr (n, w', k') \<and>
    n \<le> length (concat buffer) \<and> (write_all \<longrightarrow> n = length (concat buffer)) \<and>
    accepted k' = accepted k @ take n (concat buffer)"
  using write_loop_ok[OF assms(1), of 0 buffer write_all w k] assms(2)
  by (fastforce simp: FileDescriptor_write_def)

text \<open>A kernel that takes at most three bytes at a time.\<close>

definition slow_writev :: "byte list \<Rightarrow> byte list list \<Rightarrow> sys_ret \<times> byte list" where
  "slow_writev k iov = ((int (min 3 (length (concat iov))), 0), k @ take 3 (concat iov))"

lemma slow_takes_prefix: "takes_prefix slow_writev (\<lambda>k. k)"
  by (auto simp: takes_prefix_def slow_writev_def min_def simp del: length_concat)

theorem write_all_writes_everything_witness:
  "\<exists>w' k'. FileDescriptor_write slow_writev \<lparr>fd_num = 3, fd_eof = False, fd_closed = False, fd_read_count = 0,
       fd_write_count = 0\<rparr> [9] [[1, 2], [3, 4, 5]] True = Inr (5, w', k') \<and> k' = [9, 1, 2, 3, 4, 5]"
proof -
  have l: "length (concat [[1, 2], [3, 4, 5 :: byte]]) < 2 ^ 63" by simp
  from write_all_writes_everything[OF slow_takes_prefix l,
    of "\<lparr>fd_num = 3, fd_eof = False, fd_closed = False, fd_read_count = 0, fd_write_count = 0\<rparr>" "[9]" True]
  show ?thesis by (auto simp: numeral_eq_Suc)
qed

end
