(* ===== verification/Sockets.thy ===== *)
theory Sockets
  imports File_Descriptor
begin

text \<open>
  Sockets (\<open>libsponge/util/socket.hh\<close>, \<open>.cc\<close>) and TUN/TAP devices (\<open>libsponge/util/tun.hh\<close>, \<open>.cc\<close>).  As for
  file descriptors, the kernel's answer to each system call is an argument; where the code passes data
  to the kernel, the answer is a function of that data.
\<close>

section \<open>Socket\<close>

definition SOCK_STREAM :: int where
  "SOCK_STREAM = 1"

definition SOCK_DGRAM :: int where
  "SOCK_DGRAM = 2"

definition SHUT_RD :: int where
  "SHUT_RD = 0"

definition SHUT_WR :: int where
  "SHUT_WR = 1"

definition SHUT_RDWR :: int where
  "SHUT_RDWR = 2"

definition sizeof_int :: nat where
  "sizeof_int = 4"

definition Socket_new :: "(int \<Rightarrow> int \<Rightarrow> sys_ret) \<Rightarrow> int \<Rightarrow> int \<Rightarrow> fd_wrapper result" where
  "Socket_new socket domain type = rbind (SystemCall ''socket'' (socket domain type) 0) FDWrapper_new"

text \<open>\<open>getsockopt\<close> answers with the value it stores and the length of it.\<close>

definition Socket_check ::
  "string \<Rightarrow> sys_ret \<times> int \<times> nat \<Rightarrow> int \<Rightarrow> unit result" where
  "Socket_check what answer expected =
     (case answer of (sr, actual_value, len) \<Rightarrow>
        rbind (SystemCall ''getsockopt'' sr 0) (\<lambda>_.
          if len \<noteq> sizeof_int \<or> actual_value \<noteq> expected then Inl (Runtime_error (''socket '' @ what @ '' mismatch''))
          else Inr ()))"

definition Socket_of_fd ::
  "fd_wrapper \<Rightarrow> int \<Rightarrow> int \<Rightarrow> sys_ret \<times> int \<times> nat \<Rightarrow> sys_ret \<times> int \<times> nat \<Rightarrow> fd_wrapper result" where
  "Socket_of_fd fd domain type so_domain so_type =
     rbind (Socket_check ''domain'' so_domain domain) (\<lambda>_.
     rbind (Socket_check ''type'' so_type type) (\<lambda>_. Inr fd))"

definition Socket_get_address :: "string \<Rightarrow> sys_ret \<times> address \<times> nat \<Rightarrow> address result" where
  "Socket_get_address name_of_function answer =
     (case answer of (sr, raw, len) \<Rightarrow>
        rbind (SystemCall name_of_function sr 0) (\<lambda>_. Address_of_sockaddr raw len))"

definition Socket_local_address :: "sys_ret \<times> address \<times> nat \<Rightarrow> address result" where
  "Socket_local_address getsockname = Socket_get_address ''getsockname'' getsockname"

definition Socket_peer_address :: "sys_ret \<times> address \<times> nat \<Rightarrow> address result" where
  "Socket_peer_address getpeername = Socket_get_address ''getpeername'' getpeername"

definition Socket_bind :: "fd_wrapper \<Rightarrow> address \<Rightarrow> (int \<Rightarrow> address \<Rightarrow> sys_ret) \<Rightarrow> fd_wrapper result" where
  "Socket_bind w address sys_bind = rbind (SystemCall ''bind'' (sys_bind (fd_num w) address) 0) (\<lambda>_. Inr w)"

definition Socket_connect :: "fd_wrapper \<Rightarrow> address \<Rightarrow> (int \<Rightarrow> address \<Rightarrow> sys_ret) \<Rightarrow> fd_wrapper result" where
  "Socket_connect w address sys_connect = rbind (SystemCall ''connect'' (sys_connect (fd_num w) address) 0) (\<lambda>_. Inr w)"

definition Socket_shutdown :: "fd_wrapper \<Rightarrow> int \<Rightarrow> (int \<Rightarrow> int \<Rightarrow> sys_ret) \<Rightarrow> fd_wrapper result" where
  "Socket_shutdown w how sys_shutdown =
     rbind (SystemCall ''shutdown'' (sys_shutdown (fd_num w) how) 0) (\<lambda>_.
       if how = SHUT_RD then Inr (register_read w)
       else if how = SHUT_WR then Inr (register_write w)
       else if how = SHUT_RDWR then Inr (register_write (register_read w))
       else Inl (Runtime_error ''Socket::shutdown() called with invalid `how`''))"

section \<open>UDPSocket\<close>

record received_datagram =
  rd_source_address :: address
  rd_payload :: "byte list"

text \<open>
  \<open>recvfrom\<close> is asked for up to \<open>mtu\<close> bytes with \<open>MSG_TRUNC\<close>, so it returns the real length of the datagram;
  it leaves the payload buffer of \<open>mtu\<close> bytes, the source address and its length.
\<close>

definition UDPSocket_recv ::
  "('k \<Rightarrow> u64 \<Rightarrow> (sys_ret \<times> byte list \<times> address \<times> nat) \<times> 'k) \<Rightarrow> fd_wrapper \<Rightarrow> u64 \<Rightarrow> 'k \<Rightarrow>
   (received_datagram \<times> fd_wrapper \<times> 'k) result" where
  "UDPSocket_recv recvfrom w mtu k =
     (case recvfrom k mtu of ((sr, payload, datagram_source_address, fromlen), k) \<Rightarrow>
        rbind (SystemCall ''recvfrom'' sr 0) (\<lambda>recv_len.
          if recv_len > to_int64 (int mtu) then Inl (Runtime_error ''recvfrom (oversized datagram)'')
          else rbind (Address_of_sockaddr datagram_source_address fromlen) (\<lambda>source_address.
               if recv_len < 0 then Inl (Length_error ''basic_string::resize'')
               else Inr (\<lparr>rd_source_address = source_address, rd_payload = string_resize payload (nat recv_len)\<rparr>,
                         register_read w, k))))"

text \<open>The receive length that the adapters use.\<close>

definition UDP_MTU :: u64 where
  "UDP_MTU = 65536"

definition sendmsg_helper ::
  "('k \<Rightarrow> int \<Rightarrow> address option \<Rightarrow> byte list list \<Rightarrow> sys_ret \<times> 'k) \<Rightarrow> int \<Rightarrow> address option \<Rightarrow> buffer_view_list \<Rightarrow>
   'k \<Rightarrow> 'k result" where
  "sendmsg_helper sendmsg fd destination_address payload k =
     (let (sr, k) = sendmsg k fd destination_address (BufferViewList_as_iovecs payload)
      in rbind (SystemCall ''sendmsg'' sr 0) (\<lambda>bytes_sent.
         if to_size_t bytes_sent \<noteq> BufferViewList_size payload
         then Inl (Runtime_error ''datagram payload too big for sendmsg()'') else Inr k))"

definition UDPSocket_sendto ::
  "('k \<Rightarrow> int \<Rightarrow> address option \<Rightarrow> byte list list \<Rightarrow> sys_ret \<times> 'k) \<Rightarrow> fd_wrapper \<Rightarrow> address \<Rightarrow> buffer_view_list \<Rightarrow>
   'k \<Rightarrow> (fd_wrapper \<times> 'k) result" where
  "UDPSocket_sendto sendmsg w destination payload k =
     rbind (sendmsg_helper sendmsg (fd_num w) (Some destination) payload k) (\<lambda>k. Inr (register_write w, k))"

definition UDPSocket_send ::
  "('k \<Rightarrow> int \<Rightarrow> address option \<Rightarrow> byte list list \<Rightarrow> sys_ret \<times> 'k) \<Rightarrow> fd_wrapper \<Rightarrow> buffer_view_list \<Rightarrow>
   'k \<Rightarrow> (fd_wrapper \<times> 'k) result" where
  "UDPSocket_send sendmsg w payload k =
     rbind (sendmsg_helper sendmsg (fd_num w) None payload k) (\<lambda>k. Inr (register_write w, k))"

section \<open>TCPSocket\<close>

definition TCPSocket_listen :: "fd_wrapper \<Rightarrow> int \<Rightarrow> (int \<Rightarrow> int \<Rightarrow> sys_ret) \<Rightarrow> fd_wrapper result" where
  "TCPSocket_listen w backlog sys_listen = rbind (SystemCall ''listen'' (sys_listen (fd_num w) backlog) 0) (\<lambda>_. Inr w)"

text \<open>\<open>accept\<close> gives the new socket and the old one with its read counted.\<close>

definition TCPSocket_accept ::
  "fd_wrapper \<Rightarrow> (int \<Rightarrow> sys_ret) \<Rightarrow> sys_ret \<times> int \<times> nat \<Rightarrow> sys_ret \<times> int \<times> nat \<Rightarrow> (fd_wrapper \<times> fd_wrapper) result" where
  "TCPSocket_accept w sys_accept so_domain so_type =
     (let w = register_read w
      in rbind (SystemCall ''accept'' (sys_accept (fd_num w)) 0) (\<lambda>n.
         rbind (FDWrapper_new n) (\<lambda>fd.
         rbind (Socket_of_fd fd (int AF_INET) SOCK_STREAM so_domain so_type) (\<lambda>s. Inr (s, w)))))"

definition SOL_SOCKET :: int where
  "SOL_SOCKET = 1"

definition SO_REUSEADDR :: int where
  "SO_REUSEADDR = 2"

definition Socket_setsockopt ::
  "fd_wrapper \<Rightarrow> int \<Rightarrow> int \<Rightarrow> 'o \<Rightarrow> (int \<Rightarrow> int \<Rightarrow> int \<Rightarrow> 'o \<Rightarrow> sys_ret) \<Rightarrow> fd_wrapper result" where
  "Socket_setsockopt w level option option_value sys_setsockopt =
     rbind (SystemCall ''setsockopt'' (sys_setsockopt (fd_num w) level option option_value) 0) (\<lambda>_. Inr w)"

definition Socket_set_reuseaddr :: "fd_wrapper \<Rightarrow> (int \<Rightarrow> int \<Rightarrow> int \<Rightarrow> int \<Rightarrow> sys_ret) \<Rightarrow> fd_wrapper result" where
  "Socket_set_reuseaddr w sys_setsockopt = Socket_setsockopt w SOL_SOCKET SO_REUSEADDR 1 sys_setsockopt"

section \<open>TunTapFD\<close>

definition CLONEDEV :: string where
  "CLONEDEV = ''/dev/net/tun''"

definition IFNAMSIZ :: nat where
  "IFNAMSIZ = 16"

definition IFF_TUN :: u16 where
  "IFF_TUN = 0x0001"

definition IFF_TAP :: u16 where
  "IFF_TAP = 0x0002"

definition IFF_NO_PI :: u16 where
  "IFF_NO_PI = 0x1000"

record ifreq =
  ifr_flags :: u16
  ifr_name :: string

text \<open>\<open>strncpy\<close> into the zeroed name field: at most the size less one, up to the first zero, and zeros after it.\<close>

definition ifr_name_of :: "string \<Rightarrow> string" where
  "ifr_name_of devname =
     (let s = takeWhile (\<lambda>c. c \<noteq> char_of (0::nat)) (take (IFNAMSIZ - 1) devname)
      in s @ replicate (IFNAMSIZ - length s) (char_of (0::nat)))"

definition TunTapFD_new ::
  "(string \<Rightarrow> sys_ret) \<Rightarrow> (int \<Rightarrow> ifreq \<Rightarrow> sys_ret) \<Rightarrow> string \<Rightarrow> bool \<Rightarrow> fd_wrapper result" where
  "TunTapFD_new sys_open ioctl devname is_tun =
     rbind (SystemCall ''open'' (sys_open CLONEDEV) 0) (\<lambda>n.
     rbind (FDWrapper_new n) (\<lambda>w.
       let tun_req = \<lparr>ifr_flags = or (if is_tun then IFF_TUN else IFF_TAP) IFF_NO_PI, ifr_name = ifr_name_of devname\<rparr>
       in rbind (SystemCall ''ioctl'' (ioctl (fd_num w) tun_req) 0) (\<lambda>_. Inr w)))"

definition TunFD_new :: "(string \<Rightarrow> sys_ret) \<Rightarrow> (int \<Rightarrow> ifreq \<Rightarrow> sys_ret) \<Rightarrow> string \<Rightarrow> fd_wrapper result" where
  "TunFD_new sys_open ioctl devname = TunTapFD_new sys_open ioctl devname True"

definition TapFD_new :: "(string \<Rightarrow> sys_ret) \<Rightarrow> (int \<Rightarrow> ifreq \<Rightarrow> sys_ret) \<Rightarrow> string \<Rightarrow> fd_wrapper result" where
  "TapFD_new sys_open ioctl devname = TunTapFD_new sys_open ioctl devname False"

end
