(* ===== verification/Adapters.thy ===== *)
theory Adapters
  imports Network_Interface Sockets
begin

text \<open>
  The datagram adapters between a TCP connection and a device: the base class and its configuration
  (\<open>tcp_helpers/fd_adapter.hh\<close>, \<open>tcp_config.hh\<close>), TCP in UDP (\<open>fd_adapter.cc\<close>), TCP in IPv4
  (\<open>tcp_over_ip.cc\<close>), IPv4 over a TUN device and over Ethernet on a TAP device (\<open>tuntap_adapter.hh\<close>, \<open>.cc\<close>),
  and the adapter that drops at random (\<open>lossy_fd_adapter.hh\<close>).  An adapter is a state; \<open>read\<close> and \<open>write\<close>
  take the kernel's answers, or the kernel itself with its state, as arguments.  The contract that the
  adapters share is the locale \<open>datagram_adapter\<close>.
\<close>

section \<open>FdAdapterConfig and FdAdapterBase\<close>

record fd_adapter_config =
  cfg_source :: address
  cfg_destination :: address
  cfg_loss_rate_dn :: u16
  cfg_loss_rate_up :: u16

definition FdAdapterConfig_default :: "resolver \<Rightarrow> fd_adapter_config result" where
  "FdAdapterConfig_default getaddrinfo =
     rbind (Address_of_ip_port getaddrinfo ''0'' 0) (\<lambda>source.
     rbind (Address_of_ip_port getaddrinfo ''0'' 0) (\<lambda>destination.
       Inr \<lparr>cfg_source = source, cfg_destination = destination, cfg_loss_rate_dn = 0, cfg_loss_rate_up = 0\<rparr>))"

record fd_adapter_base =
  fa_cfg :: fd_adapter_config
  fa_listen :: bool

definition FdAdapterBase_new :: "resolver \<Rightarrow> fd_adapter_base result" where
  "FdAdapterBase_new getaddrinfo =
     rbind (FdAdapterConfig_default getaddrinfo) (\<lambda>cfg. Inr \<lparr>fa_cfg = cfg, fa_listen = False\<rparr>)"

definition FdAdapterBase_set_listening :: "bool \<Rightarrow> fd_adapter_base \<Rightarrow> fd_adapter_base" where
  "FdAdapterBase_set_listening l b = b\<lparr>fa_listen := l\<rparr>"

definition FdAdapterBase_listening :: "fd_adapter_base \<Rightarrow> bool" where
  "FdAdapterBase_listening b = fa_listen b"

definition FdAdapterBase_config :: "fd_adapter_base \<Rightarrow> fd_adapter_config" where
  "FdAdapterBase_config b = fa_cfg b"

text \<open>Assignment through \<open>config_mut()\<close>.\<close>

definition FdAdapterBase_set_config :: "fd_adapter_config \<Rightarrow> fd_adapter_base \<Rightarrow> fd_adapter_base" where
  "FdAdapterBase_set_config cfg b = b\<lparr>fa_cfg := cfg\<rparr>"

definition FdAdapterBase_tick :: "u64 \<Rightarrow> fd_adapter_base \<Rightarrow> fd_adapter_base" where
  "FdAdapterBase_tick ms_since_last_tick b = b"

section \<open>TCP in IPv4\<close>

text \<open>The last part of \<open>unwrap_tcp_in_ip\<close>: while listening, a SYN fixes both ends of the connection.\<close>

definition unwrap_listening ::
  "resolver \<Rightarrow> fd_adapter_base \<Rightarrow> ipv4_header \<Rightarrow> tcp_header \<Rightarrow> fd_adapter_base option result" where
  "unwrap_listening getaddrinfo b iph tcph =
     (if FdAdapterBase_listening b then
        if syn tcph \<and> \<not> rst tcph then
          rbind (Address_port (cfg_source (fa_cfg b))) (\<lambda>port.
          rbind (Address_of_ip_port getaddrinfo (inet_ntoa_string (ip_dst iph)) port) (\<lambda>source.
            let b = b\<lparr>fa_cfg := (fa_cfg b)\<lparr>cfg_source := source\<rparr>\<rparr>
            in rbind (Address_of_ip_port getaddrinfo (inet_ntoa_string (ip_src iph)) (sport tcph)) (\<lambda>destination.
               let b = b\<lparr>fa_cfg := (fa_cfg b)\<lparr>cfg_destination := destination\<rparr>\<rparr>
               in Inr (Some (FdAdapterBase_set_listening False b)))))
        else Inr None
      else Inr (Some b))"

definition unwrap_tcp_in_ip ::
  "resolver \<Rightarrow> fd_adapter_base \<Rightarrow> ipv4_datagram \<Rightarrow> (tcp_segment option \<times> fd_adapter_base) result" where
  "unwrap_tcp_in_ip getaddrinfo b ip_dgram =
     (let iph = dg_header ip_dgram; cfg = FdAdapterBase_config b in
      rbind (if FdAdapterBase_listening b then Inr False
             else rbind (Address_ipv4_numeric (cfg_source cfg)) (\<lambda>s. Inr (ip_dst iph \<noteq> s))) (\<lambda>not_for_us.
      if not_for_us then Inr (None, b) else
      rbind (if FdAdapterBase_listening b then Inr False
             else rbind (Address_ipv4_numeric (cfg_destination cfg)) (\<lambda>d. Inr (ip_src iph \<noteq> d))) (\<lambda>not_from_peer.
      if not_from_peer then Inr (None, b) else
      if ip_proto iph \<noteq> PROTO_TCP then Inr (None, b) else
      rbind (BufferList_to_Buffer (dg_payload ip_dgram)) (\<lambda>payload.
      rbind (TCPSegment_parse TCPSegment_default payload (IPv4Header_pseudo_cksum iph)) (\<lambda>(tcp_seg, res).
      if res \<noteq> NoError then Inr (None, b) else
      rbind (Address_port (cfg_source cfg)) (\<lambda>port.
      if dport (ts_header tcp_seg) \<noteq> port then Inr (None, b) else
      rbind (unwrap_listening getaddrinfo b iph (ts_header tcp_seg)) (\<lambda>bo.
      case bo of None \<Rightarrow> Inr (None, b)
      | Some b' \<Rightarrow>
          rbind (Address_port (cfg_destination (fa_cfg b'))) (\<lambda>port.
          if sport (ts_header tcp_seg) \<noteq> port then Inr (None, b') else Inr (Some tcp_seg, b')))))))))"

text \<open>\<open>wrap_tcp_in_ip\<close> also sets the ports in the segment it is given.\<close>

definition wrap_tcp_in_ip :: "fd_adapter_base \<Rightarrow> tcp_segment \<Rightarrow> (ipv4_datagram \<times> tcp_segment) result" where
  "wrap_tcp_in_ip b seg =
     (let cfg = FdAdapterBase_config b in
      rbind (Address_port (cfg_source cfg)) (\<lambda>sp.
      rbind (Address_port (cfg_destination cfg)) (\<lambda>dp.
        let seg = seg\<lparr>ts_header := (ts_header seg)\<lparr>sport := sp, dport := dp\<rparr>\<rparr>;
            ip_dgram = IPv4Datagram_default in
        rbind (Address_ipv4_numeric (cfg_source cfg)) (\<lambda>src.
        rbind (Address_ipv4_numeric (cfg_destination cfg)) (\<lambda>dst.
          let h = (dg_header ip_dgram)\<lparr>ip_src := src, ip_dst := dst\<rparr>;
              h = h\<lparr>ip_len := of_nat (unat (ip_hlen h) * 4 + unat (doff (ts_header seg)) * 4 +
                                Buffer_size (ts_payload seg))\<rparr>
          in rbind (TCPSegment_serialize seg (IPv4Header_pseudo_cksum h)) (\<lambda>payload.
             Inr (\<lparr>dg_header = h, dg_payload = payload\<rparr>, seg)))))))"

section \<open>TCP over IPv4 on a TUN device\<close>

record tun_adapter =
  tn_base :: fd_adapter_base
  tn_tun :: fd_wrapper

definition TunAdapter_new :: "resolver \<Rightarrow> fd_wrapper \<Rightarrow> tun_adapter result" where
  "TunAdapter_new getaddrinfo tun = rbind (FdAdapterBase_new getaddrinfo) (\<lambda>b. Inr \<lparr>tn_base = b, tn_tun = tun\<rparr>)"

definition TunAdapter_read ::
  "resolver \<Rightarrow> ('k \<Rightarrow> u64 \<Rightarrow> (sys_ret \<times> byte list) \<times> 'k) \<Rightarrow> tun_adapter \<Rightarrow> 'k \<Rightarrow>
   (tcp_segment option \<times> tun_adapter \<times> 'k) result" where
  "TunAdapter_read getaddrinfo sys_read a k =
     rbind (FileDescriptor_read sys_read (tn_tun a) SIZE_MAX k) (\<lambda>(bytes, tun, k).
       let a = a\<lparr>tn_tun := tun\<rparr> in
       rbind (IPv4Datagram_parse IPv4Datagram_default (Buffer_of bytes)) (\<lambda>(ip_dgram, res).
         if res \<noteq> NoError then Inr (None, a, k)
         else rbind (unwrap_tcp_in_ip getaddrinfo (tn_base a) ip_dgram) (\<lambda>(seg, b). Inr (seg, a\<lparr>tn_base := b\<rparr>, k))))"

definition TunAdapter_write ::
  "('k \<Rightarrow> byte list list \<Rightarrow> sys_ret \<times> 'k) \<Rightarrow> tun_adapter \<Rightarrow> tcp_segment \<Rightarrow> 'k \<Rightarrow> (tun_adapter \<times> tcp_segment \<times> 'k) result" where
  "TunAdapter_write writev a seg k =
     rbind (wrap_tcp_in_ip (tn_base a) seg) (\<lambda>(ip_dgram, seg).
     rbind (IPv4Datagram_serialize ip_dgram) (\<lambda>bl.
     rbind (FileDescriptor_write writev (tn_tun a) k (BufferViewList_of_BufferList bl) True) (\<lambda>(_, tun, k).
       Inr (a\<lparr>tn_tun := tun\<rparr>, seg, k))))"

section \<open>TCP over UDP\<close>

record udp_adapter =
  ua_base :: fd_adapter_base
  ua_sock :: fd_wrapper

definition UDPAdapter_new :: "resolver \<Rightarrow> fd_wrapper \<Rightarrow> udp_adapter result" where
  "UDPAdapter_new getaddrinfo sock = rbind (FdAdapterBase_new getaddrinfo) (\<lambda>b. Inr \<lparr>ua_base = b, ua_sock = sock\<rparr>)"

definition UDPAdapter_read ::
  "('k \<Rightarrow> u64 \<Rightarrow> (sys_ret \<times> byte list \<times> address \<times> nat) \<times> 'k) \<Rightarrow> udp_adapter \<Rightarrow> 'k \<Rightarrow>
   (tcp_segment option \<times> udp_adapter \<times> 'k) result" where
  "UDPAdapter_read recvfrom a k =
     rbind (UDPSocket_recv recvfrom (ua_sock a) UDP_MTU k) (\<lambda>(datagram, sock, k).
       let a = a\<lparr>ua_sock := sock\<rparr>; b = ua_base a in
       if \<not> FdAdapterBase_listening b \<and> \<not> Address_eq (rd_source_address datagram) (cfg_destination (fa_cfg b))
       then Inr (None, a, k)
       else rbind (TCPSegment_parse TCPSegment_default (Buffer_of (rd_payload datagram)) 0) (\<lambda>(seg, res).
         if res \<noteq> NoError then Inr (None, a, k)
         else if FdAdapterBase_listening b then
           if syn (ts_header seg) \<and> \<not> rst (ts_header seg) then
             let b = b\<lparr>fa_cfg := (fa_cfg b)\<lparr>cfg_destination := rd_source_address datagram\<rparr>\<rparr>
             in Inr (Some seg, a\<lparr>ua_base := FdAdapterBase_set_listening False b\<rparr>, k)
           else Inr (None, a, k)
         else Inr (Some seg, a, k)))"

definition UDPAdapter_write ::
  "('k \<Rightarrow> int \<Rightarrow> address option \<Rightarrow> byte list list \<Rightarrow> sys_ret \<times> 'k) \<Rightarrow> udp_adapter \<Rightarrow> tcp_segment \<Rightarrow> 'k \<Rightarrow>
   (udp_adapter \<times> tcp_segment \<times> 'k) result" where
  "UDPAdapter_write sendmsg a seg k =
     (let cfg = FdAdapterBase_config (ua_base a) in
      rbind (Address_port (cfg_source cfg)) (\<lambda>sp.
      rbind (Address_port (cfg_destination cfg)) (\<lambda>dp.
        let seg = seg\<lparr>ts_header := (ts_header seg)\<lparr>sport := sp, dport := dp\<rparr>\<rparr> in
        rbind (TCPSegment_serialize seg 0) (\<lambda>bl.
        rbind (UDPSocket_sendto sendmsg (ua_sock a) (cfg_destination cfg) (BufferViewList_of_BufferList bl) k)
          (\<lambda>(sock, k). Inr (a\<lparr>ua_sock := sock\<rparr>, seg, k))))))"

section \<open>TCP over IPv4 over Ethernet on a TAP device\<close>

record ethernet_adapter =
  ea_base :: fd_adapter_base
  ea_tap :: fd_wrapper
  ea_interface :: network_interface
  ea_next_hop :: address

fun EthernetAdapter_send_loop ::
  "('k \<Rightarrow> byte list list \<Rightarrow> sys_ret \<times> 'k) \<Rightarrow> ethernet_frame list \<Rightarrow> fd_wrapper \<Rightarrow> 'k \<Rightarrow> (fd_wrapper \<times> 'k) result" where
  "EthernetAdapter_send_loop writev [] tap k = Inr (tap, k)"
| "EthernetAdapter_send_loop writev (frame # frames) tap k =
     rbind (FileDescriptor_write writev tap k (BufferViewList_of_BufferList (EthernetFrame_serialize frame)) True)
       (\<lambda>(_, tap, k). EthernetAdapter_send_loop writev frames tap k)"

definition EthernetAdapter_send_pending ::
  "('k \<Rightarrow> byte list list \<Rightarrow> sys_ret \<times> 'k) \<Rightarrow> ethernet_adapter \<Rightarrow> 'k \<Rightarrow> (ethernet_adapter \<times> 'k) result" where
  "EthernetAdapter_send_pending writev a k =
     rbind (EthernetAdapter_send_loop writev (ni_frames_out (ea_interface a)) (ea_tap a) k) (\<lambda>(tap, k).
       Inr (a\<lparr>ea_tap := tap, ea_interface := (ea_interface a)\<lparr>ni_frames_out := []\<rparr>\<rparr>, k))"

definition EthernetAdapter_new ::
  "resolver \<Rightarrow> ('k \<Rightarrow> byte list list \<Rightarrow> sys_ret \<times> 'k) \<Rightarrow> fd_wrapper \<Rightarrow> ethernet_address \<Rightarrow> address \<Rightarrow> address \<Rightarrow> 'k \<Rightarrow>
   (ethernet_adapter \<times> 'k) result" where
  "EthernetAdapter_new getaddrinfo writev tap eth_address ip_address next_hop k =
     rbind (FdAdapterBase_new getaddrinfo) (\<lambda>b.
     rbind (FileDescriptor_write writev tap k
              (BufferViewList_of_BufferList (EthernetFrame_serialize EthernetFrame_default)) True) (\<lambda>(_, tap, k).
       Inr (\<lparr>ea_base = b, ea_tap = tap, ea_interface = NetworkInterface_new eth_address ip_address,
             ea_next_hop = next_hop\<rparr>, k)))"

definition EthernetAdapter_read ::
  "resolver \<Rightarrow> ('k \<Rightarrow> byte list list \<Rightarrow> sys_ret \<times> 'k) \<Rightarrow> ('k \<Rightarrow> u64 \<Rightarrow> (sys_ret \<times> byte list) \<times> 'k) \<Rightarrow>
   ethernet_adapter \<Rightarrow> 'k \<Rightarrow>
   (tcp_segment option \<times> ethernet_adapter \<times> 'k) result" where
  "EthernetAdapter_read getaddrinfo writev sys_read a k =
     rbind (FileDescriptor_read sys_read (ea_tap a) SIZE_MAX k) (\<lambda>(bytes, tap, k).
       let a = a\<lparr>ea_tap := tap\<rparr> in
       rbind (EthernetFrame_parse EthernetFrame_default (Buffer_of bytes)) (\<lambda>(frame, res).
         if res \<noteq> NoError then Inr (None, a, k)
         else rbind (NetworkInterface_recv_frame (ea_interface a) frame) (\<lambda>(ip_dgram, ni).
              rbind (EthernetAdapter_send_pending writev (a\<lparr>ea_interface := ni\<rparr>) k) (\<lambda>(a, k).
              case ip_dgram of
                Some d \<Rightarrow> rbind (unwrap_tcp_in_ip getaddrinfo (ea_base a) d) (\<lambda>(seg, b). Inr (seg, a\<lparr>ea_base := b\<rparr>, k))
              | None \<Rightarrow> Inr (None, a, k)))))"

definition EthernetAdapter_tick ::
  "('k \<Rightarrow> byte list list \<Rightarrow> sys_ret \<times> 'k) \<Rightarrow> u64 \<Rightarrow> ethernet_adapter \<Rightarrow> 'k \<Rightarrow> (ethernet_adapter \<times> 'k) result" where
  "EthernetAdapter_tick writev ms_since_last_tick a k =
     EthernetAdapter_send_pending writev (a\<lparr>ea_interface := NetworkInterface_tick (ea_interface a) ms_since_last_tick\<rparr>) k"

definition EthernetAdapter_write ::
  "('k \<Rightarrow> byte list list \<Rightarrow> sys_ret \<times> 'k) \<Rightarrow> ethernet_adapter \<Rightarrow> tcp_segment \<Rightarrow> 'k \<Rightarrow>
   (ethernet_adapter \<times> tcp_segment \<times> 'k) result" where
  "EthernetAdapter_write writev a seg k =
     rbind (wrap_tcp_in_ip (ea_base a) seg) (\<lambda>(ip_dgram, seg).
     rbind (NetworkInterface_send_datagram (ea_interface a) ip_dgram (ea_next_hop a)) (\<lambda>ni.
     rbind (EthernetAdapter_send_pending writev (a\<lparr>ea_interface := ni\<rparr>) k) (\<lambda>(a, k). Inr (a, seg, k))))"

section \<open>LossyFdAdapter\<close>

text \<open>
  The template over the underlying adapter: its \<open>config\<close>, \<open>read\<close> and \<open>write\<close> are arguments.  The state of the
  random number generator is \<open>'g\<close>; \<open>rand\<close> draws the next number, and only when the loss rate is not zero.
\<close>

record ('a, 'g) lossy_adapter =
  lo_rand :: 'g
  lo_adapter :: 'a

definition Lossy_should_drop ::
  "('g \<Rightarrow> u32 \<times> 'g) \<Rightarrow> ('a \<Rightarrow> fd_adapter_config) \<Rightarrow> bool \<Rightarrow> ('a, 'g) lossy_adapter \<Rightarrow> bool \<times> ('a, 'g) lossy_adapter" where
  "Lossy_should_drop rand config uplink l =
     (let cfg = config (lo_adapter l);
          loss = (if uplink then cfg_loss_rate_up cfg else cfg_loss_rate_dn cfg)
      in if loss \<noteq> 0
         then let (r, g) = rand (lo_rand l) in ((ucast r :: u16) < loss, l\<lparr>lo_rand := g\<rparr>)
         else (False, l))"

definition Lossy_read ::
  "('g \<Rightarrow> u32 \<times> 'g) \<Rightarrow> ('a \<Rightarrow> fd_adapter_config) \<Rightarrow> ('a \<Rightarrow> 'k \<Rightarrow> (tcp_segment option \<times> 'a \<times> 'k) result) \<Rightarrow>
   ('a, 'g) lossy_adapter \<Rightarrow> 'k \<Rightarrow> (tcp_segment option \<times> ('a, 'g) lossy_adapter \<times> 'k) result" where
  "Lossy_read rand config adapter_read l k =
     rbind (adapter_read (lo_adapter l) k) (\<lambda>(ret, a, k).
       let (drop, l) = Lossy_should_drop rand config False (l\<lparr>lo_adapter := a\<rparr>)
       in Inr (if drop then None else ret, l, k))"

definition Lossy_write ::
  "('g \<Rightarrow> u32 \<times> 'g) \<Rightarrow> ('a \<Rightarrow> fd_adapter_config) \<Rightarrow>
   ('a \<Rightarrow> tcp_segment \<Rightarrow> 'k \<Rightarrow> ('a \<times> tcp_segment \<times> 'k) result) \<Rightarrow>
   ('a, 'g) lossy_adapter \<Rightarrow> tcp_segment \<Rightarrow> 'k \<Rightarrow> (('a, 'g) lossy_adapter \<times> tcp_segment \<times> 'k) result" where
  "Lossy_write rand config adapter_write l seg k =
     (let (drop, l) = Lossy_should_drop rand config True l
      in if drop then Inr (l, seg, k)
         else rbind (adapter_write (lo_adapter l) seg k) (\<lambda>(a, seg, k). Inr (l\<lparr>lo_adapter := a\<rparr>, seg, k)))"

definition Lossy_set_listening :: "(bool \<Rightarrow> 'a \<Rightarrow> 'a) \<Rightarrow> bool \<Rightarrow> ('a, 'g) lossy_adapter \<Rightarrow> ('a, 'g) lossy_adapter" where
  "Lossy_set_listening set_listening b l = l\<lparr>lo_adapter := set_listening b (lo_adapter l)\<rparr>"

definition Lossy_config :: "('a \<Rightarrow> fd_adapter_config) \<Rightarrow> ('a, 'g) lossy_adapter \<Rightarrow> fd_adapter_config" where
  "Lossy_config config l = config (lo_adapter l)"

definition Lossy_set_config ::
  "(fd_adapter_config \<Rightarrow> 'a \<Rightarrow> 'a) \<Rightarrow> fd_adapter_config \<Rightarrow> ('a, 'g) lossy_adapter \<Rightarrow> ('a, 'g) lossy_adapter" where
  "Lossy_set_config set_config cfg l = l\<lparr>lo_adapter := set_config cfg (lo_adapter l)\<rparr>"

definition Lossy_tick ::
  "(u64 \<Rightarrow> 'a \<Rightarrow> 'k \<Rightarrow> ('a \<times> 'k) result) \<Rightarrow> u64 \<Rightarrow> ('a, 'g) lossy_adapter \<Rightarrow> 'k \<Rightarrow> (('a, 'g) lossy_adapter \<times> 'k) result" where
  "Lossy_tick tick ms_since_last_tick l k =
     rbind (tick ms_since_last_tick (lo_adapter l) k) (\<lambda>(a, k). Inr (l\<lparr>lo_adapter := a\<rparr>, k))"

section \<open>The contract of a datagram adapter\<close>

text \<open>
  What the code above relies on: writing does not touch the configuration; reading changes it only
  while listening; and an adapter that has delivered a segment listens no longer.  Then the two ends of
  the connection are fixed from the first segment on.
\<close>

datatype adapter_op = AD_read | AD_write tcp_segment

text \<open>One operation of the client; the segments delivered so far are kept in order.\<close>

fun adapter_step ::
  "('a \<Rightarrow> 'k \<Rightarrow> (tcp_segment option \<times> 'a \<times> 'k) result) \<Rightarrow> ('a \<Rightarrow> tcp_segment \<Rightarrow> 'k \<Rightarrow> ('a \<times> tcp_segment \<times> 'k) result) \<Rightarrow>
   'a \<times> 'k \<times> tcp_segment list \<Rightarrow> adapter_op \<Rightarrow> ('a \<times> 'k \<times> tcp_segment list) result" where
  "adapter_step adapter_read adapter_write (a, k, rs) AD_read =
     rbind (adapter_read a k) (\<lambda>(s, a, k). Inr (a, k, case s of None \<Rightarrow> rs | Some seg \<Rightarrow> rs @ [seg]))"
| "adapter_step adapter_read adapter_write (a, k, rs) (AD_write seg) =
     rbind (adapter_write a seg k) (\<lambda>(a, _, k). Inr (a, k, rs))"

definition loss_rates :: "fd_adapter_base \<Rightarrow> u16 \<times> u16" where
  "loss_rates b = (cfg_loss_rate_dn (fa_cfg b), cfg_loss_rate_up (fa_cfg b))"

locale datagram_adapter =
  fixes adapter_read :: "'a \<Rightarrow> 'k \<Rightarrow> (tcp_segment option \<times> 'a \<times> 'k) result"
    and adapter_write :: "'a \<Rightarrow> tcp_segment \<Rightarrow> 'k \<Rightarrow> ('a \<times> tcp_segment \<times> 'k) result"
    and base :: "'a \<Rightarrow> fd_adapter_base"
  assumes write_keeps: "adapter_write a seg k = Inr (a', seg', k') \<Longrightarrow> base a' = base a"
    and read_keeps: "adapter_read a k = Inr (s, a', k') \<Longrightarrow> \<not> fa_listen (base a) \<Longrightarrow> base a' = base a"
    and read_latches: "adapter_read a k = Inr (Some seg, a', k') \<Longrightarrow> \<not> fa_listen (base a')"
    and read_keeps_loss: "adapter_read a k = Inr (s, a', k') \<Longrightarrow> loss_rates (base a') = loss_rates (base a)"
begin

abbreviation step :: "'a \<times> 'k \<times> tcp_segment list \<Rightarrow> adapter_op \<Rightarrow> ('a \<times> 'k \<times> tcp_segment list) result" where
  "step \<equiv> adapter_step adapter_read adapter_write"

lemma step_keeps:
  "step (a, k, rs) op = Inr (a', k', rs') \<Longrightarrow> \<not> fa_listen (base a) \<Longrightarrow> base a' = base a"
  by (cases op) (auto simp: rbind_Inr_conv dest: write_keeps read_keeps)

lemma step_keeps_loss: "step (a, k, rs) op = Inr (a', k', rs') \<Longrightarrow> loss_rates (base a') = loss_rates (base a)"
  by (cases op) (auto simp: rbind_Inr_conv dest: write_keeps read_keeps_loss)

lemma run_keeps:
  "run_steps step (a, k, rs) ops = Inr (a', k', rs') \<Longrightarrow> \<not> fa_listen (base a) \<Longrightarrow> base a' = base a"
proof (induction ops arbitrary: a k rs)
  case (Cons op ops)
  from Cons.prems(1) obtain a1 k1 rs1 where s: "step (a, k, rs) op = Inr (a1, k1, rs1)"
    and r: "run_steps step (a1, k1, rs1) ops = Inr (a', k', rs')"
    by (auto simp: rbind_Inr_conv)
  have "base a1 = base a" using step_keeps[OF s Cons.prems(2)] .
  with Cons.IH[OF r] Cons.prems(2) show ?case by simp
qed simp

lemma latched_forever:
  assumes "adapter_read a k = Inr (Some seg, a1, k1)" and "run_steps step (a1, k1, rs) ops = Inr (a', k', rs')"
  shows "base a' = base a1"
  using run_keeps[OF assms(2) read_latches[OF assms(1)]] .

text \<open>With both loss rates zero the lossy adapter does exactly what the adapter below it does.\<close>

lemma lossless_step:
  assumes "loss_rates (base a) = (0, 0)"
  shows "adapter_step (Lossy_read rand (\<lambda>a. fa_cfg (base a)) adapter_read) (Lossy_write rand (\<lambda>a. fa_cfg (base a)) adapter_write)
      (\<lparr>lo_rand = g, lo_adapter = a\<rparr>, k, rs) op =
    rbind (step (a, k, rs) op) (\<lambda>(a, k, rs). Inr (\<lparr>lo_rand = g, lo_adapter = a\<rparr>, k, rs))"
proof (cases op)
  case AD_read
  show ?thesis
  proof (cases "adapter_read a k")
    case (Inr r)
    obtain s a1 k1 where "r = (s, a1, k1)" by (metis prod.exhaust)
    moreover from this have "loss_rates (base a1) = (0, 0)" using read_keeps_loss Inr assms by simp
    ultimately show ?thesis using AD_read Inr by (simp add: Lossy_read_def Lossy_should_drop_def loss_rates_def)
  qed (simp add: AD_read Lossy_read_def)
next
  case (AD_write seg)
  show ?thesis using assms
    by (cases "adapter_write a seg k") (auto simp: AD_write Lossy_write_def Lossy_should_drop_def loss_rates_def)
qed

lemma lossless_run:
  assumes "loss_rates (base a) = (0, 0)"
  shows "run_steps (adapter_step (Lossy_read rand (\<lambda>a. fa_cfg (base a)) adapter_read)
        (Lossy_write rand (\<lambda>a. fa_cfg (base a)) adapter_write)) (\<lparr>lo_rand = g, lo_adapter = a\<rparr>, k, rs) ops =
    rbind (run_steps step (a, k, rs) ops) (\<lambda>(a, k, rs). Inr (\<lparr>lo_rand = g, lo_adapter = a\<rparr>, k, rs))"
  using assms
proof (induction ops arbitrary: a k rs)
  case (Cons op ops)
  show ?case
  proof (cases "step (a, k, rs) op")
    case (Inr r)
    obtain a1 k1 rs1 where r: "r = (a1, k1, rs1)" by (metis prod.exhaust)
    have "loss_rates (base a1) = (0, 0)" using step_keeps_loss Inr r Cons.prems by simp
    with Cons.IH Inr r show ?thesis by (simp add: lossless_step[OF Cons.prems])
  qed (simp add: lossless_step[OF Cons.prems])
qed simp

end

lemma should_drop_keeps: "Lossy_should_drop rand config up l = (d, l') \<Longrightarrow> lo_adapter l' = lo_adapter l"
  by (auto simp: Lossy_should_drop_def Let_def split: prod.splits if_splits)

lemma Lossy_readD:
  "Lossy_read rand config adapter_read l k = Inr (s, l', k') \<Longrightarrow>
   \<exists>ret. adapter_read (lo_adapter l) k = Inr (ret, lo_adapter l', k') \<and> (s = None \<or> s = ret)"
proof -
  assume a: "Lossy_read rand config adapter_read l k = Inr (s, l', k')"
  then obtain r where r: "adapter_read (lo_adapter l) k = Inr r" by (simp only: Lossy_read_def rbind_Inr_conv) blast
  obtain ret a1 k1 where r3: "r = (ret, a1, k1)" by (metis prod.exhaust)
  obtain d l1 where d: "Lossy_should_drop rand config False (l\<lparr>lo_adapter := a1\<rparr>) = (d, l1)" by fastforce
  from a have "s = (if d then None else ret)" "l' = l1" "k' = k1" by (simp_all add: Lossy_read_def r r3 d)
  then show ?thesis using r r3 should_drop_keeps[OF d] by simp
qed

lemma Lossy_writeD:
  "Lossy_write rand config adapter_write l seg k = Inr (l', seg', k') \<Longrightarrow>
   lo_adapter l' = lo_adapter l \<or> adapter_write (lo_adapter l) seg k = Inr (lo_adapter l', seg', k')"
proof -
  assume a: "Lossy_write rand config adapter_write l seg k = Inr (l', seg', k')"
  obtain d l1 where d: "Lossy_should_drop rand config True l = (d, l1)" by fastforce
  note keep = should_drop_keeps[OF d]
  show ?thesis
  proof (cases d)
    case True then show ?thesis using a d keep by (simp add: Lossy_write_def)
  next
    case False
    then have w: "rbind (adapter_write (lo_adapter l) seg k) (\<lambda>(a, seg, k). Inr (l1\<lparr>lo_adapter := a\<rparr>, seg, k)) = Inr (l', seg', k')"
      using a d keep by (simp add: Lossy_write_def)
    then obtain r where "adapter_write (lo_adapter l) seg k = Inr r" by (simp only: rbind_Inr_conv) blast
    then show ?thesis using w by (cases r) auto
  qed
qed

lemma lossy_datagram_adapter:
  assumes "datagram_adapter adapter_read adapter_write base"
  shows "datagram_adapter (Lossy_read rand config adapter_read) (Lossy_write rand config adapter_write)
    (\<lambda>l. base (lo_adapter l))"
proof (rule datagram_adapter.intro)
  fix a seg k a' seg' k'
  assume "Lossy_write rand config adapter_write a seg k = Inr (a', seg', k')"
  then show "base (lo_adapter a') = base (lo_adapter a)"
    using Lossy_writeD datagram_adapter.write_keeps[OF assms] by metis
next
  fix a k s a' k'
  assume "Lossy_read rand config adapter_read a k = Inr (s, a', k')" "\<not> fa_listen (base (lo_adapter a))"
  then show "base (lo_adapter a') = base (lo_adapter a)"
    using Lossy_readD datagram_adapter.read_keeps[OF assms] by metis
next
  fix a k seg a' k'
  assume "Lossy_read rand config adapter_read a k = Inr (Some seg, a', k')"
  then show "\<not> fa_listen (base (lo_adapter a'))"
    using Lossy_readD datagram_adapter.read_latches[OF assms] by (metis option.distinct(1))
next
  fix a k s a' k'
  assume "Lossy_read rand config adapter_read a k = Inr (s, a', k')"
  then show "loss_rates (base (lo_adapter a')) = loss_rates (base (lo_adapter a))"
    using Lossy_readD datagram_adapter.read_keeps_loss[OF assms] by metis
qed

section \<open>The adapters meet it\<close>

lemma unwrap_listening_Some:
  "unwrap_listening getaddrinfo b iph tcph = Inr (Some b') \<Longrightarrow> \<not> fa_listen b' \<and> (\<not> fa_listen b \<longrightarrow> b' = b) \<and>
   loss_rates b' = loss_rates b"
  by (auto simp: loss_rates_def unwrap_listening_def FdAdapterBase_listening_def FdAdapterBase_set_listening_def rbind_Inr_conv Let_def
      split: if_splits)

lemma unwrap_latches:
  assumes "unwrap_tcp_in_ip getaddrinfo b d = Inr (s, b')"
  shows "(s \<noteq> None \<longrightarrow> \<not> fa_listen b') \<and> (\<not> fa_listen b \<longrightarrow> b' = b) \<and> loss_rates b' = loss_rates b"
  using assms
  by (auto simp: unwrap_tcp_in_ip_def rbind_Inr_conv Let_def split: if_splits option.splits dest!: unwrap_listening_Some)

interpretation tun: datagram_adapter "TunAdapter_read getaddrinfo sys_read" "TunAdapter_write writev" tn_base
  by unfold_locales
    (auto simp: TunAdapter_read_def TunAdapter_write_def rbind_Inr_conv Let_def split: if_splits dest: unwrap_latches)

lemma UDPAdapter_read_latches:
  assumes "UDPAdapter_read recvfrom a k = Inr (s, a', k')"
  shows "(s \<noteq> None \<longrightarrow> \<not> fa_listen (ua_base a')) \<and> (\<not> fa_listen (ua_base a) \<longrightarrow> ua_base a' = ua_base a) \<and>
    loss_rates (ua_base a') = loss_rates (ua_base a)"
proof (cases "fa_listen (ua_base a)")
  case True
  note d = UDPAdapter_read_def FdAdapterBase_listening_def FdAdapterBase_set_listening_def loss_rates_def
  from assms True obtain dg sock k1 seg res where
    "UDPSocket_recv recvfrom (ua_sock a) UDP_MTU k = Inr (dg, sock, k1)"
    "TCPSegment_parse TCPSegment_default (Buffer_of (rd_payload dg)) 0 = Inr (seg, res)"
    by (auto simp: d rbind_Inr_conv Let_def)
  with assms True show ?thesis
    by (cases "res = NoError"; cases "syn (ts_header seg) \<and> \<not> rst (ts_header seg)") (auto simp: d Let_def)
next
  case False
  with assms show ?thesis
    by (auto simp: UDPAdapter_read_def rbind_Inr_conv Let_def FdAdapterBase_listening_def split: if_split_asm)
qed

interpretation udp: datagram_adapter "UDPAdapter_read recvfrom" "UDPAdapter_write sendmsg" ua_base
  by unfold_locales
    (auto simp: UDPAdapter_write_def rbind_Inr_conv Let_def dest: UDPAdapter_read_latches)

lemma send_pending_base:
  "EthernetAdapter_send_pending writev a k = Inr (a', k') \<Longrightarrow> ea_base a' = ea_base a"
  by (auto simp: EthernetAdapter_send_pending_def rbind_Inr_conv)

interpretation eth: datagram_adapter "EthernetAdapter_read getaddrinfo writev sys_read" "EthernetAdapter_write writev" ea_base
  by unfold_locales
    (auto simp: EthernetAdapter_read_def EthernetAdapter_write_def rbind_Inr_conv Let_def
      split: if_splits option.splits dest!: unwrap_latches send_pending_base)

interpretation lossy_tun: datagram_adapter
  "Lossy_read rand config (TunAdapter_read getaddrinfo sys_read)" "Lossy_write rand config (TunAdapter_write writev)"
  "\<lambda>l. tn_base (lo_adapter l)"
  by (rule lossy_datagram_adapter) unfold_locales

interpretation lossy_udp: datagram_adapter
  "Lossy_read rand config (UDPAdapter_read recvfrom)" "Lossy_write rand config (UDPAdapter_write sendmsg)"
  "\<lambda>l. ua_base (lo_adapter l)"
  by (rule lossy_datagram_adapter) unfold_locales

section \<open>Segments in IPv4 datagrams\<close>

text \<open>An adapter between two IPv4 endpoints.\<close>

definition between :: "fd_adapter_base \<Rightarrow> u32 \<Rightarrow> u16 \<Rightarrow> u32 \<Rightarrow> u16 \<Rightarrow> bool" where
  "between b ip port ip' port' \<longleftrightarrow>
     cfg_source (fa_cfg b) = ipv4_address ip port \<and> cfg_destination (fa_cfg b) = ipv4_address ip' port'"

definition with_ports :: "tcp_segment \<Rightarrow> u16 \<Rightarrow> u16 \<Rightarrow> tcp_segment" where
  "with_ports seg sp dp = seg\<lparr>ts_header := (ts_header seg)\<lparr>sport := sp, dport := dp\<rparr>\<rparr>"

definition wrap_header :: "u32 \<Rightarrow> u32 \<Rightarrow> tcp_segment \<Rightarrow> ipv4_header" where
  "wrap_header src dst seg = IPv4Header_default\<lparr>ip_src := src, ip_dst := dst,
     ip_len := of_nat (20 + unat (doff (ts_header seg)) * 4 + length (Buffer_str (ts_payload seg)))\<rparr>"

text \<open>A segment that fits in one datagram.\<close>

definition seg_fits :: "tcp_segment \<Rightarrow> bool" where
  "seg_fits seg \<longleftrightarrow> tcp_header_valid (ts_header seg) \<and> buffer_wf (ts_payload seg) \<and>
     20 + 4 * unat (doff (ts_header seg)) + length (Buffer_str (ts_payload seg)) \<le> 65535"

lemma with_ports_fits [simp]: "seg_fits (with_ports seg sp dp) = seg_fits seg"
  by (simp add: seg_fits_def with_ports_def tcp_header_valid_def)

lemma with_ports_simps [simp]:
  "ts_payload (with_ports seg sp dp) = ts_payload seg" "doff (ts_header (with_ports seg sp dp)) = doff (ts_header seg)"
  "sport (ts_header (with_ports seg sp dp)) = sp" "dport (ts_header (with_ports seg sp dp)) = dp"
  by (simp_all add: with_ports_def)

lemma wrap_header_simps [simp]:
  "ip_ver (wrap_header s d seg) = 4" "ip_hlen (wrap_header s d seg) = 5" "ip_offset (wrap_header s d seg) = 0"
  "ip_src (wrap_header s d seg) = s" "ip_dst (wrap_header s d seg) = d" "ip_proto (wrap_header s d seg) = PROTO_TCP"
  by (simp_all add: wrap_header_def IPv4Header_default_def)

lemma wrap_header_len:
  "seg_fits seg \<Longrightarrow>
   unat (ip_len (wrap_header s d seg)) = 20 + 4 * unat (doff (ts_header seg)) + length (Buffer_str (ts_payload seg))"
proof -
  assume "seg_fits seg"
  moreover have e: "ip_len (wrap_header s d seg) =
      of_nat (20 + unat (doff (ts_header seg)) * 4 + length (Buffer_str (ts_payload seg)))"
    by (simp add: wrap_header_def)
  ultimately show ?thesis unfolding e unat_of_nat by (simp add: seg_fits_def mult.commute)
qed

lemma pseudo_cksum_of_cksum [simp]: "IPv4Header_pseudo_cksum (h\<lparr>ip_cksum := c\<rparr>) = IPv4Header_pseudo_cksum h"
  by (simp add: IPv4Header_pseudo_cksum_def IPv4Header_payload_length_def)

lemma wrap_pseudo_bound: "seg_fits seg \<Longrightarrow> unat (IPv4Header_pseudo_cksum (wrap_header s d seg)) \<le> 2 ^ 20"
  using pseudo_header_sum[of "wrap_header s d seg"] wrap_header_len[of seg s d] by simp

definition wrapped :: "u32 \<Rightarrow> u32 \<Rightarrow> tcp_segment \<Rightarrow> ipv4_datagram" where
  "wrapped src dst seg =
     (let h = wrap_header src dst seg
      in \<lparr>dg_header = h, dg_payload =
           [Buffer_of (tcp_header_bytes ((ts_header seg)\<lparr>cksum := tcp_checksum seg (IPv4Header_pseudo_cksum h)\<rparr>)),
            ts_payload seg]\<rparr>)"

lemma wrap_ok:
  assumes "between b ip port ip' port'" and "seg_fits seg"
  shows "wrap_tcp_in_ip b seg = Inr (wrapped ip ip' (with_ports seg port port'), with_ports seg port port')"
proof -
  let ?s = "with_ports seg port port'"
  have v: "tcp_header_valid (ts_header ?s)" using assms(2) with_ports_fits[of seg port port'] unfolding seg_fits_def by blast
  have h: "IPv4Header_default\<lparr>ip_src := ip, ip_dst := ip',
      ip_len := of_nat (unat (ip_hlen (IPv4Header_default\<lparr>ip_src := ip, ip_dst := ip'\<rparr>)) * 4 +
        unat (doff (ts_header ?s)) * 4 + Buffer_size (ts_payload ?s))\<rparr> = wrap_header ip ip' ?s"
    by (simp add: wrap_header_def Buffer_size_def IPv4Header_default_def)
  show ?thesis
    using assms(1) serialize_tcp_segment[OF v] h
    by (simp add: wrap_tcp_in_ip_def between_def FdAdapterBase_config_def Let_def with_ports_def IPv4Datagram_default_def
        wrapped_def)
qed

lemma wrapped_valid:
  assumes "seg_fits seg" shows "dgram_valid (wrapped ip ip' seg)"
proof -
  have v: "tcp_header_valid (ts_header seg)" using assms by (simp add: seg_fits_def)
  let ?hb = "tcp_header_bytes ((ts_header seg)\<lparr>cksum := tcp_checksum seg (IPv4Header_pseudo_cksum (wrap_header ip ip' seg))\<rparr>)"
  have "length ?hb = 4 * unat (doff (ts_header seg))" using length_tcp_header[of "(ts_header seg)\<lparr>cksum := c\<rparr>" for c] v by simp
  then show ?thesis using assms wrap_header_len[OF assms, of ip ip']
    by (simp add: dgram_valid_def wrapped_def Let_def ipv4_header_valid_def bl_wf_def seg_fits_def)
qed

text \<open>The bytes of a wrapped segment, and what they parse to.\<close>

lemma wrapped_on_wire:
  assumes fits: "seg_fits seg"
  shows "\<exists>bl p pl c seg'. IPv4Datagram_serialize (wrapped ip ip' seg) = Inr bl \<and> bl_bytes bl = p \<and>
    0 < length p \<and> length p \<le> 65535 \<and>
    IPv4Datagram_parse IPv4Datagram_default (Buffer_of p) =
      Inr (\<lparr>dg_header = (wrap_header ip ip' seg)\<lparr>ip_cksum := c\<rparr>, dg_payload = [pl]\<rparr>, NoError) \<and>
    TCPSegment_parse TCPSegment_default pl (IPv4Header_pseudo_cksum ((wrap_header ip ip' seg)\<lparr>ip_cksum := c\<rparr>)) =
      Inr (seg', NoError) \<and>
    ts_header seg' = (ts_header seg)\<lparr>cksum := cksum (ts_header seg')\<rparr> \<and>
    Buffer_str (ts_payload seg') = Buffer_str (ts_payload seg)"
proof -
  let ?d = "wrapped ip ip' seg" and ?pc = "IPv4Header_pseudo_cksum (wrap_header ip ip' seg)"
  let ?h = "(ts_header seg)\<lparr>cksum := tcp_checksum seg ?pc\<rparr>"
  have hd: "dg_header ?d = wrap_header ip ip' seg" by (simp add: wrapped_def Let_def)
  define c where "c = ipv4_checksum (dg_header ?d)"
  let ?bl = "Buffer_of (ipv4_header_bytes ((dg_header ?d)\<lparr>ip_cksum := c\<rparr>)) # dg_payload ?d"
  define p where "p = bl_bytes ?bl"
  note dv = wrapped_valid[OF fits, of ip ip']
  have ser: "IPv4Datagram_serialize ?d = Inr ?bl" using serialize_dgram[OF dv] by (simp add: c_def)
  have hv: "ipv4_header_valid ((dg_header ?d)\<lparr>ip_cksum := c\<rparr>)" using dv by (simp add: dgram_valid_def)
  have "length p = unat (ip_len (dg_header ?d))" using dv length_ipv4_header[OF hv] by (simp add: p_def dgram_valid_def)
  then have lb: "0 < length p" "length p \<le> 65535" using wrap_header_len[OF fits, of ip ip'] fits by (simp_all add: hd seg_fits_def)
  then have "buffer_wf (Buffer_of p)" by simp
  from dgram_parses[OF dv this, of IPv4Datagram_default] obtain pl where
    pl: "IPv4Datagram_parse IPv4Datagram_default (Buffer_of p) =
       Inr (\<lparr>dg_header = (wrap_header ip ip' seg)\<lparr>ip_cksum := c\<rparr>, dg_payload = [pl]\<rparr>, NoError)"
      "buffer_wf pl" "Buffer_str pl = bl_bytes (dg_payload ?d)" by (auto simp: p_def c_def hd)
  have v: "tcp_header_valid (ts_header seg)"
    and len: "4 * unat (doff (ts_header seg)) + length (Buffer_str (ts_payload seg)) \<le> 65535"
    using fits by (auto simp: seg_fits_def)
  have "Buffer_str pl = tcp_header_bytes ?h @ Buffer_str (ts_payload seg)" using pl(3) by (simp add: wrapped_def Let_def)
  from tcp_segment_parses[OF v len wrap_pseudo_bound[OF fits] pl(2) this, of TCPSegment_default]
  obtain pl' where "TCPSegment_parse TCPSegment_default pl ?pc = Inr (\<lparr>ts_header = ?h, ts_payload = pl'\<rparr>, NoError)"
    "Buffer_str pl' = Buffer_str (ts_payload seg)" by auto
  then show ?thesis using ser pl(1) lb
    by (intro exI[of _ ?bl] exI[of _ p] exI[of _ pl] exI[of _ c] exI[of _ "\<lparr>ts_header = ?h, ts_payload = pl'\<rparr>"])
      (simp add: p_def)
qed

lemma unwrap_not_listening:
  assumes "between b ip port ip' port'" and "\<not> fa_listen b" and "dg_payload d = [pl]"
    and "TCPSegment_parse TCPSegment_default pl (IPv4Header_pseudo_cksum (dg_header d)) = Inr (seg, res)"
  shows "unwrap_tcp_in_ip getaddrinfo b d = Inr
    (if ip_dst (dg_header d) = ip \<and> ip_src (dg_header d) = ip' \<and> ip_proto (dg_header d) = PROTO_TCP \<and> res = NoError \<and>
        dport (ts_header seg) = port \<and> sport (ts_header seg) = port' then Some seg else None, b)"
  using assms
  by (auto simp: unwrap_tcp_in_ip_def between_def FdAdapterBase_config_def FdAdapterBase_listening_def unwrap_listening_def
      Let_def)

text \<open>
  A packet device: \<open>writev\<close> sends one packet per call, of at most 65535 bytes; \<open>sent\<close> is what it has sent.
  A read of the packet leaves it at the front of the buffer.
\<close>

definition packet_device :: "('k \<Rightarrow> byte list list \<Rightarrow> sys_ret \<times> 'k) \<Rightarrow> ('k \<Rightarrow> byte list list) \<Rightarrow> bool" where
  "packet_device writev sent \<longleftrightarrow>
     (\<forall>k iov. 0 < length (concat iov) \<and> length (concat iov) \<le> 65535 \<longrightarrow>
        (\<exists>errno k'. writev k iov = ((int (length (concat iov)), errno), k') \<and> sent k' = sent k @ [concat iov]))"

definition reads_packet :: "('k \<Rightarrow> u64 \<Rightarrow> (sys_ret \<times> byte list) \<times> 'k) \<Rightarrow> byte list \<Rightarrow> 'k \<Rightarrow> bool" where
  "reads_packet sys_read p k \<longleftrightarrow>
     (\<exists>errno junk k'. sys_read k BUFFER_SIZE = (((int (length p), errno), p @ junk), k'))"

lemma packet_write:
  assumes "packet_device writev sent" "0 < length (concat vs)" "length (concat vs) \<le> 65535"
  shows "\<exists>w' k'. FileDescriptor_write writev w k vs True = Inr (length (concat vs), w', k') \<and> sent k' = sent k @ [concat vs]"
proof -
  have iov: "BufferViewList_as_iovecs vs = vs" by (simp add: BufferViewList_as_iovecs_def)
  from assms obtain errno k' where k': "writev k vs = ((int (length (concat vs)), errno), k')" "sent k' = sent k @ [concat vs]"
    unfolding packet_device_def by blast
  let ?n = "length (concat vs)"
  have sc: "SystemCall ''writev'' (int ?n, errno) 0 = Inr (int ?n)"
    using assms(3) by (simp add: SystemCall_def to_int32_small del: length_concat)
  have sz: "BufferViewList_size vs = ?n" using assms(3) by (intro view_size) simp
  obtain vs' where vs': "BufferViewList_remove_prefix vs ?n = Inr vs'" "concat vs' = []"
    using BufferViewList_remove_prefix_Inr[of ?n vs] assms(3) by auto
  have sz': "BufferViewList_size vs' = 0" using view_size[of vs', unfolded vs'(2)] by simp
  have t: "to_size_t (int ?n) = ?n" "to_int64 (int ?n) = int ?n" using assms(3)
    by (simp_all add: to_size_t_nat to_int64_small del: length_concat)
  have "FileDescriptor_write_loop writev True w k vs 0 = Inr (?n, register_write w, k')"
    using assms(2,3) k'(1) sc sz sz' vs'(1) t
    by (subst FileDescriptor_write_loop.simps) (simp add: Let_def iov add64_exact del: length_concat)
  then show ?thesis using k'(2) by (simp add: FileDescriptor_write_def)
qed

lemma packet_read:
  assumes "reads_packet sys_read p k" "0 < length p" "length p \<le> 65535"
  shows "\<exists>w' k'. FileDescriptor_read sys_read w SIZE_MAX k = Inr (p, w', k')"
proof -
  have m: "min BUFFER_SIZE SIZE_MAX = BUFFER_SIZE" by (simp add: BUFFER_SIZE_def SIZE_MAX_def)
  from assms(1) obtain errno junk k' where "sys_read k BUFFER_SIZE = (((int (length p), errno), p @ junk), k')"
    unfolding reads_packet_def by blast
  moreover have "SystemCall ''read'' (int (length p), errno) 0 = Inr (int (length p))"
    using assms(3) by (simp add: SystemCall_def to_int32_small)
  moreover have "\<not> int (length p) > int BUFFER_SIZE" using assms(3) by (simp add: BUFFER_SIZE_def)
  ultimately show ?thesis using assms(2) by (simp add: FileDescriptor_read_def m Let_def string_resize_def)
qed

section \<open>Properties\<close>

text \<open>C6: a segment written by one TUN adapter and read by the adapter at the other end arrives: the writer sends
  exactly one packet, and a reader configured with the same two endpoints, not listening, delivers from that
  packet a segment with the same payload and the same header fields, up to the checksum and the ports, which are
  those of the connection.\<close>

theorem tun_adapter_roundtrip:
  assumes "packet_device writev sent" and "between (tn_base a) ip port ip' port'"
    and "between (tn_base a') ip' port' ip port" and "\<not> fa_listen (tn_base a')" and "seg_fits seg"
  shows "\<exists>a1 seg1 k1 p. TunAdapter_write writev a seg k = Inr (a1, seg1, k1) \<and> sent k1 = sent k @ [p] \<and>
    (\<forall>sys_read kr. reads_packet sys_read p kr \<longrightarrow>
       (\<exists>seg' a2 k2. TunAdapter_read getaddrinfo sys_read a' kr = Inr (Some seg', a2, k2) \<and> tn_base a2 = tn_base a' \<and>
          ts_header seg' = (ts_header seg)\<lparr>sport := port, dport := port', cksum := cksum (ts_header seg')\<rparr> \<and>
          Buffer_str (ts_payload seg') = Buffer_str (ts_payload seg)))"
proof -
  let ?s = "with_ports seg port port'"
  have fits: "seg_fits ?s" using assms(5) by simp
  from wrapped_on_wire[OF fits, of ip ip'] obtain bl p pl c seg' where
    ser: "IPv4Datagram_serialize (wrapped ip ip' ?s) = Inr bl" "bl_bytes bl = p" "0 < length p" "length p \<le> 65535"
    and parse: "IPv4Datagram_parse IPv4Datagram_default (Buffer_of p) =
        Inr (\<lparr>dg_header = (wrap_header ip ip' ?s)\<lparr>ip_cksum := c\<rparr>, dg_payload = [pl]\<rparr>, NoError)"
      "TCPSegment_parse TCPSegment_default pl (IPv4Header_pseudo_cksum ((wrap_header ip ip' ?s)\<lparr>ip_cksum := c\<rparr>)) = Inr (seg', NoError)"
    and seg': "ts_header seg' = (ts_header ?s)\<lparr>cksum := cksum (ts_header seg')\<rparr>"
      "Buffer_str (ts_payload seg') = Buffer_str (ts_payload ?s)" by blast
  have "concat (BufferViewList_of_BufferList bl) = p" using ser(2) by simp
  from packet_write[OF assms(1), of "BufferViewList_of_BufferList bl", unfolded this, OF ser(3,4), of "tn_tun a" k]
  obtain w1 k1 where w: "FileDescriptor_write writev (tn_tun a) k (BufferViewList_of_BufferList bl) True = Inr (length p, w1, k1)"
    "sent k1 = sent k @ [p]" by blast
  have wr: "TunAdapter_write writev a seg k = Inr (a\<lparr>tn_tun := w1\<rparr>, ?s, k1)"
    using wrap_ok[OF assms(2,5)] ser(1) w(1) by (simp add: TunAdapter_write_def)
  have ports: "sport (ts_header seg') = port" "dport (ts_header seg') = port'" by (subst seg'(1), simp)+
  have hs: "ts_header seg' = (ts_header seg)\<lparr>sport := port, dport := port', cksum := cksum (ts_header seg')\<rparr>"
    using seg'(1) by (simp add: with_ports_def)
  have u: "unwrap_tcp_in_ip getaddrinfo (tn_base a') \<lparr>dg_header = (wrap_header ip ip' ?s)\<lparr>ip_cksum := c\<rparr>, dg_payload = [pl]\<rparr> =
      Inr (Some seg', tn_base a')"
    using unwrap_not_listening[OF assms(3,4), of "\<lparr>dg_header = (wrap_header ip ip' ?s)\<lparr>ip_cksum := c\<rparr>, dg_payload = [pl]\<rparr>" pl
        seg' NoError getaddrinfo] parse(2) ports by simp
  have pls: "Buffer_str (ts_payload seg') = Buffer_str (ts_payload seg)" using seg'(2) by simp
  have rd: "\<exists>seg' a2 k2. TunAdapter_read getaddrinfo sys_read a' kr = Inr (Some seg', a2, k2) \<and> tn_base a2 = tn_base a' \<and>
          ts_header seg' = (ts_header seg)\<lparr>sport := port, dport := port', cksum := cksum (ts_header seg')\<rparr> \<and>
          Buffer_str (ts_payload seg') = Buffer_str (ts_payload seg)" if r: "reads_packet sys_read p kr" for sys_read kr
  proof -
    obtain w2 k2 where "FileDescriptor_read sys_read (tn_tun a') SIZE_MAX kr = Inr (p, w2, k2)"
      using packet_read[OF r ser(3,4)] by blast
    then have "TunAdapter_read getaddrinfo sys_read a' kr = Inr (Some seg', a'\<lparr>tn_tun := w2, tn_base := tn_base a'\<rparr>, k2)"
      using parse(1) u by (simp add: TunAdapter_read_def Let_def)
    moreover have "tn_base (a'\<lparr>tn_tun := w2, tn_base := tn_base a'\<rparr>) = tn_base a'" by simp
    ultimately show ?thesis using hs pls by (intro exI conjI)
  qed
  show ?thesis by (rule exI, rule exI, rule exI, rule exI, rule conjI, rule wr, rule conjI, rule w(2), intro allI impI, erule rd)
qed

definition example_base :: "u32 \<Rightarrow> u16 \<Rightarrow> u32 \<Rightarrow> u16 \<Rightarrow> bool \<Rightarrow> fd_adapter_base" where
  "example_base ip port ip' port' l =
     \<lparr>fa_cfg = \<lparr>cfg_source = ipv4_address ip port, cfg_destination = ipv4_address ip' port', cfg_loss_rate_dn = 0, cfg_loss_rate_up = 0\<rparr>,
      fa_listen = l\<rparr>"

definition example_fd :: fd_wrapper where
  "example_fd = \<lparr>fd_num = 3, fd_eof = False, fd_closed = False, fd_read_count = 0, fd_write_count = 0\<rparr>"

text \<open>A device whose state is the list of packets on the wire.\<close>

definition wire_writev :: "byte list list \<Rightarrow> byte list list \<Rightarrow> sys_ret \<times> byte list list" where
  "wire_writev k iov = ((int (length (concat iov)), 0), k @ [concat iov])"

definition wire_read :: "byte list list \<Rightarrow> u64 \<Rightarrow> (sys_ret \<times> byte list) \<times> byte list list" where
  "wire_read k n = (((int (length (hd k)), 0), hd k), tl k)"

lemma wire_packet_device: "packet_device wire_writev (\<lambda>k. k)"
  by (simp add: packet_device_def wire_writev_def)

lemma wire_reads_packet: "reads_packet wire_read p [p]"
  by (simp add: reads_packet_def wire_read_def)

definition example_seg :: tcp_segment where
  "example_seg = \<lparr>ts_header = TCPHeader_default\<lparr>syn := True, seqno := 7\<rparr>, ts_payload = Buffer_of [1, 2, 3]\<rparr>"

lemma example_seg_fits: "seg_fits example_seg"
  by (simp add: seg_fits_def example_seg_def TCPHeader_default_def tcp_header_valid_def)

theorem tun_adapter_roundtrip_witness:
  "\<exists>a1 seg1 p seg' a2 k2.
     TunAdapter_write wire_writev \<lparr>tn_base = example_base 5 50 6 60 False, tn_tun = example_fd\<rparr> example_seg [] = Inr (a1, seg1, [p]) \<and>
     TunAdapter_read (\<lambda>_ _ _. Inr []) wire_read \<lparr>tn_base = example_base 6 60 5 50 False, tn_tun = example_fd\<rparr> [p] =
       Inr (Some seg', a2, k2) \<and>
     sport (ts_header seg') = 50 \<and> dport (ts_header seg') = 60 \<and> syn (ts_header seg') \<and> Buffer_str (ts_payload seg') = [1, 2, 3]"
proof -
  let ?a = "\<lparr>tn_base = example_base 5 50 6 60 False, tn_tun = example_fd\<rparr>"
  let ?b = "\<lparr>tn_base = example_base 6 60 5 50 False, tn_tun = example_fd\<rparr>"
  have "between (tn_base ?a) 5 50 6 60" "between (tn_base ?b) 6 60 5 50" "\<not> fa_listen (tn_base ?b)"
    by (simp_all add: between_def example_base_def)
  note rt = tun_adapter_roundtrip[OF wire_packet_device this example_seg_fits]
  have ex: "\<exists>a1 seg1 k1 p. TunAdapter_write wire_writev ?a example_seg [] = Inr (a1, seg1, k1) \<and> k1 = [] @ [p] \<and>
    (\<forall>sys_read (kr :: byte list list). reads_packet sys_read p kr \<longrightarrow>
       (\<exists>seg' a2 k2. TunAdapter_read (\<lambda>_ _ _. Inr []) sys_read ?b kr = Inr (Some seg', a2, k2) \<and> tn_base a2 = tn_base ?b \<and>
          ts_header seg' = (ts_header example_seg)\<lparr>sport := 50, dport := 60, cksum := cksum (ts_header seg')\<rparr> \<and>
          Buffer_str (ts_payload seg') = Buffer_str (ts_payload example_seg)))" by (rule rt)
  show ?thesis
  proof (rule exE[OF ex], elim exE conjE)
    fix a1 seg1 k1 p
    assume w: "TunAdapter_write wire_writev ?a example_seg [] = Inr (a1, seg1, k1)" "k1 = [] @ [p]"
      and r: "\<forall>sys_read (kr :: byte list list). reads_packet sys_read p kr \<longrightarrow>
       (\<exists>seg' a2 k2. TunAdapter_read (\<lambda>_ _ _. Inr []) sys_read ?b kr = Inr (Some seg', a2, k2) \<and> tn_base a2 = tn_base ?b \<and>
          ts_header seg' = (ts_header example_seg)\<lparr>sport := 50, dport := 60, cksum := cksum (ts_header seg')\<rparr> \<and>
          Buffer_str (ts_payload seg') = Buffer_str (ts_payload example_seg))"
    from r[rule_format, OF wire_reads_packet[of p]] show ?thesis
    proof (elim exE conjE)
      fix seg' a2 k2
      assume s: "TunAdapter_read (\<lambda>_ _ _. Inr []) wire_read ?b [p] = Inr (Some seg', a2, k2)"
        "ts_header seg' = (ts_header example_seg)\<lparr>sport := 50, dport := 60, cksum := cksum (ts_header seg')\<rparr>"
        "Buffer_str (ts_payload seg') = Buffer_str (ts_payload example_seg)"
      have "sport (ts_header seg') = 50 \<and> dport (ts_header seg') = 60 \<and> syn (ts_header seg')"
        by (subst s(2), subst s(2), subst s(2)) (simp add: example_seg_def)
      then show ?thesis using w s(1,3)
        by (intro exI[of _ a1] exI[of _ seg1] exI[of _ p] exI[of _ seg'] exI[of _ a2] exI[of _ k2]) (simp add: example_seg_def)
    qed
  qed
qed

text \<open>C28: an adapter that is not listening delivers a segment from a datagram exactly when the datagram is from
  the peer's address to its own, claims TCP, parses as a segment whose checksum over the pseudo-header
  verifies, and the ports are the peer's and its own; its configuration stays as it is either way.\<close>

theorem unwrap_delivers_iff:
  assumes "between b ip port ip' port'" and "\<not> fa_listen b" and "dg_payload d = [pl]"
    and "TCPSegment_parse TCPSegment_default pl (IPv4Header_pseudo_cksum (dg_header d)) = Inr (seg, res)"
  shows "\<exists>out. unwrap_tcp_in_ip getaddrinfo b d = Inr (out, b) \<and>
    out = (if ip_dst (dg_header d) = ip \<and> ip_src (dg_header d) = ip' \<and> ip_proto (dg_header d) = PROTO_TCP \<and> res = NoError \<and>
              dport (ts_header seg) = port \<and> sport (ts_header seg) = port' then Some seg else None)"
  using unwrap_not_listening[OF assms] by simp

theorem unwrap_delivers_iff_witness:
  "\<exists>pl seg res. TCPSegment_parse TCPSegment_default pl (IPv4Header_pseudo_cksum (wrap_header 5 6 example_seg)) = Inr (seg, res) \<and>
     res = NoError \<and>
     unwrap_tcp_in_ip (\<lambda>_ _ _. Inr []) (example_base 6 9 5 8 False)
       \<lparr>dg_header = wrap_header 5 6 example_seg, dg_payload = [pl]\<rparr> = Inr (None, example_base 6 9 5 8 False)"
proof -
  let ?d = "IPv4Header_pseudo_cksum (wrap_header 5 6 example_seg)"
  let ?bs = "tcp_header_bytes ((ts_header example_seg)\<lparr>cksum := tcp_checksum example_seg ?d\<rparr>) @ Buffer_str (ts_payload example_seg)"
  have v: "tcp_header_valid (ts_header example_seg)"
    and l: "4 * unat (doff (ts_header example_seg)) + length (Buffer_str (ts_payload example_seg)) \<le> 65535"
    using example_seg_fits by (auto simp: seg_fits_def)
  have "length ?bs = 4 * unat (doff (ts_header example_seg)) + 3"
    using length_tcp_header[of "(ts_header example_seg)\<lparr>cksum := tcp_checksum example_seg ?d\<rparr>"] v by (simp add: example_seg_def)
  then have "buffer_wf (Buffer_of ?bs)" using l by simp
  from tcp_segment_parses[OF v l wrap_pseudo_bound[OF example_seg_fits] this, where ?seg0.0 = TCPSegment_default]
  obtain pl' where p: "TCPSegment_parse TCPSegment_default (Buffer_of ?bs) ?d =
      Inr (\<lparr>ts_header = (ts_header example_seg)\<lparr>cksum := tcp_checksum example_seg ?d\<rparr>, ts_payload = pl'\<rparr>, NoError)" by auto
  have b: "between (example_base 6 9 5 8 False) 6 9 5 8" "\<not> fa_listen (example_base 6 9 5 8 False)"
    by (simp_all add: between_def example_base_def)
  from unwrap_delivers_iff[OF b, of "\<lparr>dg_header = wrap_header 5 6 example_seg, dg_payload = [Buffer_of ?bs]\<rparr>" "Buffer_of ?bs"
      _ _ "\<lambda>_ _ _. Inr []"] p
  have "unwrap_tcp_in_ip (\<lambda>_ _ _. Inr []) (example_base 6 9 5 8 False)
       \<lparr>dg_header = wrap_header 5 6 example_seg, dg_payload = [Buffer_of ?bs]\<rparr> = Inr (None, example_base 6 9 5 8 False)"
    by (simp add: example_seg_def TCPHeader_default_def)
  with p show ?thesis by blast
qed

lemma unwrap_syn:
  assumes "cfg_source (fa_cfg b) = ipv4_address ip0 port" and "fa_listen b" and "dg_payload d = [pl]"
    and "TCPSegment_parse TCPSegment_default pl (IPv4Header_pseudo_cksum (dg_header d)) = Inr (seg, NoError)"
    and "ip_proto (dg_header d) = PROTO_TCP" and "dport (ts_header seg) = port"
    and "syn (ts_header seg)" and "\<not> rst (ts_header seg)"
    and "resolves getaddrinfo (ip_dst (dg_header d)) port" and "resolves getaddrinfo (ip_src (dg_header d)) (sport (ts_header seg))"
  shows "\<exists>b'. unwrap_tcp_in_ip getaddrinfo b d = Inr (Some seg, b') \<and> \<not> fa_listen b' \<and>
    between b' (ip_dst (dg_header d)) port (ip_src (dg_header d)) (sport (ts_header seg))"
  using assms
  by (simp add: unwrap_tcp_in_ip_def FdAdapterBase_config_def FdAdapterBase_listening_def unwrap_listening_def
      FdAdapterBase_set_listening_def between_def resolve_ok Let_def)

text \<open>C29: a listening TUN adapter that reads a SYN for its port takes the two endpoints of that segment, provided
  the resolver understands numeric addresses: it delivers the segment, stops listening, and from
  then on no sequence of reads and writes changes the endpoints again.\<close>

theorem listening_adapter_accepts:
  assumes "cfg_source (fa_cfg (tn_base a)) = ipv4_address ip0 port" and "fa_listen (tn_base a)"
    and "FileDescriptor_read sys_read (tn_tun a) SIZE_MAX k = Inr (bytes, w, k1)"
    and "IPv4Datagram_parse IPv4Datagram_default (Buffer_of bytes) = Inr (\<lparr>dg_header = h, dg_payload = [pl]\<rparr>, NoError)"
    and "TCPSegment_parse TCPSegment_default pl (IPv4Header_pseudo_cksum h) = Inr (seg, NoError)"
    and "ip_proto h = PROTO_TCP" and "dport (ts_header seg) = port" and "syn (ts_header seg)" and "\<not> rst (ts_header seg)"
    and "resolves getaddrinfo (ip_dst h) port" and "resolves getaddrinfo (ip_src h) (sport (ts_header seg))"
  shows "\<exists>a1. TunAdapter_read getaddrinfo sys_read a k = Inr (Some seg, a1, k1) \<and>
    (\<forall>ops a2 k2 rs. run_steps (adapter_step (TunAdapter_read getaddrinfo sys_read) (TunAdapter_write writev)) (a1, k1, [seg]) ops =
        Inr (a2, k2, rs) \<longrightarrow> \<not> fa_listen (tn_base a2) \<and> between (tn_base a2) (ip_dst h) port (ip_src h) (sport (ts_header seg)))"
proof -
  let ?d = "\<lparr>dg_header = h, dg_payload = [pl]\<rparr>"
  obtain b' where b': "unwrap_tcp_in_ip getaddrinfo (tn_base a) ?d = Inr (Some seg, b')" "\<not> fa_listen b'"
    "between b' (ip_dst h) port (ip_src h) (sport (ts_header seg))"
    using unwrap_syn[of "tn_base a" ip0 port ?d pl seg getaddrinfo] assms by auto
  let ?a1 = "a\<lparr>tn_tun := w, tn_base := b'\<rparr>"
  have r: "TunAdapter_read getaddrinfo sys_read a k = Inr (Some seg, ?a1, k1)"
    using assms(3,4) b'(1) by (simp add: TunAdapter_read_def Let_def)
  then show ?thesis using tun.latched_forever[OF r] b'(2,3) by (intro exI[of _ ?a1]) auto
qed

text \<open>C30: a lossy adapter whose loss rates are zero is equivalent to the adapter it wraps: every sequence of
  reads and writes leads to the same adapter, the same kernel state and the same delivered segments, and draws
  no random number.\<close>

theorem lossless_adapter_equivalent:
  assumes "loss_rates (tn_base a) = (0, 0)"
  shows "run_steps (adapter_step (Lossy_read rand (\<lambda>a. fa_cfg (tn_base a)) (TunAdapter_read getaddrinfo sys_read))
        (Lossy_write rand (\<lambda>a. fa_cfg (tn_base a)) (TunAdapter_write writev))) (\<lparr>lo_rand = g, lo_adapter = a\<rparr>, k, rs) ops =
    rbind (run_steps (adapter_step (TunAdapter_read getaddrinfo sys_read) (TunAdapter_write writev)) (a, k, rs) ops)
      (\<lambda>(a, k, rs). Inr (\<lparr>lo_rand = g, lo_adapter = a\<rparr>, k, rs))"
  using assms by (rule tun.lossless_run)


text \<open>A resolver that knows two addresses.\<close>

definition example_resolver :: resolver where
  "example_resolver node service hints = Inr [if node = inet_ntoa_string 5 then ipv4_address 5 50 else ipv4_address 6 60]"

lemma example_resolves: "resolves example_resolver 5 50" "resolves example_resolver 6 60"
  by (simp_all add: resolves_def example_resolver_def inet_ntoa_string_def dec_string_def digits_in.simps digit_char_def)

theorem listening_adapter_accepts_witness:
  "\<exists>p seg' a1. TunAdapter_read example_resolver wire_read \<lparr>tn_base = example_base 0 60 0 0 True, tn_tun = example_fd\<rparr> [p] =
     Inr (Some seg', a1, []) \<and>
     (\<forall>ops a2 k2 rs. run_steps (adapter_step (TunAdapter_read example_resolver wire_read) (TunAdapter_write wire_writev))
        (a1, [], [seg']) ops = Inr (a2, k2, rs) \<longrightarrow> \<not> fa_listen (tn_base a2) \<and> between (tn_base a2) 6 60 5 50)"
proof -
  let ?s = "with_ports example_seg 50 60"
  let ?a = "\<lparr>tn_base = example_base 0 60 0 0 True, tn_tun = example_fd\<rparr>"
  have "seg_fits ?s" using example_seg_fits by simp
  from wrapped_on_wire[OF this, of 5 6] obtain bl p pl c seg' where
    p: "0 < length p" "length p \<le> 65535"
      "IPv4Datagram_parse IPv4Datagram_default (Buffer_of p) =
         Inr (\<lparr>dg_header = (wrap_header 5 6 ?s)\<lparr>ip_cksum := c\<rparr>, dg_payload = [pl]\<rparr>, NoError)"
      "TCPSegment_parse TCPSegment_default pl (IPv4Header_pseudo_cksum ((wrap_header 5 6 ?s)\<lparr>ip_cksum := c\<rparr>)) = Inr (seg', NoError)"
      "ts_header seg' = (ts_header ?s)\<lparr>cksum := cksum (ts_header seg')\<rparr>" by auto
  have f: "dport (ts_header seg') = 60" "syn (ts_header seg')" "\<not> rst (ts_header seg')" "sport (ts_header seg') = 50"
    by (subst p(5), simp add: with_ports_def example_seg_def TCPHeader_default_def)+
  have r: "FileDescriptor_read wire_read (tn_tun ?a) SIZE_MAX [p] = Inr (p, register_read example_fd, [])"
    using p(1,2) by (simp add: FileDescriptor_read_def wire_read_def SystemCall_def to_int32_small string_resize_def
        BUFFER_SIZE_def SIZE_MAX_def)
  have src: "cfg_source (fa_cfg (tn_base ?a)) = ipv4_address 0 60" "fa_listen (tn_base ?a)" by (simp_all add: example_base_def)
  from listening_adapter_accepts[OF src r p(3,4) _ f(1,2,3), where writev = wire_writev and getaddrinfo = example_resolver]
    f(4) example_resolves show ?thesis by auto
qed

theorem lossless_adapter_equivalent_witness:
  "run_steps (adapter_step (Lossy_read (\<lambda>g. (g, g + 1)) (\<lambda>a. fa_cfg (tn_base a)) (TunAdapter_read example_resolver wire_read))
        (Lossy_write (\<lambda>g. (g, g + 1)) (\<lambda>a. fa_cfg (tn_base a)) (TunAdapter_write wire_writev)))
      (\<lparr>lo_rand = 4, lo_adapter = \<lparr>tn_base = example_base 5 50 6 60 False, tn_tun = example_fd\<rparr>\<rparr>, [], []) [AD_write example_seg, AD_read] =
    rbind (run_steps (adapter_step (TunAdapter_read example_resolver wire_read) (TunAdapter_write wire_writev))
        (\<lparr>tn_base = example_base 5 50 6 60 False, tn_tun = example_fd\<rparr>, [], []) [AD_write example_seg, AD_read])
      (\<lambda>(a, k, rs). Inr (\<lparr>lo_rand = 4, lo_adapter = a\<rparr>, k, rs))"
proof -
  have "loss_rates (tn_base \<lparr>tn_base = example_base 5 50 6 60 False, tn_tun = example_fd\<rparr>) = (0, 0)"
    by (simp add: loss_rates_def example_base_def)
  from lossless_adapter_equivalent[OF this] show ?thesis .
qed

end
