(* ===== verification/Event_Loop.thy ===== *)
theory Event_Loop
  imports File_Descriptor "HOL-Library.Sublist"
begin

text \<open>
  The event loop (\<open>libsponge/util/eventloop.hh\<close>, \<open>.cc\<close>).  The callbacks of a rule work on the state \<open>'s\<close> of the
  program that installed it, which also holds the file descriptors: a rule names its descriptor by a
  number, and \<open>wrapper\<close> looks up the shared \<open>FDWrapper\<close> in the state, so a callback's changes to it are
  seen by every rule on the same descriptor.  \<open>poll\<close> is an argument: it gives the value returned with
  \<open>errno\<close>, what it stored in \<open>revents\<close> of each entry, and the state after the wait.
\<close>

section \<open>Rules\<close>

datatype direction = Direction_In | Direction_Out

definition POLLIN :: u16 where
  "POLLIN = 0x001"

definition POLLOUT :: u16 where
  "POLLOUT = 0x004"

definition POLLERR :: u16 where
  "POLLERR = 0x008"

definition POLLHUP :: u16 where
  "POLLHUP = 0x010"

definition POLLNVAL :: u16 where
  "POLLNVAL = 0x020"

definition EINTR :: int where
  "EINTR = 4"

definition direction_events :: "direction \<Rightarrow> u16" where
  "direction_events d = (case d of Direction_In \<Rightarrow> POLLIN | Direction_Out \<Rightarrow> POLLOUT)"

record 's rule =
  rl_fd :: nat
  rl_direction :: direction
  rl_callback :: "'s \<Rightarrow> 's result"
  rl_interest :: "'s \<Rightarrow> bool"
  rl_cancel :: "'s \<Rightarrow> 's result"

record 's event_loop =
  el_rules :: "'s rule list"

datatype el_result = EL_Success | EL_Timeout | EL_Exit

definition Rule_service_count :: "('s \<Rightarrow> nat \<Rightarrow> fd_wrapper) \<Rightarrow> 's rule \<Rightarrow> 's \<Rightarrow> u32" where
  "Rule_service_count wrapper r s =
     (if rl_direction r = Direction_In then fd_read_count (wrapper s (rl_fd r)) else fd_write_count (wrapper s (rl_fd r)))"

definition EventLoop_add_rule ::
  "'s event_loop \<Rightarrow> nat \<Rightarrow> direction \<Rightarrow> ('s \<Rightarrow> 's result) \<Rightarrow> ('s \<Rightarrow> bool) \<Rightarrow> ('s \<Rightarrow> 's result) \<Rightarrow> 's event_loop" where
  "EventLoop_add_rule el fd direction callback interest cancel =
     el\<lparr>el_rules := el_rules el @ [\<lparr>rl_fd = fd, rl_direction = direction, rl_callback = callback,
         rl_interest = interest, rl_cancel = cancel\<rparr>]\<rparr>"

section \<open>wait_next_event\<close>

record pollfd =
  pf_fd :: int
  pf_events :: u16
  pf_revents :: u16

text \<open>The first loop: cancel the rules whose descriptor is finished, collect the entries for the others.\<close>

fun EventLoop_setup ::
  "('s \<Rightarrow> nat \<Rightarrow> fd_wrapper) \<Rightarrow> 's rule list \<Rightarrow> 's \<Rightarrow> ('s rule list \<times> pollfd list \<times> bool \<times> 's) result" where
  "EventLoop_setup wrapper [] s = Inr ([], [], False, s)"
| "EventLoop_setup wrapper (this_rule # rules) s =
     (let fd = wrapper s (rl_fd this_rule) in
      if rl_direction this_rule = Direction_In \<and> fd_eof fd
      then rbind (rl_cancel this_rule s) (\<lambda>s. EventLoop_setup wrapper rules s)
      else if fd_closed fd
      then rbind (rl_cancel this_rule s) (\<lambda>s. EventLoop_setup wrapper rules s)
      else let interested = rl_interest this_rule s;
               entry = \<lparr>pf_fd = fd_num fd, pf_events = (if interested then direction_events (rl_direction this_rule) else 0),
                        pf_revents = 0\<rparr>
           in rbind (EventLoop_setup wrapper rules s) (\<lambda>(rules, pollfds, something_to_poll, s).
                Inr (this_rule # rules, entry # pollfds, interested \<or> something_to_poll, s)))"

definition fill_revents :: "(nat \<Rightarrow> u16) \<Rightarrow> pollfd list \<Rightarrow> pollfd list" where
  "fill_revents revents pollfds = map (\<lambda>(i, p). p\<lparr>pf_revents := revents i\<rparr>) (enumerate 0 pollfds)"

definition poll_error :: "pollfd \<Rightarrow> bool" where
  "poll_error p \<longleftrightarrow> and (pf_revents p) (or POLLERR POLLNVAL) \<noteq> 0"

definition poll_ready :: "pollfd \<Rightarrow> bool" where
  "poll_ready p \<longleftrightarrow> and (pf_revents p) (pf_events p) \<noteq> 0"

definition poll_hup :: "pollfd \<Rightarrow> bool" where
  "poll_hup p \<longleftrightarrow> and (pf_revents p) POLLHUP \<noteq> 0"

text \<open>Calling back a ready rule, with the check for a busy wait.\<close>

definition EventLoop_call :: "('s \<Rightarrow> nat \<Rightarrow> fd_wrapper) \<Rightarrow> 's rule \<Rightarrow> 's \<Rightarrow> 's result" where
  "EventLoop_call wrapper this_rule s =
     (let count_before = Rule_service_count wrapper this_rule s
      in rbind (rl_callback this_rule s) (\<lambda>s.
         if count_before = Rule_service_count wrapper this_rule s \<and> rl_interest this_rule s
         then Inl (Runtime_error (''EventLoop: busy wait detected: callback did not read/write fd '' @
                                  ''and is still interested''))
         else Inr s))"

text \<open>The second loop, over the rules and their entries.\<close>

fun EventLoop_dispatch ::
  "('s \<Rightarrow> nat \<Rightarrow> fd_wrapper) \<Rightarrow> 's rule list \<Rightarrow> pollfd list \<Rightarrow> 's \<Rightarrow> ('s rule list \<times> 's) result" where
  "EventLoop_dispatch wrapper [] pollfds s = Inr ([], s)"
| "EventLoop_dispatch wrapper (this_rule # rules) [] s = Inl (Undefined_behaviour ''pollfds[idx] out of range'')"
| "EventLoop_dispatch wrapper (this_rule # rules) (this_pollfd # pollfds) s =
     (if poll_error this_pollfd then Inl (Runtime_error ''EventLoop: error on polled file descriptor'')
      else if poll_hup this_pollfd \<and> pf_events this_pollfd \<noteq> 0 \<and> \<not> poll_ready this_pollfd
      then rbind (rl_cancel this_rule s) (\<lambda>s. EventLoop_dispatch wrapper rules pollfds s)
      else rbind (if poll_ready this_pollfd then EventLoop_call wrapper this_rule s else Inr s) (\<lambda>s.
           rbind (EventLoop_dispatch wrapper rules pollfds s) (\<lambda>(rules, s). Inr (this_rule # rules, s))))"

text \<open>An error of \<open>poll\<close> other than an interrupt is caught and dropped.\<close>

definition EventLoop_wait_next_event ::
  "('s \<Rightarrow> nat \<Rightarrow> fd_wrapper) \<Rightarrow> ('s \<Rightarrow> pollfd list \<Rightarrow> int \<Rightarrow> sys_ret \<times> (nat \<Rightarrow> u16) \<times> 's) \<Rightarrow> int \<Rightarrow>
   's event_loop \<times> 's \<Rightarrow> (el_result \<times> 's event_loop \<times> 's) result" where
  "EventLoop_wait_next_event wrapper poll timeout_ms els =
     (case els of (el, s) \<Rightarrow>
      rbind (EventLoop_setup wrapper (el_rules el) s) (\<lambda>(rules, pollfds, something_to_poll, s).
      if \<not> something_to_poll then Inr (EL_Exit, el\<lparr>el_rules := rules\<rparr>, s)
      else case poll s pollfds timeout_ms of (sr, revents, s) \<Rightarrow>
        let go_through = rbind (EventLoop_dispatch wrapper rules (fill_revents revents pollfds) s) (\<lambda>(rules, s).
                           Inr (EL_Success, el\<lparr>el_rules := rules\<rparr>, s))
        in case SystemCall ''poll'' sr 0 of
             Inr n \<Rightarrow> if n = 0 then Inr (EL_Timeout, el\<lparr>el_rules := rules\<rparr>, s) else go_through
           | Inl e \<Rightarrow> if e = Unix_error ''poll'' EINTR then Inr (EL_Exit, el\<lparr>el_rules := rules\<rparr>, s) else go_through))"

section \<open>What a wait does, abstractly\<close>

text \<open>
  The results of \<open>poll\<close> determine a list of actions, in the order of the rules: cancel a rule whose
  descriptor only hung up, call back a rule whose descriptor is ready.
\<close>

datatype 's el_action = EL_cancel "'s rule" | EL_call "'s rule"

definition hung_up :: "pollfd \<Rightarrow> bool" where
  "hung_up p \<longleftrightarrow> poll_hup p \<and> pf_events p \<noteq> 0 \<and> \<not> poll_ready p"

definition poll_actions :: "'s rule list \<Rightarrow> pollfd list \<Rightarrow> 's el_action list" where
  "poll_actions rules pollfds =
     concat (map2 (\<lambda>r p. if hung_up p then [EL_cancel r] else if poll_ready p then [EL_call r] else []) rules pollfds)"

definition poll_survivors :: "'s rule list \<Rightarrow> pollfd list \<Rightarrow> 's rule list" where
  "poll_survivors rules pollfds = map fst (filter (\<lambda>(r, p). \<not> hung_up p) (zip rules pollfds))"

fun el_do :: "('s \<Rightarrow> nat \<Rightarrow> fd_wrapper) \<Rightarrow> 's \<Rightarrow> 's el_action \<Rightarrow> 's result" where
  "el_do wrapper s (EL_cancel r) = rl_cancel r s"
| "el_do wrapper s (EL_call r) = EventLoop_call wrapper r s"

lemma dispatch_refines:
  "length pollfds = length rules \<Longrightarrow> \<not> list_ex poll_error pollfds \<Longrightarrow>
   EventLoop_dispatch wrapper rules pollfds s =
     rbind (run_steps (el_do wrapper) s (poll_actions rules pollfds)) (\<lambda>s'. Inr (poll_survivors rules pollfds, s'))"
proof (induction wrapper rules pollfds s rule: EventLoop_dispatch.induct)
  case (3 wrapper r rules p pollfds s)
  show ?case
  proof (cases "hung_up p")
    case True
    with 3 show ?thesis
      by (cases "rl_cancel r s") (simp_all add: poll_actions_def poll_survivors_def hung_up_def)
  next
    case nh: False
    then have c: "\<not> (poll_hup p \<and> pf_events p \<noteq> 0 \<and> \<not> poll_ready p)" by (simp add: hung_up_def)
    show ?thesis
    proof (cases "poll_ready p")
      case True
      show ?thesis
      proof (cases "EventLoop_call wrapper r s")
        case (Inr s1)
        have ih: "EventLoop_dispatch wrapper rules pollfds s1 =
            rbind (run_steps (el_do wrapper) s1 (poll_actions rules pollfds)) (\<lambda>s'. Inr (poll_survivors rules pollfds, s'))"
          using 3 True Inr c by simp
        show ?thesis using 3(4) True Inr c nh
          by (cases "run_steps (el_do wrapper) s1 (poll_actions rules pollfds)")
            (simp_all add: ih poll_actions_def poll_survivors_def)
      qed (use 3(4) True c nh in \<open>simp add: poll_actions_def\<close>)
    next
      case False
      have ih: "EventLoop_dispatch wrapper rules pollfds s =
          rbind (run_steps (el_do wrapper) s (poll_actions rules pollfds)) (\<lambda>s'. Inr (poll_survivors rules pollfds, s'))"
        using 3 False c by simp
      show ?thesis using 3(4) False c nh
        by (cases "run_steps (el_do wrapper) s (poll_actions rules pollfds)")
          (auto simp: ih poll_actions_def poll_survivors_def)
    qed
  qed
qed (simp_all add: poll_actions_def poll_survivors_def)

lemma direction_events_nonzero [simp]: "direction_events d \<noteq> 0"
  by (cases d) (simp_all add: direction_events_def POLLIN_def POLLOUT_def)

lemma setup_aligned:
  "EventLoop_setup wrapper rules s = Inr (rules', pollfds, some, s') \<Longrightarrow>
   length pollfds = length rules' \<and> subseq rules' rules \<and> (some \<longleftrightarrow> (\<exists>p\<in>set pollfds. pf_events p \<noteq> 0)) \<and>
   (\<forall>p\<in>set pollfds. pf_revents p = 0)"
proof (induction wrapper rules s arbitrary: rules' pollfds some s' rule: EventLoop_setup.induct)
  case (2 wrapper r rules s)
  let ?fd = "wrapper s (rl_fd r)"
  consider "rl_direction r = Direction_In \<and> fd_eof ?fd" | "\<not> (rl_direction r = Direction_In \<and> fd_eof ?fd)" "fd_closed ?fd"
    | "\<not> (rl_direction r = Direction_In \<and> fd_eof ?fd)" "\<not> fd_closed ?fd" by blast
  then show ?case
  proof cases
    case 1
    with 2(4) obtain s1 where "rl_cancel r s = Inr s1" "EventLoop_setup wrapper rules s1 = Inr (rules', pollfds, some, s')"
      by (auto simp: rbind_Inr_conv)
    with 2(1)[OF refl 1] show ?thesis by (auto intro: list_emb_Cons)
  next
    case c: 2
    with 2(4) obtain s1 where "rl_cancel r s = Inr s1" "EventLoop_setup wrapper rules s1 = Inr (rules', pollfds, some, s')"
      by (auto simp: rbind_Inr_conv)
    with 2(2)[OF refl c] show ?thesis by (auto intro: list_emb_Cons)
  next
    case c: 3
    with 2(4) obtain rs ps t s1 where "EventLoop_setup wrapper rules s = Inr (rs, ps, t, s1)" "rules' = r # rs"
      "pollfds = \<lparr>pf_fd = fd_num ?fd, pf_events = (if rl_interest r s then direction_events (rl_direction r) else 0), pf_revents = 0\<rparr> # ps"
      "some = (rl_interest r s \<or> t)" by (auto simp: rbind_Inr_conv Let_def)
    with 2(3)[OF refl c refl refl] show ?thesis by auto
  qed
qed simp

lemma fill_length [simp]: "length (fill_revents revents pollfds) = length pollfds"
  by (simp add: fill_revents_def)

section \<open>Properties\<close>


text \<open>A program with one descriptor, whose rule reads it while it is interested in more than two reads.\<close>

definition example_rule :: "fd_wrapper rule" where
  "example_rule = \<lparr>rl_fd = 0, rl_direction = Direction_In, rl_callback = (\<lambda>w. Inr (register_read w)),
     rl_interest = (\<lambda>w. fd_read_count w < 2), rl_cancel = Inr\<rparr>"


text \<open>
  A failed \<open>poll\<close> is not reported: with any \<open>errno\<close> but \<open>EINTR\<close> the wait returns \<open>Success\<close> without having called
  anything, where the documentation promises an exception.
\<close>

lemma poll_error_ignored:
  assumes "EventLoop_setup wrapper (el_rules el) s = Inr (rules, pollfds, True, s1)"
    and "poll s1 pollfds timeout = ((- 1, errno), (\<lambda>_. 0), s1)" and "errno \<noteq> EINTR" and "errno \<noteq> 0"
  shows "EventLoop_wait_next_event wrapper poll timeout (el, s) = Inr (EL_Success, el\<lparr>el_rules := rules\<rparr>, s1)"
proof -
  note al = setup_aligned[OF assms(1)]
  let ?f = "fill_revents (\<lambda>_. 0) pollfds"
  have z: "pf_revents p = 0" if "p \<in> set ?f" for p
    using that by (auto simp: fill_revents_def in_set_enumerate_eq)
  then have n: "\<not> list_ex poll_error ?f" and h: "\<forall>p\<in>set ?f. \<not> hung_up p \<and> \<not> poll_ready p"
    by (auto simp: list_ex_iff poll_error_def hung_up_def poll_hup_def poll_ready_def)
  have a: "poll_actions rules ?f = []" using h by (auto simp: poll_actions_def dest: set_zip_rightD)
  have "filter (\<lambda>(r, p). \<not> hung_up p) (zip rules ?f) = zip rules ?f"
    using h by (auto intro!: filter_True dest: set_zip_rightD)
  then have v: "poll_survivors rules ?f = rules" using al by (simp add: poll_survivors_def)
  have "SystemCall ''poll'' (- 1, errno) 0 = Inl (Unix_error ''poll'' errno)"
    using assms(4) by (simp add: SystemCall_def to_int32_small)
  then show ?thesis
    using assms al dispatch_refines[of ?f rules wrapper s1, OF _ n] a v
    by (simp add: EventLoop_wait_next_event_def)
qed

text \<open>A ready rule whose callback neither uses its descriptor nor loses interest ends the wait with an exception.\<close>

lemma busy_wait_detected:
  assumes "rl_callback r s = Inr s'" and "Rule_service_count wrapper r s' = Rule_service_count wrapper r s"
    and "rl_interest r s'" and "\<not> poll_error p" and "poll_ready p"
  shows "\<exists>what. EventLoop_dispatch wrapper (r # rules) (p # ps) s = Inl (Runtime_error what)"
  using assms by (simp add: EventLoop_call_def)

end
