(* ===== verification/Sponge_Socket.thy ===== *)
theory Sponge_Socket
  imports End_To_End Adapters Event_Loop
begin

text \<open>
  The socket that runs a TCP connection (\<open>tcp_helpers/tcp_sponge_socket.hh\<close>, \<open>.cc\<close>): the four rules of its event
  loop, the loop with its timer, connecting, accepting, the connection thread and the ready-made sockets.
  The class template is over the datagram adapter, whose operations are the record \<open>adapter_ops\<close>.  The kernel is
  the record \<open>kernel\<close> of functions on its state \<open>'k\<close>: the pipe to the owner of the socket, \<open>poll\<close>, the clock, and
  the flag \<open>_abort\<close> that the owner's thread may set at any time.  What the code prints is left out.
\<close>

section \<open>The socket and its surroundings\<close>

record ('a, 'k) adapter_ops =
  ao_read :: "'a \<Rightarrow> 'k \<Rightarrow> (tcp_segment option \<times> 'a \<times> 'k) result"
  ao_write :: "'a \<Rightarrow> tcp_segment \<Rightarrow> 'k \<Rightarrow> ('a \<times> tcp_segment \<times> 'k) result"
  ao_tick :: "u64 \<Rightarrow> 'a \<Rightarrow> 'k \<Rightarrow> ('a \<times> 'k) result"
  ao_fd :: "'a \<Rightarrow> fd_wrapper"
  ao_config :: "'a \<Rightarrow> fd_adapter_config"
  ao_set_config :: "fd_adapter_config \<Rightarrow> 'a \<Rightarrow> 'a"
  ao_set_listening :: "bool \<Rightarrow> 'a \<Rightarrow> 'a"

record 'k kernel =
  kn_pipe_read :: "'k \<Rightarrow> u64 \<Rightarrow> (sys_ret \<times> byte list) \<times> 'k"
  kn_pipe_writev :: "'k \<Rightarrow> byte list list \<Rightarrow> sys_ret \<times> 'k"
  kn_shutdown :: "'k \<Rightarrow> int \<Rightarrow> int \<Rightarrow> sys_ret \<times> 'k"
  kn_poll :: "'k \<Rightarrow> pollfd list \<Rightarrow> int \<Rightarrow> sys_ret \<times> (nat \<Rightarrow> u16) \<times> 'k"
  kn_time :: "'k \<Rightarrow> u64 \<times> 'k"
  kn_abort :: "'k \<Rightarrow> bool"

record ('a, 'k) sponge_socket =
  ss_socket :: fd_wrapper
  ss_thread_data :: fd_wrapper
  ss_datagram_adapter :: 'a
  ss_tcp :: "tcp_connection option"
  ss_inbound_shutdown :: bool
  ss_outbound_shutdown :: bool
  ss_fully_acked :: bool
  ss_kernel :: 'k

text \<open>The two descriptors that the rules watch: that of the adapter and the thread's end of the pipe.\<close>

definition ADAPTER_FD :: nat where
  "ADAPTER_FD = 0"

definition THREAD_DATA :: nat where
  "THREAD_DATA = 1"

definition ss_wrapper :: "('a, 'k) adapter_ops \<Rightarrow> ('a, 'k) sponge_socket \<Rightarrow> nat \<Rightarrow> fd_wrapper" where
  "ss_wrapper ao s fd = (if fd = ADAPTER_FD then ao_fd ao (ss_datagram_adapter s) else ss_thread_data s)"

text \<open>
  \<open>_tcp->\<close> while it holds no connection is undefined, \<open>_tcp.value()\<close> raises an exception.  The interests of the
  rules and the conditions of the loops, which are plain predicates here, are false then; they are only
  evaluated between \<open>_initialize_TCP\<close> and the end of \<open>_tcp_main\<close>, when there is a connection.
\<close>

definition with_tcp :: "('a, 'k) sponge_socket \<Rightarrow> (tcp_connection \<Rightarrow> 'b result) \<Rightarrow> 'b result" where
  "with_tcp s f = (case ss_tcp s of None \<Rightarrow> Inl (Undefined_behaviour ''_tcp is empty'') | Some c \<Rightarrow> f c)"

definition with_tcp_value :: "('a, 'k) sponge_socket \<Rightarrow> (tcp_connection \<Rightarrow> 'b result) \<Rightarrow> 'b result" where
  "with_tcp_value s f = (case ss_tcp s of None \<Rightarrow> Inl Bad_optional_access | Some c \<Rightarrow> f c)"

text \<open>The debugging output names the destination, which fails for an address that is not IPv4.\<close>

definition debug_destination :: "('a, 'k) adapter_ops \<Rightarrow> ('a, 'k) sponge_socket \<Rightarrow> string result" where
  "debug_destination ao s = Address_to_string (cfg_destination (ao_config ao (ss_datagram_adapter s)))"

definition pipe_shutdown :: "'k kernel \<Rightarrow> fd_wrapper \<Rightarrow> int \<Rightarrow> 'k \<Rightarrow> (fd_wrapper \<times> 'k) result" where
  "pipe_shutdown kn w how k =
     (case kn_shutdown kn k (fd_num w) how of (sr, k) \<Rightarrow> rbind (Socket_shutdown w how (\<lambda>_ _. sr)) (\<lambda>w. Inr (w, k)))"

section \<open>The rules\<close>

text \<open>Rule 1: a datagram arrived.\<close>

definition rule1_fully_acked :: "('a, 'k) adapter_ops \<Rightarrow> ('a, 'k) sponge_socket \<Rightarrow> ('a, 'k) sponge_socket result" where
  "rule1_fully_acked ao s =
     (if fd_eof (ss_thread_data s)
      then with_tcp_value s (\<lambda>c.
           if TCPConnection_bytes_in_flight c = 0 \<and> \<not> ss_fully_acked s
           then rbind (debug_destination ao s) (\<lambda>_. Inr (s\<lparr>ss_fully_acked := True\<rparr>))
           else Inr s)
      else Inr s)"

definition rule1_callback :: "('a, 'k) adapter_ops \<Rightarrow> ('a, 'k) sponge_socket \<Rightarrow> ('a, 'k) sponge_socket result" where
  "rule1_callback ao s =
     rbind (ao_read ao (ss_datagram_adapter s) (ss_kernel s)) (\<lambda>(seg, a, k).
       let s = s\<lparr>ss_datagram_adapter := a, ss_kernel := k\<rparr> in
       rbind (case seg of
                None \<Rightarrow> Inr s
              | Some sg \<Rightarrow> with_tcp s (\<lambda>c. rbind (TCPConnection_segment_received c sg) (\<lambda>c. Inr (s\<lparr>ss_tcp := Some c\<rparr>))))
         (rule1_fully_acked ao))"

definition rule1_interest :: "('a, 'k) sponge_socket \<Rightarrow> bool" where
  "rule1_interest s = (case ss_tcp s of None \<Rightarrow> False | Some c \<Rightarrow> TCPConnection_active c)"

text \<open>Rule 2: the owner wrote to the pipe.\<close>

definition rule2_callback ::
  "('a, 'k) adapter_ops \<Rightarrow> 'k kernel \<Rightarrow> ('a, 'k) sponge_socket \<Rightarrow> ('a, 'k) sponge_socket result" where
  "rule2_callback ao kn s =
     with_tcp s (\<lambda>c.
     rbind (FileDescriptor_read (kn_pipe_read kn) (ss_thread_data s) (TCPConnection_remaining_outbound_capacity c) (ss_kernel s))
       (\<lambda>(d, w, k).
       let s = s\<lparr>ss_thread_data := w, ss_kernel := k\<rparr>; len = length d in
       rbind (TCPConnection_write c d) (\<lambda>(amount_written, c).
         let s = s\<lparr>ss_tcp := Some c\<rparr> in
         if amount_written \<noteq> len
         then Inl (Runtime_error ''TCPConnection::write() accepted less than advertised length'')
         else if fd_eof w
         then rbind (TCPConnection_end_input_stream c) (\<lambda>c.
              let s = s\<lparr>ss_tcp := Some c, ss_outbound_shutdown := True\<rparr>
              in rbind (debug_destination ao s) (\<lambda>_. Inr s))
         else Inr s)))"

definition rule2_interest :: "('a, 'k) sponge_socket \<Rightarrow> bool" where
  "rule2_interest s =
     (case ss_tcp s of None \<Rightarrow> False
      | Some c \<Rightarrow> TCPConnection_active c \<and> \<not> ss_outbound_shutdown s \<and> TCPConnection_remaining_outbound_capacity c > 0)"

definition rule2_cancel :: "('a, 'k) sponge_socket \<Rightarrow> ('a, 'k) sponge_socket result" where
  "rule2_cancel s =
     with_tcp s (\<lambda>c. rbind (TCPConnection_end_input_stream c) (\<lambda>c.
       Inr (s\<lparr>ss_tcp := Some c, ss_outbound_shutdown := True\<rparr>)))"

text \<open>Rule 3: bytes for the owner.  Only what the pipe accepted is popped from the inbound stream.\<close>

definition set_inbound :: "tcp_connection \<Rightarrow> byte_stream \<Rightarrow> tcp_connection" where
  "set_inbound c bs =
     c\<lparr>tc_receiver := (tc_receiver c)\<lparr>rcv_reassembler := (rcv_reassembler (tc_receiver c))\<lparr>ra_output := bs\<rparr>\<rparr>\<rparr>"

definition rule3_finish ::
  "('a, 'k) adapter_ops \<Rightarrow> 'k kernel \<Rightarrow> byte_stream \<Rightarrow> ('a, 'k) sponge_socket \<Rightarrow> ('a, 'k) sponge_socket result" where
  "rule3_finish ao kn inbound s =
     (if ByteStream_eof inbound \<or> ByteStream_error inbound
      then rbind (pipe_shutdown kn (ss_thread_data s) SHUT_WR (ss_kernel s)) (\<lambda>(w, k).
           let s = s\<lparr>ss_thread_data := w, ss_kernel := k, ss_inbound_shutdown := True\<rparr>
           in rbind (debug_destination ao s) (\<lambda>_. Inr s))
      else Inr s)"

definition rule3_callback ::
  "('a, 'k) adapter_ops \<Rightarrow> 'k kernel \<Rightarrow> ('a, 'k) sponge_socket \<Rightarrow> ('a, 'k) sponge_socket result" where
  "rule3_callback ao kn s =
     with_tcp s (\<lambda>c.
       let inbound = TCPConnection_inbound_stream c;
           amount_to_write = min 65536 (ByteStream_buffer_size inbound);
           buffer = ByteStream_peek_output inbound amount_to_write
       in rbind (FileDescriptor_write (kn_pipe_writev kn) (ss_thread_data s) (ss_kernel s) (BufferViewList_of_string buffer) False)
            (\<lambda>(bytes_written, w, k).
            rbind (ByteStream_pop_output inbound bytes_written) (\<lambda>inbound.
            rule3_finish ao kn inbound
              (s\<lparr>ss_thread_data := w, ss_kernel := k, ss_tcp := Some (set_inbound c inbound)\<rparr>))))"

definition rule3_interest :: "('a, 'k) sponge_socket \<Rightarrow> bool" where
  "rule3_interest s =
     (case ss_tcp s of None \<Rightarrow> False
      | Some c \<Rightarrow> \<not> ByteStream_buffer_empty (TCPConnection_inbound_stream c) \<or>
          ((ByteStream_eof (TCPConnection_inbound_stream c) \<or> ByteStream_error (TCPConnection_inbound_stream c)) \<and>
           \<not> ss_inbound_shutdown s))"

text \<open>Rule 4: segments to send.\<close>

fun rule4_loop ::
  "('a, 'k) adapter_ops \<Rightarrow> tcp_segment list \<Rightarrow> 'a \<Rightarrow> 'k \<Rightarrow> ('a \<times> 'k) result" where
  "rule4_loop ao [] a k = Inr (a, k)"
| "rule4_loop ao (seg # segs) a k = rbind (ao_write ao a seg k) (\<lambda>(a, _, k). rule4_loop ao segs a k)"

definition rule4_callback :: "('a, 'k) adapter_ops \<Rightarrow> ('a, 'k) sponge_socket \<Rightarrow> ('a, 'k) sponge_socket result" where
  "rule4_callback ao s =
     with_tcp s (\<lambda>c.
     rbind (rule4_loop ao (tc_segments_out c) (ss_datagram_adapter s) (ss_kernel s)) (\<lambda>(a, k).
       Inr (s\<lparr>ss_datagram_adapter := a, ss_kernel := k, ss_tcp := Some (c\<lparr>tc_segments_out := []\<rparr>)\<rparr>)))"

definition rule4_interest :: "('a, 'k) sponge_socket \<Rightarrow> bool" where
  "rule4_interest s = (case ss_tcp s of None \<Rightarrow> False | Some c \<Rightarrow> tc_segments_out c \<noteq> [])"

definition initialize_TCP ::
  "('a, 'k) adapter_ops \<Rightarrow> 'k kernel \<Rightarrow> tcp_config \<Rightarrow> u32 \<Rightarrow>
   ('a, 'k) sponge_socket event_loop \<times> ('a, 'k) sponge_socket \<Rightarrow> ('a, 'k) sponge_socket event_loop \<times> ('a, 'k) sponge_socket" where
  "initialize_TCP ao kn config random_value els =
     (case els of (el, s) \<Rightarrow>
        let s = s\<lparr>ss_tcp := Some (TCPConnection_new config random_value)\<rparr>;
            el = EventLoop_add_rule el ADAPTER_FD Direction_In (rule1_callback ao) rule1_interest Inr;
            el = EventLoop_add_rule el THREAD_DATA Direction_In (rule2_callback ao kn) rule2_interest rule2_cancel;
            el = EventLoop_add_rule el THREAD_DATA Direction_Out (rule3_callback ao kn) rule3_interest Inr;
            el = EventLoop_add_rule el ADAPTER_FD Direction_Out (rule4_callback ao) rule4_interest Inr
        in (el, s))"

section \<open>The loop\<close>

definition TCP_TICK_MS :: int where
  "TCP_TICK_MS = 10"

definition ss_poll ::
  "'k kernel \<Rightarrow> ('a, 'k) sponge_socket \<Rightarrow> pollfd list \<Rightarrow> int \<Rightarrow> sys_ret \<times> (nat \<Rightarrow> u16) \<times> ('a, 'k) sponge_socket" where
  "ss_poll kn s pollfds timeout =
     (case kn_poll kn (ss_kernel s) pollfds timeout of (sr, revents, k) \<Rightarrow> (sr, revents, s\<lparr>ss_kernel := k\<rparr>))"

definition ss_now :: "'k kernel \<Rightarrow> ('a, 'k) sponge_socket \<Rightarrow> u64 \<times> ('a, 'k) sponge_socket" where
  "ss_now kn s = (case kn_time kn (ss_kernel s) of (t, k) \<Rightarrow> (t, s\<lparr>ss_kernel := k\<rparr>))"

text \<open>The end of a turn: while the connection is active, both it and the adapter are told the time.\<close>

definition tcp_loop_tick ::
  "('a, 'k) adapter_ops \<Rightarrow> 'k kernel \<Rightarrow> u64 \<Rightarrow> ('a, 'k) sponge_socket \<Rightarrow> (u64 \<times> ('a, 'k) sponge_socket) result" where
  "tcp_loop_tick ao kn base_time s =
     with_tcp_value s (\<lambda>c.
       if TCPConnection_active c then
         let (next_time, s) = ss_now kn s;
             ms = sub64 next_time base_time;
             s = s\<lparr>ss_tcp := Some (TCPConnection_tick c ms)\<rparr>
         in rbind (ao_tick ao ms (ss_datagram_adapter s) (ss_kernel s)) (\<lambda>(a, k).
              Inr (next_time, s\<lparr>ss_datagram_adapter := a, ss_kernel := k\<rparr>))
       else Inr (base_time, s))"

partial_function (option) tcp_loop_from ::
  "('a, 'k) adapter_ops \<Rightarrow> 'k kernel \<Rightarrow> (('a, 'k) sponge_socket \<Rightarrow> bool) \<Rightarrow> u64 \<Rightarrow>
   ('a, 'k) sponge_socket event_loop \<times> ('a, 'k) sponge_socket \<Rightarrow>
   (('a, 'k) sponge_socket event_loop \<times> ('a, 'k) sponge_socket) result option" where
  "tcp_loop_from ao kn condition base_time els =
     (if \<not> condition (snd els) then Some (Inr els)
      else case EventLoop_wait_next_event (ss_wrapper ao) (ss_poll kn) TCP_TICK_MS els of
          Inl e \<Rightarrow> Some (Inl e)
        | Inr (ret, el, s) \<Rightarrow>
            if ret = EL_Exit \<or> kn_abort kn (ss_kernel s) then Some (Inr (el, s))
            else case tcp_loop_tick ao kn base_time s of
                Inl e \<Rightarrow> Some (Inl e)
              | Inr (base_time, s) \<Rightarrow> tcp_loop_from ao kn condition base_time (el, s))"

definition tcp_loop ::
  "('a, 'k) adapter_ops \<Rightarrow> 'k kernel \<Rightarrow> (('a, 'k) sponge_socket \<Rightarrow> bool) \<Rightarrow>
   ('a, 'k) sponge_socket event_loop \<times> ('a, 'k) sponge_socket \<Rightarrow>
   (('a, 'k) sponge_socket event_loop \<times> ('a, 'k) sponge_socket) result" where
  "tcp_loop ao kn condition els =
     (case els of (el, s) \<Rightarrow>
      case ss_now kn s of (base_time, s) \<Rightarrow>
        (case tcp_loop_from ao kn condition base_time (el, s) of None \<Rightarrow> Inl Nontermination | Some r \<Rightarrow> r))"

section \<open>Creating, connecting, accepting\<close>

definition AF_UNIX :: int where
  "AF_UNIX = 1"

definition socket_pair_helper :: "(int \<Rightarrow> sys_ret \<times> int \<times> int) \<Rightarrow> int \<Rightarrow> (fd_wrapper \<times> fd_wrapper) result" where
  "socket_pair_helper socketpair type =
     (case socketpair type of (sr, fd0, fd1) \<Rightarrow>
        rbind (SystemCall ''socketpair'' sr 0) (\<lambda>_.
        rbind (FDWrapper_new fd0) (\<lambda>a.
        rbind (FDWrapper_new fd1) (\<lambda>b. Inr (a, b)))))"

text \<open>The kernel confirms the domain and the type of both ends of the pair; the thread's end is made non-blocking.\<close>

definition TCPSpongeSocket_new ::
  "fd_wrapper \<times> fd_wrapper \<Rightarrow> (fd_wrapper \<Rightarrow> sys_ret \<times> int \<times> nat) \<Rightarrow> (fd_wrapper \<Rightarrow> sys_ret \<times> int \<times> nat) \<Rightarrow>
   sys_ret \<Rightarrow> (u32 \<Rightarrow> sys_ret) \<Rightarrow> 'a \<Rightarrow> 'k \<Rightarrow> (('a, 'k) sponge_socket event_loop \<times> ('a, 'k) sponge_socket) result" where
  "TCPSpongeSocket_new data_socket_pair so_domain so_type getfl setfl datagram_interface k =
     (case data_socket_pair of (a, b) \<Rightarrow>
      rbind (Socket_of_fd a AF_UNIX SOCK_STREAM (so_domain a) (so_type a)) (\<lambda>sock.
      rbind (Socket_of_fd b AF_UNIX SOCK_STREAM (so_domain b) (so_type b)) (\<lambda>thread_data.
      rbind (FileDescriptor_set_blocking False getfl setfl) (\<lambda>_.
        Inr (\<lparr>el_rules = []\<rparr>,
             \<lparr>ss_socket = sock, ss_thread_data = thread_data, ss_datagram_adapter = datagram_interface, ss_tcp = None,
              ss_inbound_shutdown = False, ss_outbound_shutdown = False, ss_fully_acked = False, ss_kernel = k\<rparr>)))))"

definition tcp_in_state :: "official_state \<Rightarrow> ('a, 'k) sponge_socket \<Rightarrow> bool" where
  "tcp_in_state st s =
     (case ss_tcp s of None \<Rightarrow> False | Some c \<Rightarrow> TCPState_eq (TCPConnection_state c) (TCPState_of_State st))"

definition TCPSpongeSocket_connect ::
  "('a, 'k) adapter_ops \<Rightarrow> 'k kernel \<Rightarrow> tcp_config \<Rightarrow> u32 \<Rightarrow> fd_adapter_config \<Rightarrow>
   ('a, 'k) sponge_socket event_loop \<times> ('a, 'k) sponge_socket \<Rightarrow>
   (('a, 'k) sponge_socket event_loop \<times> ('a, 'k) sponge_socket) result" where
  "TCPSpongeSocket_connect ao kn c_tcp random_value c_ad els =
     (if ss_tcp (snd els) \<noteq> None then Inl (Runtime_error ''connect() with TCPConnection already initialized'')
      else case initialize_TCP ao kn c_tcp random_value els of (el, s) \<Rightarrow>
        let s = s\<lparr>ss_datagram_adapter := ao_set_config ao c_ad (ss_datagram_adapter s)\<rparr> in
        rbind (Address_to_string (cfg_destination c_ad)) (\<lambda>_.
        with_tcp s (\<lambda>c.
        rbind (TCPConnection_connect c) (\<lambda>c.
          let s = s\<lparr>ss_tcp := Some c\<rparr> in
          if TCPState_neq (TCPConnection_state c) (TCPState_of_State SYN_SENT)
          then Inl (Runtime_error (''After TCPConnection::connect(), state was '' @ TCPState_name (TCPConnection_state c) @
                                   '' but expected '' @ TCPState_name (TCPState_of_State SYN_SENT)))
          else tcp_loop ao kn (tcp_in_state SYN_SENT) (el, s)))))"

definition TCPSpongeSocket_listen_and_accept ::
  "('a, 'k) adapter_ops \<Rightarrow> 'k kernel \<Rightarrow> tcp_config \<Rightarrow> u32 \<Rightarrow> fd_adapter_config \<Rightarrow>
   ('a, 'k) sponge_socket event_loop \<times> ('a, 'k) sponge_socket \<Rightarrow>
   (('a, 'k) sponge_socket event_loop \<times> ('a, 'k) sponge_socket) result" where
  "TCPSpongeSocket_listen_and_accept ao kn c_tcp random_value c_ad els =
     (if ss_tcp (snd els) \<noteq> None then Inl (Runtime_error ''listen_and_accept() with TCPConnection already initialized'')
      else case initialize_TCP ao kn c_tcp random_value els of (el, s) \<Rightarrow>
        let s = s\<lparr>ss_datagram_adapter := ao_set_listening ao True (ao_set_config ao c_ad (ss_datagram_adapter s))\<rparr> in
        rbind (tcp_loop ao kn (\<lambda>s. tcp_in_state LISTEN s \<or> tcp_in_state SYN_RCVD s \<or> tcp_in_state SYN_SENT s) (el, s))
          (\<lambda>(el, s). rbind (debug_destination ao s) (\<lambda>_. Inr (el, s))))"

text \<open>
  The connection thread, which \<open>connect\<close> and \<open>listen_and_accept\<close> start at their end.  When its loop is over the
  connection is destroyed.  A destructor that finds it active queues a reset segment, which goes down with it.
\<close>

definition tcp_main ::
  "('a, 'k) adapter_ops \<Rightarrow> 'k kernel \<Rightarrow> ('a, 'k) sponge_socket event_loop \<times> ('a, 'k) sponge_socket \<Rightarrow>
   (('a, 'k) sponge_socket event_loop \<times> ('a, 'k) sponge_socket) result" where
  "tcp_main ao kn els =
     (if ss_tcp (snd els) = None then Inl (Runtime_error ''no TCP'')
      else rbind (tcp_loop ao kn (\<lambda>_. True) els) (\<lambda>(el, s).
           rbind (pipe_shutdown kn (ss_socket s) SHUT_RDWR (ss_kernel s)) (\<lambda>(w, k).
             let s = s\<lparr>ss_socket := w, ss_kernel := k\<rparr> in
             with_tcp_value s (\<lambda>c. rbind (TCPConnection_destroy c) (\<lambda>_. Inr (el, s\<lparr>ss_tcp := None\<rparr>))))))"

section \<open>The adapters as arguments of the template\<close>

definition TunAdapter_ops ::
  "resolver \<Rightarrow> ('k \<Rightarrow> u64 \<Rightarrow> (sys_ret \<times> byte list) \<times> 'k) \<Rightarrow> ('k \<Rightarrow> byte list list \<Rightarrow> sys_ret \<times> 'k) \<Rightarrow>
   (tun_adapter, 'k) adapter_ops" where
  "TunAdapter_ops getaddrinfo sys_read writev =
     \<lparr>ao_read = TunAdapter_read getaddrinfo sys_read, ao_write = TunAdapter_write writev,
      ao_tick = (\<lambda>ms a k. Inr (a\<lparr>tn_base := FdAdapterBase_tick ms (tn_base a)\<rparr>, k)), ao_fd = tn_tun,
      ao_config = (\<lambda>a. FdAdapterBase_config (tn_base a)),
      ao_set_config = (\<lambda>cfg a. a\<lparr>tn_base := FdAdapterBase_set_config cfg (tn_base a)\<rparr>),
      ao_set_listening = (\<lambda>l a. a\<lparr>tn_base := FdAdapterBase_set_listening l (tn_base a)\<rparr>)\<rparr>"

definition UDPAdapter_ops ::
  "('k \<Rightarrow> u64 \<Rightarrow> (sys_ret \<times> byte list \<times> address \<times> nat) \<times> 'k) \<Rightarrow>
   ('k \<Rightarrow> int \<Rightarrow> address option \<Rightarrow> byte list list \<Rightarrow> sys_ret \<times> 'k) \<Rightarrow> (udp_adapter, 'k) adapter_ops" where
  "UDPAdapter_ops recvfrom sendmsg =
     \<lparr>ao_read = UDPAdapter_read recvfrom, ao_write = UDPAdapter_write sendmsg,
      ao_tick = (\<lambda>ms a k. Inr (a\<lparr>ua_base := FdAdapterBase_tick ms (ua_base a)\<rparr>, k)), ao_fd = ua_sock,
      ao_config = (\<lambda>a. FdAdapterBase_config (ua_base a)),
      ao_set_config = (\<lambda>cfg a. a\<lparr>ua_base := FdAdapterBase_set_config cfg (ua_base a)\<rparr>),
      ao_set_listening = (\<lambda>l a. a\<lparr>ua_base := FdAdapterBase_set_listening l (ua_base a)\<rparr>)\<rparr>"

definition EthernetAdapter_ops ::
  "resolver \<Rightarrow> ('k \<Rightarrow> u64 \<Rightarrow> (sys_ret \<times> byte list) \<times> 'k) \<Rightarrow> ('k \<Rightarrow> byte list list \<Rightarrow> sys_ret \<times> 'k) \<Rightarrow>
   (ethernet_adapter, 'k) adapter_ops" where
  "EthernetAdapter_ops getaddrinfo sys_read writev =
     \<lparr>ao_read = EthernetAdapter_read getaddrinfo writev sys_read, ao_write = EthernetAdapter_write writev,
      ao_tick = EthernetAdapter_tick writev, ao_fd = ea_tap,
      ao_config = (\<lambda>a. FdAdapterBase_config (ea_base a)),
      ao_set_config = (\<lambda>cfg a. a\<lparr>ea_base := FdAdapterBase_set_config cfg (ea_base a)\<rparr>),
      ao_set_listening = (\<lambda>l a. a\<lparr>ea_base := FdAdapterBase_set_listening l (ea_base a)\<rparr>)\<rparr>"

definition Lossy_ops ::
  "('g \<Rightarrow> u32 \<times> 'g) \<Rightarrow> ('a, 'k) adapter_ops \<Rightarrow> (('a, 'g) lossy_adapter, 'k) adapter_ops" where
  "Lossy_ops rand ao =
     \<lparr>ao_read = Lossy_read rand (ao_config ao) (ao_read ao), ao_write = Lossy_write rand (ao_config ao) (ao_write ao),
      ao_tick = Lossy_tick (ao_tick ao), ao_fd = (\<lambda>l. ao_fd ao (lo_adapter l)), ao_config = Lossy_config (ao_config ao),
      ao_set_config = Lossy_set_config (ao_set_config ao), ao_set_listening = Lossy_set_listening (ao_set_listening ao)\<rparr>"

section \<open>Ready-made sockets\<close>

text \<open>Both \<open>connect\<close> functions build their configuration alike; \<open>rnd\<close> is what \<open>random_device\<close> gives.\<close>

definition CS144TCPSocket_adapter ::
  "resolver \<Rightarrow> (string \<Rightarrow> sys_ret) \<Rightarrow> (int \<Rightarrow> ifreq \<Rightarrow> sys_ret) \<Rightarrow> tun_adapter result" where
  "CS144TCPSocket_adapter getaddrinfo sys_open ioctl =
     rbind (TunFD_new sys_open ioctl ''tun144'') (TunAdapter_new getaddrinfo)"

definition CS144TCPSocket_config :: "resolver \<Rightarrow> u32 \<Rightarrow> address \<Rightarrow> (tcp_config \<times> fd_adapter_config) result" where
  "CS144TCPSocket_config getaddrinfo rnd address =
     rbind (FdAdapterConfig_default getaddrinfo) (\<lambda>multiplexer_config.
     rbind (Address_of_host getaddrinfo ''169.254.144.9'' (dec_string (unat (ucast rnd :: u16)))) (\<lambda>source.
       Inr (TCPConfig_default\<lparr>rt_timeout := 100\<rparr>,
            multiplexer_config\<lparr>cfg_source := source, cfg_destination := address\<rparr>)))"

definition CS144TCPSocket_connect ::
  "resolver \<Rightarrow> (tun_adapter, 'k) adapter_ops \<Rightarrow> 'k kernel \<Rightarrow> u32 \<Rightarrow> u32 \<Rightarrow> address \<Rightarrow>
   (tun_adapter, 'k) sponge_socket event_loop \<times> (tun_adapter, 'k) sponge_socket \<Rightarrow>
   ((tun_adapter, 'k) sponge_socket event_loop \<times> (tun_adapter, 'k) sponge_socket) result" where
  "CS144TCPSocket_connect getaddrinfo ao kn rnd random_value address els =
     rbind (CS144TCPSocket_config getaddrinfo rnd address) (\<lambda>(tcp_config, multiplexer_config).
       TCPSpongeSocket_connect ao kn tcp_config random_value multiplexer_config els)"

definition LOCAL_TAP_IP_ADDRESS :: string where
  "LOCAL_TAP_IP_ADDRESS = ''169.254.10.9''"

definition LOCAL_TAP_NEXT_HOP_ADDRESS :: string where
  "LOCAL_TAP_NEXT_HOP_ADDRESS = ''169.254.10.1''"

text \<open>One random number per byte; then the lowest two bits of the first are set to \<open>10\<close>.\<close>

definition random_private_ethernet_address :: "(nat \<Rightarrow> u32) \<Rightarrow> ethernet_address" where
  "random_private_ethernet_address rnd =
     (let addr = map (\<lambda>i. ucast (rnd i)) [0..<6];
          addr = addr[0 := or (addr ! 0) 0x02]
      in addr[0 := and (addr ! 0) 0xfe])"

definition FullStackSocket_adapter ::
  "resolver \<Rightarrow> ('k \<Rightarrow> byte list list \<Rightarrow> sys_ret \<times> 'k) \<Rightarrow> (string \<Rightarrow> sys_ret) \<Rightarrow> (int \<Rightarrow> ifreq \<Rightarrow> sys_ret) \<Rightarrow>
   (nat \<Rightarrow> u32) \<Rightarrow> 'k \<Rightarrow> (ethernet_adapter \<times> 'k) result" where
  "FullStackSocket_adapter getaddrinfo writev sys_open ioctl rnd k =
     rbind (TapFD_new sys_open ioctl ''tap10'') (\<lambda>tap.
     rbind (Address_of_host getaddrinfo LOCAL_TAP_IP_ADDRESS ''0'') (\<lambda>ip_address.
     rbind (Address_of_host getaddrinfo LOCAL_TAP_NEXT_HOP_ADDRESS ''0'') (\<lambda>next_hop.
       EthernetAdapter_new getaddrinfo writev tap (random_private_ethernet_address rnd) ip_address next_hop k)))"

definition FullStackSocket_config :: "resolver \<Rightarrow> u32 \<Rightarrow> address \<Rightarrow> (tcp_config \<times> fd_adapter_config) result" where
  "FullStackSocket_config getaddrinfo rnd address =
     rbind (FdAdapterConfig_default getaddrinfo) (\<lambda>multiplexer_config.
     rbind (Address_of_host getaddrinfo LOCAL_TAP_IP_ADDRESS (dec_string (unat (ucast rnd :: u16)))) (\<lambda>source.
       Inr (TCPConfig_default\<lparr>rt_timeout := 100\<rparr>,
            multiplexer_config\<lparr>cfg_source := source, cfg_destination := address\<rparr>)))"

definition FullStackSocket_connect ::
  "resolver \<Rightarrow> (ethernet_adapter, 'k) adapter_ops \<Rightarrow> 'k kernel \<Rightarrow> u32 \<Rightarrow> u32 \<Rightarrow> address \<Rightarrow>
   (ethernet_adapter, 'k) sponge_socket event_loop \<times> (ethernet_adapter, 'k) sponge_socket \<Rightarrow>
   ((ethernet_adapter, 'k) sponge_socket event_loop \<times> (ethernet_adapter, 'k) sponge_socket) result" where
  "FullStackSocket_connect getaddrinfo ao kn rnd random_value address els =
     rbind (FullStackSocket_config getaddrinfo rnd address) (\<lambda>(tcp_config, multiplexer_config).
       TCPSpongeSocket_connect ao kn tcp_config random_value multiplexer_config els)"

section \<open>The contract between the socket and its adapter\<close>

text \<open>
  What the rules rely on: a successful \<open>read\<close> counts as a read of the descriptor that the rule watches, and
  \<open>config\<close> gives what was assigned through \<open>config_mut\<close>.
\<close>

locale socket_adapter =
  fixes ao :: "('a, 'k) adapter_ops"
  assumes read_counts: "ao_read ao a k = Inr (seg, a', k') \<Longrightarrow> fd_read_count (ao_fd ao a') = fd_read_count (ao_fd ao a) + 1"
    and config_set: "ao_config ao (ao_set_config ao cfg a) = cfg"
    and config_listening: "ao_config ao (ao_set_listening ao l a) = ao_config ao a"

lemma with_tcp_Inr: "with_tcp s f = Inr y \<longleftrightarrow> (\<exists>c. ss_tcp s = Some c \<and> f c = Inr y)"
  by (simp add: with_tcp_def split: option.splits)

lemma with_tcp_value_Inr: "with_tcp_value s f = Inr y \<longleftrightarrow> (\<exists>c. ss_tcp s = Some c \<and> f c = Inr y)"
  by (simp add: with_tcp_value_def split: option.splits)

lemma FileDescriptor_readD:
  assumes "FileDescriptor_read sys_read w limit k = Inr (d, w', k')"
  shows "length d \<le> limit" "fd_read_count w' = fd_read_count w + 1"
  using assms
  by (auto simp: FileDescriptor_read_def Let_def rbind_Inr_conv register_read_def string_resize_def
      split: prod.splits if_splits)

lemma FileDescriptor_write_onceD:
  assumes "FileDescriptor_write writev w k buffer False = Inr (n, w', k')"
  shows "fd_write_count w' = fd_write_count w + 1"
  using assms
  by (auto simp: FileDescriptor_write_def FileDescriptor_write_loop.simps[of _ False] Let_def rbind_Inr_conv register_write_def
      split: prod.splits if_splits)

lemma rule1_fully_ackedD:
  "rule1_fully_acked ao s = Inr s' \<Longrightarrow>
   ss_datagram_adapter s' = ss_datagram_adapter s \<and> ss_tcp s' = ss_tcp s \<and> ss_kernel s' = ss_kernel s"
  by (auto simp: rule1_fully_acked_def with_tcp_value_Inr rbind_Inr_conv split: if_splits)

lemma rule2_count:
  "rule2_callback ao kn s = Inr s' \<Longrightarrow> fd_read_count (ss_thread_data s') = fd_read_count (ss_thread_data s) + 1"
  by (auto simp: rule2_callback_def with_tcp_Inr rbind_Inr_conv Let_def dest: FileDescriptor_readD(2) split: if_splits)

lemma pipe_shutdownD:
  "pipe_shutdown kn w how k = Inr (w', k') \<Longrightarrow> how = SHUT_WR \<Longrightarrow> fd_write_count w' = fd_write_count w + 1"
  by (auto simp: pipe_shutdown_def Socket_shutdown_def rbind_Inr_conv register_write_def SHUT_RD_def SHUT_WR_def split: prod.splits)

lemma rule3_count:
  assumes "rule3_callback ao kn s = Inr s'"
  shows "fd_write_count (ss_thread_data s') \<noteq> fd_write_count (ss_thread_data s)"
proof -
  obtain n w k c inb where w: "fd_write_count w = fd_write_count (ss_thread_data s) + 1"
    and f: "rule3_finish ao kn inb (s\<lparr>ss_thread_data := w, ss_kernel := k, ss_tcp := Some c\<rparr>) = Inr s'"
    using assms by (auto simp: rule3_callback_def with_tcp_Inr rbind_Inr_conv Let_def dest: FileDescriptor_write_onceD)
  have two: "(2 :: u32) \<noteq> 0" by simp
  have "fd_write_count (ss_thread_data s') = fd_write_count w \<or> fd_write_count (ss_thread_data s') = fd_write_count w + 1"
    using f by (auto simp: rule3_finish_def rbind_Inr_conv Let_def dest: pipe_shutdownD split: if_splits)
  then show ?thesis using two by (auto simp: w add.assoc)
qed

lemma rule4_done: "rule4_callback ao s = Inr s' \<Longrightarrow> \<not> rule4_interest s'"
  by (auto simp: rule4_callback_def with_tcp_Inr rbind_Inr_conv rule4_interest_def)

lemma initialize_rules:
  "el_rules (fst (initialize_TCP ao kn cfg rnd (el, s))) = el_rules el @
     [\<lparr>rl_fd = ADAPTER_FD, rl_direction = Direction_In, rl_callback = rule1_callback ao, rl_interest = rule1_interest, rl_cancel = Inr\<rparr>,
      \<lparr>rl_fd = THREAD_DATA, rl_direction = Direction_In, rl_callback = rule2_callback ao kn, rl_interest = rule2_interest,
       rl_cancel = rule2_cancel\<rparr>,
      \<lparr>rl_fd = THREAD_DATA, rl_direction = Direction_Out, rl_callback = rule3_callback ao kn, rl_interest = rule3_interest,
       rl_cancel = Inr\<rparr>,
      \<lparr>rl_fd = ADAPTER_FD, rl_direction = Direction_Out, rl_callback = rule4_callback ao, rl_interest = rule4_interest, rl_cancel = Inr\<rparr>]"
  by (simp add: initialize_TCP_def EventLoop_add_rule_def)

lemma call_is_callback:
  assumes "\<And>s'. rl_callback r s = Inr s' \<Longrightarrow>
    Rule_service_count wrapper r s' \<noteq> Rule_service_count wrapper r s \<or> \<not> rl_interest r s'"
  shows "EventLoop_call wrapper r s = rl_callback r s"
  using assms by (cases "rl_callback r s") (auto simp: EventLoop_call_def)

context socket_adapter
begin

lemma rule1_count:
  "rule1_callback ao s = Inr s' \<Longrightarrow>
   fd_read_count (ao_fd ao (ss_datagram_adapter s')) = fd_read_count (ao_fd ao (ss_datagram_adapter s)) + 1"
  by (auto simp: rule1_callback_def rbind_Inr_conv Let_def with_tcp_Inr dest!: rule1_fully_ackedD read_counts split: option.splits)

text \<open>The event loop never takes one of the socket's rules for a busy wait.\<close>

lemma no_busy_wait:
  assumes "r \<in> set (el_rules (fst (initialize_TCP ao kn cfg rnd (\<lparr>el_rules = []\<rparr>, s0))))"
  shows "EventLoop_call (ss_wrapper ao) r s = rl_callback r s"
  using assms unfolding initialize_rules
  by (intro call_is_callback)
     (auto simp: Rule_service_count_def ss_wrapper_def ADAPTER_FD_def THREAD_DATA_def dest!: rule1_count rule2_count dest: rule3_count rule4_done)

end

interpretation tun_socket: socket_adapter "TunAdapter_ops getaddrinfo sys_read writev" for getaddrinfo sys_read writev
  by unfold_locales
     (auto simp: TunAdapter_ops_def TunAdapter_read_def rbind_Inr_conv Let_def FdAdapterBase_config_def FdAdapterBase_set_config_def
       FdAdapterBase_set_listening_def dest!: FileDescriptor_readD(2) split: if_splits)

lemma UDPSocket_recvD: "UDPSocket_recv recvfrom w mtu k = Inr (d, w', k') \<Longrightarrow> fd_read_count w' = fd_read_count w + 1"
  by (auto simp: UDPSocket_recv_def rbind_Inr_conv register_read_def split: prod.splits if_splits)

lemma UDPAdapter_read_count:
  assumes "UDPAdapter_read recvfrom a k = Inr (seg, a', k')"
  shows "fd_read_count (ua_sock a') = fd_read_count (ua_sock a) + 1"
proof -
  obtain d w k1 where r: "UDPSocket_recv recvfrom (ua_sock a) UDP_MTU k = Inr (d, w, k1)"
    using assms by (auto simp: UDPAdapter_read_def rbind_Inr_conv)
  then have "ua_sock a' = w" using assms
    by (auto simp: UDPAdapter_read_def rbind_Inr_conv Let_def split: if_splits)
  then show ?thesis using UDPSocket_recvD[OF r] by simp
qed

interpretation udp_socket: socket_adapter "UDPAdapter_ops recvfrom sendmsg" for recvfrom sendmsg
  by unfold_locales
     (auto simp: UDPAdapter_ops_def FdAdapterBase_config_def FdAdapterBase_set_config_def
       FdAdapterBase_set_listening_def dest: UDPAdapter_read_count)

lemma write_loop_reads:
  "FileDescriptor_write_loop writev b w k buffer n = Inr (m, w', k') \<Longrightarrow> fd_read_count w' = fd_read_count w"
proof (induction writev b w k buffer n rule: FileDescriptor_write_loop.induct)
  case (1 writev b w k buffer n)
  obtain sr k1 where wr: "writev k (BufferViewList_as_iovecs buffer) = (sr, k1)" by (cases "writev k (BufferViewList_as_iovecs buffer)")
  have reg: "fd_read_count (register_write w) = fd_read_count w" by (simp add: register_write_def)
  from 1(2) obtain i where i: "SystemCall ''writev'' sr 0 = Inr i"
    by (subst (asm) FileDescriptor_write_loop.simps) (auto simp: wr rbind_Inr_conv)
  have g: "\<not> (i = 0 \<and> BufferViewList_size buffer \<noteq> 0)" "\<not> i > to_int64 (int (BufferViewList_size buffer))"
    using 1(2) by (subst (asm) FileDescriptor_write_loop.simps, auto simp: wr i split: if_splits)+
  obtain b' where b': "BufferViewList_remove_prefix buffer (to_size_t i) = Inr b'"
    using 1(2) g by (subst (asm) FileDescriptor_write_loop.simps) (auto simp: wr i rbind_Inr_conv Let_def split: if_splits)
  have eq: "(if b \<and> BufferViewList_size b' \<noteq> 0
      then FileDescriptor_write_loop writev b (register_write w) k1 b' (add64 n (to_size_t i))
      else Inr (add64 n (to_size_t i), register_write w, k1)) = Inr (m, w', k')"
    using 1(2) g b' by (subst (asm) FileDescriptor_write_loop.simps) (auto simp: wr i Let_def split: if_splits)
  show ?case
  proof (cases "b \<and> BufferViewList_size b' \<noteq> 0")
    case True
    then have "FileDescriptor_write_loop writev b (register_write w) k1 b' (add64 n (to_size_t i)) = Inr (m, w', k')" using eq by simp
    from 1(1)[OF refl wr[symmetric] i g refl b' refl True this] reg show ?thesis by simp
  next
    case False
    then show ?thesis using eq reg by auto
  qed
qed

lemma send_loop_reads:
  "EthernetAdapter_send_loop writev frames tap k = Inr (tap', k') \<Longrightarrow> fd_read_count tap' = fd_read_count tap"
  by (induction frames arbitrary: tap k) (auto simp: rbind_Inr_conv FileDescriptor_write_def dest!: write_loop_reads)

lemma EthernetAdapter_read_count:
  assumes "EthernetAdapter_read getaddrinfo writev sys_read a k = Inr (seg, a', k')"
  shows "fd_read_count (ea_tap a') = fd_read_count (ea_tap a) + 1"
  using assms
  by (auto simp: EthernetAdapter_read_def EthernetAdapter_send_pending_def rbind_Inr_conv Let_def
      dest!: FileDescriptor_readD(2) send_loop_reads split: if_splits option.splits)

interpretation eth_socket: socket_adapter "EthernetAdapter_ops getaddrinfo sys_read writev" for getaddrinfo sys_read writev
  by unfold_locales
     (auto simp: EthernetAdapter_ops_def FdAdapterBase_config_def FdAdapterBase_set_config_def
       FdAdapterBase_set_listening_def dest: EthernetAdapter_read_count)

lemma lossy_socket_adapter: "socket_adapter ao \<Longrightarrow> socket_adapter (Lossy_ops rand ao)"
proof -
  assume ao: "socket_adapter ao"
  note laws = socket_adapter.read_counts[OF ao] socket_adapter.config_set[OF ao] socket_adapter.config_listening[OF ao]
  show ?thesis
  proof
    fix a k seg a' k' assume "ao_read (Lossy_ops rand ao) a k = Inr (seg, a', k')"
    then obtain ret where "ao_read ao (lo_adapter a) k = Inr (ret, lo_adapter a', k')"
      using Lossy_readD by (fastforce simp: Lossy_ops_def)
    from laws(1)[OF this] show "fd_read_count (ao_fd (Lossy_ops rand ao) a') = fd_read_count (ao_fd (Lossy_ops rand ao) a) + 1"
      by (simp add: Lossy_ops_def)
  qed (simp_all add: Lossy_ops_def Lossy_config_def Lossy_set_config_def Lossy_set_listening_def laws(2,3))
qed

interpretation lossy_tun_socket: socket_adapter "Lossy_ops rand (TunAdapter_ops getaddrinfo sys_read writev)"
  for rand getaddrinfo sys_read writev
  by (rule lossy_socket_adapter) unfold_locales

interpretation lossy_udp_socket: socket_adapter "Lossy_ops rand (UDPAdapter_ops recvfrom sendmsg)" for rand recvfrom sendmsg
  by (rule lossy_socket_adapter) unfold_locales

section \<open>The rules on the streams\<close>

text \<open>
  What the kernel promises: the pipe takes a prefix of what is written to it, \<open>accepted\<close> being all it has taken,
  and shutting it down succeeds.  Nothing else that the socket does reaches the owner's side of the pipe.
\<close>

definition pipe_contract :: "'k kernel \<Rightarrow> ('k \<Rightarrow> byte list) \<Rightarrow> bool" where
  "pipe_contract kn accepted \<longleftrightarrow>
     takes_prefix (kn_pipe_writev kn) accepted \<and>
     (\<forall>k n. accepted (snd (kn_pipe_read kn k n)) = accepted k) \<and>
     (\<forall>k. accepted (snd (kn_time kn k)) = accepted k) \<and>
     (\<forall>k fd how. case kn_shutdown kn k fd how of ((r, errno), k') \<Rightarrow> r = 0 \<and> accepted k' = accepted k)"

definition adapter_apart :: "('a, 'k) adapter_ops \<Rightarrow> ('k \<Rightarrow> byte list) \<Rightarrow> bool" where
  "adapter_apart ao accepted \<longleftrightarrow>
     (\<forall>a k seg a' k'. ao_read ao a k = Inr (seg, a', k') \<longrightarrow> accepted k' = accepted k) \<and>
     (\<forall>a seg k a' seg' k'. ao_write ao a seg k = Inr (a', seg', k') \<longrightarrow> accepted k' = accepted k) \<and>
     (\<forall>ms a k a' k'. ao_tick ao ms a k = Inr (a', k') \<longrightarrow> accepted k' = accepted k)"

datatype socket_op = Open | Rule1 | Rule2 | Rule2_cancel | Rule3 | Rule4 | Loop_tick u64

fun socket_step :: "('a, 'k) adapter_ops \<Rightarrow> 'k kernel \<Rightarrow> ('a, 'k) sponge_socket \<Rightarrow> socket_op \<Rightarrow> ('a, 'k) sponge_socket result" where
  "socket_step ao kn s Open = with_tcp s (\<lambda>c. rbind (TCPConnection_connect c) (\<lambda>c. Inr (s\<lparr>ss_tcp := Some c\<rparr>)))"
| "socket_step ao kn s Rule1 = rule1_callback ao s"
| "socket_step ao kn s Rule2 = rule2_callback ao kn s"
| "socket_step ao kn s Rule2_cancel = rule2_cancel s"
| "socket_step ao kn s Rule3 = rule3_callback ao kn s"
| "socket_step ao kn s Rule4 = rule4_callback ao s"
| "socket_step ao kn s (Loop_tick base_time) = rbind (tcp_loop_tick ao kn base_time s) (\<lambda>(_, s). Inr s)"

text \<open>
  The condition on each activation: the device and the pipe do not fail, the destination can be printed, a
  segment that arrives belongs to the peer's stream \<open>P\<close>, and what the owner writes is the stream \<open>S\<close>.
\<close>

definition printable :: "('a, 'k) adapter_ops \<Rightarrow> 'a \<Rightarrow> bool" where
  "printable ao a \<longleftrightarrow> (case Address_to_string (cfg_destination (ao_config ao a)) of Inl _ \<Rightarrow> False | Inr _ \<Rightarrow> True)"

definition rule1_ok :: "('a, 'k) adapter_ops \<Rightarrow> byte list \<Rightarrow> byte list \<Rightarrow> WrappingInt32 \<Rightarrow> ('a, 'k) sponge_socket \<Rightarrow> tcp_connection \<Rightarrow> bool" where
  "rule1_ok ao S P isn s c \<longleftrightarrow>
     (case ao_read ao (ss_datagram_adapter s) (ss_kernel s) of
        Inl _ \<Rightarrow> False
      | Inr (seg, a, k) \<Rightarrow> printable ao a \<and>
          (case seg of None \<Rightarrow> True | Some sg \<Rightarrow> conn_op_ok S P isn ([], c) (Conn_segment sg)))"

definition rule2_ok :: "('a, 'k) adapter_ops \<Rightarrow> 'k kernel \<Rightarrow> byte list \<Rightarrow> ('a, 'k) sponge_socket \<Rightarrow> tcp_connection \<Rightarrow> bool" where
  "rule2_ok ao kn S s c \<longleftrightarrow>
     (case FileDescriptor_read (kn_pipe_read kn) (ss_thread_data s) (TCPConnection_remaining_outbound_capacity c) (ss_kernel s) of
        Inl _ \<Rightarrow> False
      | Inr (d, w, k) \<Rightarrow> snd_op_ok S (tc_sender c) (Snd_write d) \<and>
          (fd_eof w \<longrightarrow> printable ao (ss_datagram_adapter s) \<and>
             (case TCPConnection_write c d of Inl _ \<Rightarrow> False | Inr (_, c) \<Rightarrow> snd_op_ok S (tc_sender c) Snd_end)))"

definition socket_ok ::
  "('a, 'k) adapter_ops \<Rightarrow> 'k kernel \<Rightarrow> byte list \<Rightarrow> byte list \<Rightarrow> WrappingInt32 \<Rightarrow> ('a, 'k) sponge_socket \<Rightarrow> socket_op \<Rightarrow> bool" where
  "socket_ok ao kn S P isn s p \<longleftrightarrow>
     (case ss_tcp s of None \<Rightarrow> False | Some c \<Rightarrow>
        (case p of
           Open \<Rightarrow> True
         | Rule1 \<Rightarrow> rule1_ok ao S P isn s c
         | Rule2 \<Rightarrow> rule2_ok ao kn S s c
         | Rule2_cancel \<Rightarrow> snd_op_ok S (tc_sender c) Snd_end
         | Rule3 \<Rightarrow> printable ao (ss_datagram_adapter s)
         | Rule4 \<Rightarrow> (case rule4_loop ao (tc_segments_out c) (ss_datagram_adapter s) (ss_kernel s) of Inl _ \<Rightarrow> False | Inr _ \<Rightarrow> True)
         | Loop_tick base_time \<Rightarrow>
             (case kn_time kn (ss_kernel s) of (next_time, k) \<Rightarrow>
                case ao_tick ao (sub64 next_time base_time) (ss_datagram_adapter s) k of Inl _ \<Rightarrow> False | Inr _ \<Rightarrow> True)))"

definition socket_inv ::
  "('a, 'k) adapter_ops \<Rightarrow> 'k kernel \<Rightarrow> ('k \<Rightarrow> byte list) \<Rightarrow> byte list \<Rightarrow> byte list \<Rightarrow> WrappingInt32 \<Rightarrow> ('a, 'k) sponge_socket \<Rightarrow> bool" where
  "socket_inv ao kn accepted S P isn s \<longleftrightarrow>
     pipe_contract kn accepted \<and> adapter_apart ao accepted \<and>
     (\<exists>c. ss_tcp s = Some c \<and> conn_inv S P isn (accepted (ss_kernel s), c))"

definition socket_level :: "('a, 'k) sponge_socket \<Rightarrow> nat" where
  "socket_level s = (case ss_tcp s of None \<Rightarrow> 0 | Some c \<Rightarrow> rcv_level ([], tc_receiver c))"

definition socket_post ::
  "('k \<Rightarrow> byte list) \<Rightarrow> byte list \<Rightarrow> byte list \<Rightarrow> WrappingInt32 \<Rightarrow> tcp_connection \<Rightarrow> ('a, 'k) sponge_socket \<Rightarrow> bool" where
  "socket_post accepted S P isn c s' \<longleftrightarrow>
     (\<exists>c'. ss_tcp s' = Some c' \<and> conn_inv S P isn (accepted (ss_kernel s'), c') \<and>
        rcv_level ([], tc_receiver c) \<le> rcv_level ([], tc_receiver c'))"

lemma conn_ok_out: "conn_op_ok S P isn (out, c) p = conn_op_ok S P isn (out', c) p"
  by (cases p) simp_all

lemma conn_step_socket:
  assumes "conn_inv S P isn (out, c)" and "conn_op_ok S P isn (out, c) p"
  shows "\<exists>out' c'. conn_step (out, c) p = Inr (out', c') \<and> conn_inv S P isn (out', c') \<and>
    rcv_level ([], tc_receiver c) \<le> rcv_level ([], tc_receiver c')"
proof -
  obtain out' c' where s: "conn_step (out, c) p = Inr (out', c')" "conn_post S P isn (out, c) (out', c')"
    using conn_step_post[OF assms] by (metis surj_pair)
  then have "rcv_level ([], tc_receiver c) \<le> rcv_level ([], tc_receiver c')" by (simp add: conn_post_def rcv_level_def)
  then show ?thesis using s by (auto simp: conn_post_def)
qed

lemma printableE:
  assumes "printable ao (ss_datagram_adapter s)"
  obtains x where "debug_destination ao s = Inr x"
  using assms by (auto simp: printable_def debug_destination_def split: sum.splits)

lemma rule1_post:
  assumes inv: "conn_inv S P isn (accepted (ss_kernel s), c)" and c: "ss_tcp s = Some c" and ap: "adapter_apart ao accepted"
    and ok: "rule1_ok ao S P isn s c"
  shows "\<exists>s'. rule1_callback ao s = Inr s' \<and> socket_post accepted S P isn c s'"
proof -
  obtain seg a k where rd: "ao_read ao (ss_datagram_adapter s) (ss_kernel s) = Inr (seg, a, k)" and pr: "printable ao a"
    and sg: "\<And>sg. seg = Some sg \<Longrightarrow> conn_op_ok S P isn ([], c) (Conn_segment sg)"
    using ok by (auto simp: rule1_ok_def split: sum.splits option.splits)
  have k: "accepted k = accepted (ss_kernel s)" using ap rd unfolding adapter_apart_def by blast
  let ?s = "s\<lparr>ss_datagram_adapter := a, ss_kernel := k\<rparr>"
  have fin: "\<exists>s'. rule1_fully_acked ao (?s\<lparr>ss_tcp := Some c'\<rparr>) = Inr s' \<and> socket_post accepted S P isn c s'"
    if "conn_inv S P isn (accepted k, c')" "rcv_level ([], tc_receiver c) \<le> rcv_level ([], tc_receiver c')" for c'
  proof -
    have "printable ao (ss_datagram_adapter (?s\<lparr>ss_tcp := Some c'\<rparr>))" using pr by simp
    then obtain x where "debug_destination ao (?s\<lparr>ss_tcp := Some c'\<rparr>) = Inr x" by (rule printableE)
    then show ?thesis using that by (simp add: rule1_fully_acked_def with_tcp_value_def socket_post_def)
  qed
  show ?thesis
  proof (cases seg)
    case None
    have "?s = ?s\<lparr>ss_tcp := Some c\<rparr>" using c by simp
    then show ?thesis using fin[of c] inv k None rd by (simp add: rule1_callback_def)
  next
    case (Some sg')
    obtain out' c' where "conn_step (accepted k, c) (Conn_segment sg') = Inr (out', c')" "conn_inv S P isn (out', c')"
      "rcv_level ([], tc_receiver c) \<le> rcv_level ([], tc_receiver c')"
      using conn_step_socket[OF inv, of "Conn_segment sg'"] sg[OF Some] conn_ok_out[of S P isn _ c _ "[]"] k by auto
    then show ?thesis using fin[of c'] Some rd c
      by (auto simp: rule1_callback_def with_tcp_def rbind_Inr_conv)
  qed
qed

lemma write_accepts:
  assumes "bs_inv (snd_stream (tc_sender c))" and "length d \<le> TCPConnection_remaining_outbound_capacity c"
    and "TCPConnection_write c d = Inr (n, c')"
  shows "n = length d"
  using assms write_length[OF assms(1), of d]
  by (auto simp: TCPConnection_write_def TCPConnection_remaining_outbound_capacity_def bs_remaining rbind_Inr_conv
      split: prod.splits)

lemma rule2_post:
  assumes inv: "conn_inv S P isn (accepted (ss_kernel s), c)" and c: "ss_tcp s = Some c" and pc: "pipe_contract kn accepted"
    and ok: "rule2_ok ao kn S s c"
  shows "\<exists>s'. rule2_callback ao kn s = Inr s' \<and> socket_post accepted S P isn c s'"
proof -
  let ?rd = "FileDescriptor_read (kn_pipe_read kn) (ss_thread_data s) (TCPConnection_remaining_outbound_capacity c) (ss_kernel s)"
  obtain d w k where rd: "?rd = Inr (d, w, k)" and wr: "snd_op_ok S (tc_sender c) (Snd_write d)"
    and eof: "fd_eof w \<Longrightarrow> printable ao (ss_datagram_adapter s) \<and>
      (case TCPConnection_write c d of Inl _ \<Rightarrow> False | Inr (_, c) \<Rightarrow> snd_op_ok S (tc_sender c) Snd_end)"
    using ok by (auto simp: rule2_ok_def split: sum.splits)
  have "k = snd (kn_pipe_read kn (ss_kernel s) (min BUFFER_SIZE (TCPConnection_remaining_outbound_capacity c)))"
    using rd by (auto simp: FileDescriptor_read_def Let_def rbind_Inr_conv split: prod.splits if_splits)
  then have k: "accepted k = accepted (ss_kernel s)" using pc by (simp add: pipe_contract_def)
  obtain n c1 where w1: "TCPConnection_write c d = Inr (n, c1)" and i1: "conn_inv S P isn (accepted k, c1)"
    "rcv_level ([], tc_receiver c) \<le> rcv_level ([], tc_receiver c1)"
    using conn_step_socket[OF inv, of "Conn_write d"] wr k by (auto simp: rbind_Inr_conv)
  have "bs_inv (snd_stream (tc_sender c))" using inv snd_inv_basic(1)[of S "tc_sender c"] by (simp add: conn_inv_def)
  then have n: "n = length d" using write_accepts[OF _ FileDescriptor_readD(1)[OF rd] w1] by simp
  show ?thesis
  proof (cases "fd_eof w")
    case False
    then show ?thesis using c rd w1 n i1 by (simp add: rule2_callback_def with_tcp_def socket_post_def)
  next
    case True
    then have e: "snd_op_ok S (tc_sender c1) Snd_end" "printable ao (ss_datagram_adapter s)" using eof w1 by simp_all
    obtain c2 where c2: "TCPConnection_end_input_stream c1 = Inr c2" "conn_inv S P isn (accepted k, c2)"
      "rcv_level ([], tc_receiver c1) \<le> rcv_level ([], tc_receiver c2)"
      using conn_step_socket[OF i1(1), of Conn_end] e(1) by (auto simp: rbind_Inr_conv)
    let ?s = "s\<lparr>ss_thread_data := w, ss_kernel := k, ss_tcp := Some c2, ss_outbound_shutdown := True\<rparr>"
    have "printable ao (ss_datagram_adapter ?s)" using e(2) by simp
    then obtain x where "debug_destination ao ?s = Inr x" by (rule printableE)
    then show ?thesis using c rd w1 n i1 c2 True by (simp add: rule2_callback_def with_tcp_def socket_post_def)
  qed
qed

lemma rule2_cancel_post:
  assumes inv: "conn_inv S P isn (accepted (ss_kernel s), c)" and c: "ss_tcp s = Some c" and ok: "snd_op_ok S (tc_sender c) Snd_end"
  shows "\<exists>s'. rule2_cancel s = Inr s' \<and> socket_post accepted S P isn c s'"
  using conn_step_socket[OF inv, of Conn_end] ok c
  by (auto simp: rule2_cancel_def with_tcp_def socket_post_def rbind_Inr_conv)

lemma inbound_peek:
  assumes "conn_inv S P isn (out, c)" and "m < two64"
  shows "ByteStream_peek_output (TCPConnection_inbound_stream c) m = take m (bs_bytes (TCPConnection_inbound_stream c))"
proof -
  have "bs_inv (TCPConnection_inbound_stream c)"
    using assms(1) by (simp add: conn_inv_def rcv_run_inv_def rcv_inv_def ra_inv_def TCPConnection_inbound_stream_def
        TCPReceiver_stream_out_def StreamReassembler_stream_out_def)
  from byte_fifo.get_law[OF this assms(2)] show ?thesis by (auto simp: ByteStream_read_def rbind_Inr_conv Let_def)
qed

definition rule3_buffer :: "tcp_connection \<Rightarrow> byte list" where
  "rule3_buffer c = ByteStream_peek_output (TCPConnection_inbound_stream c)
     (min 65536 (ByteStream_buffer_size (TCPConnection_inbound_stream c)))"

lemma rule3_buffer_length: "conn_inv S P isn (out, c) \<Longrightarrow> length (rule3_buffer c) \<le> 65536"
  by (simp add: rule3_buffer_def inbound_peek)

lemma rule3_buffer_take:
  "conn_inv S P isn (out, c) \<Longrightarrow> n \<le> length (rule3_buffer c) \<Longrightarrow>
   ByteStream_peek_output (TCPConnection_inbound_stream c) n = take n (rule3_buffer c)"
  using rule3_buffer_length[of S P isn out c] by (simp add: rule3_buffer_def inbound_peek min_def split: if_splits)

lemma rule3_read:
  assumes inv: "conn_inv S P isn (out, c)" and n: "n \<le> length (rule3_buffer c)"
  shows "\<exists>bs. ByteStream_pop_output (TCPConnection_inbound_stream c) n = Inr bs \<and>
    conn_inv S P isn (out @ take n (rule3_buffer c), set_inbound c bs) \<and>
    rcv_level ([], tc_receiver c) \<le> rcv_level ([], tc_receiver (set_inbound c bs))"
proof -
  let ?in = "TCPConnection_inbound_stream c"
  have nb: "n < two64" using n rule3_buffer_length[OF inv] by simp
  note td = rule3_buffer_take[OF inv n]
  obtain out' c' where s: "conn_step (out, c) (Conn_read n) = Inr (out', c')" and p: "conn_inv S P isn (out', c')"
    "rcv_level ([], tc_receiver c) \<le> rcv_level ([], tc_receiver c')"
    using conn_step_socket[OF inv, of "Conn_read n"] nb by auto
  then obtain bs where bs: "ByteStream_pop_output ?in n = Inr bs" "out' = out @ take n (rule3_buffer c)" "c' = set_inbound c bs"
    using td by (auto simp: ByteStream_read_def rbind_Inr_conv Let_def set_inbound_def TCPConnection_inbound_stream_def)
  then show ?thesis using p by auto
qed

lemma pipe_shutdown_ok:
  assumes "pipe_contract kn accepted"
  shows "\<exists>w' k'. pipe_shutdown kn w SHUT_WR k = Inr (w', k') \<and> accepted k' = accepted k"
proof -
  obtain r e k' where s: "kn_shutdown kn k (fd_num w) SHUT_WR = ((r, e), k')" by (metis surj_pair)
  then have "r = 0" "accepted k' = accepted k"
    using assms[unfolded pipe_contract_def, THEN conjunct2, THEN conjunct2, THEN conjunct2, rule_format, of k "fd_num w" SHUT_WR] by auto
  then show ?thesis using s
    by (simp add: pipe_shutdown_def Socket_shutdown_def SystemCall_def to_int32_small SHUT_RD_def SHUT_WR_def)
qed

lemma rule3_post:
  assumes inv: "conn_inv S P isn (accepted (ss_kernel s), c)" and c: "ss_tcp s = Some c" and pc: "pipe_contract kn accepted"
    and pr: "printable ao (ss_datagram_adapter s)"
  shows "\<exists>s'. rule3_callback ao kn s = Inr s' \<and> socket_post accepted S P isn c s'"
proof -
  let ?in = "TCPConnection_inbound_stream c"
  let ?d = "rule3_buffer c"
  have tp: "takes_prefix (kn_pipe_writev kn) accepted" using pc by (simp add: pipe_contract_def)
  have ld: "0 + length (concat (BufferViewList_of_string ?d)) < 2 ^ 63" using rule3_buffer_length[OF inv] by (simp add: BufferViewList_of_string_def)
  obtain n w k where w: "FileDescriptor_write (kn_pipe_writev kn) (ss_thread_data s) (ss_kernel s) (BufferViewList_of_string ?d) False = Inr (n, w, k)"
    and n: "n \<le> length ?d" and k: "accepted k = accepted (ss_kernel s) @ take n ?d"
    using write_loop_ok[OF tp ld, of False "ss_thread_data s" "ss_kernel s"]
    by (auto simp: FileDescriptor_write_def BufferViewList_of_string_def)
  obtain bs where bs: "ByteStream_pop_output ?in n = Inr bs" "conn_inv S P isn (accepted k, set_inbound c bs)"
    "rcv_level ([], tc_receiver c) \<le> rcv_level ([], tc_receiver (set_inbound c bs))"
    using rule3_read[OF inv n] k by auto
  let ?s = "s\<lparr>ss_thread_data := w, ss_kernel := k, ss_tcp := Some (set_inbound c bs)\<rparr>"
  have eq: "rule3_callback ao kn s = rule3_finish ao kn bs ?s"
    using c w bs(1) by (simp add: rule3_callback_def with_tcp_def rule3_buffer_def[symmetric])
  obtain w' k' where sh: "pipe_shutdown kn w SHUT_WR k = Inr (w', k')" "accepted k' = accepted k"
    using pipe_shutdown_ok[OF pc] by blast
  let ?t = "?s\<lparr>ss_thread_data := w', ss_kernel := k', ss_inbound_shutdown := True\<rparr>"
  have "printable ao (ss_datagram_adapter ?t)" using pr by simp
  then obtain x where "debug_destination ao ?t = Inr x" by (rule printableE)
  then show ?thesis unfolding eq using bs sh by (simp add: rule3_finish_def socket_post_def)
qed

lemma rule4_loop_apart:
  "adapter_apart ao accepted \<Longrightarrow> rule4_loop ao segs a k = Inr (a', k') \<Longrightarrow> accepted k' = accepted k"
proof (induction segs arbitrary: a k)
  case (Cons seg segs)
  then obtain a1 seg1 k1 where "ao_write ao a seg k = Inr (a1, seg1, k1)" "rule4_loop ao segs a1 k1 = Inr (a', k')"
    by (auto simp: rbind_Inr_conv)
  moreover have "accepted k1 = accepted k" using Cons.prems(1) calculation(1) unfolding adapter_apart_def by blast
  ultimately show ?case using Cons.IH Cons.prems(1) by simp
qed simp

lemma rule4_post:
  assumes inv: "conn_inv S P isn (accepted (ss_kernel s), c)" and c: "ss_tcp s = Some c" and ap: "adapter_apart ao accepted"
    and ok: "rule4_loop ao (tc_segments_out c) (ss_datagram_adapter s) (ss_kernel s) = Inr (a, k)"
  shows "\<exists>s'. rule4_callback ao s = Inr s' \<and> socket_post accepted S P isn c s'"
  using c ok rule4_loop_apart[OF ap ok] inv
  by (simp add: rule4_callback_def with_tcp_def socket_post_def conn_inv_def)

lemma tick_post:
  assumes inv: "conn_inv S P isn (accepted (ss_kernel s), c)" and c: "ss_tcp s = Some c" and ap: "adapter_apart ao accepted"
    and pc: "pipe_contract kn accepted" and t: "kn_time kn (ss_kernel s) = (next_time, k)"
    and ok: "ao_tick ao (sub64 next_time base_time) (ss_datagram_adapter s) k = Inr (a, k')"
  shows "\<exists>s'. socket_step ao kn s (Loop_tick base_time) = Inr s' \<and> socket_post accepted S P isn c s'"
proof -
  have "accepted k = accepted (ss_kernel s)" using pc t unfolding pipe_contract_def by (metis snd_conv)
  moreover have "accepted k' = accepted k" using ap ok unfolding adapter_apart_def by blast
  moreover have "conn_inv S P isn (accepted (ss_kernel s), TCPConnection_tick c ms)"
    "rcv_level ([], tc_receiver c) \<le> rcv_level ([], tc_receiver (TCPConnection_tick c ms))" for ms
    using conn_step_socket[OF inv, of "Conn_tick ms"] by auto
  ultimately show ?thesis using c t ok inv
    by (simp add: tcp_loop_tick_def with_tcp_value_def ss_now_def socket_post_def)
qed

lemma open_post:
  assumes inv: "conn_inv S P isn (accepted (ss_kernel s), c)" and c: "ss_tcp s = Some c"
  shows "\<exists>s'. socket_step ao kn s Open = Inr s' \<and> socket_post accepted S P isn c s'"
  using conn_step_socket[OF inv, of Conn_connect] c by (auto simp: with_tcp_def socket_post_def rbind_Inr_conv)

lemma socket_step_post:
  assumes "pipe_contract kn accepted" "adapter_apart ao accepted" "ss_tcp s = Some c" "conn_inv S P isn (accepted (ss_kernel s), c)"
    and "socket_ok ao kn S P isn s p"
  shows "\<exists>s'. socket_step ao kn s p = Inr s' \<and> socket_post accepted S P isn c s'"
proof (cases p)
  case Open
  show ?thesis unfolding Open by (rule open_post[where accepted = accepted, OF assms(4,3)])
next
  case (Loop_tick t)
  then obtain nt k a k' where "kn_time kn (ss_kernel s) = (nt, k)" "ao_tick ao (sub64 nt t) (ss_datagram_adapter s) k = Inr (a, k')"
    using assms(3,5) by (auto simp: socket_ok_def split: prod.splits sum.splits)
  then show ?thesis unfolding Loop_tick by (rule tick_post[OF assms(4,3,2,1)])
next
  case Rule4
  then obtain a k where "rule4_loop ao (tc_segments_out c) (ss_datagram_adapter s) (ss_kernel s) = Inr (a, k)"
    using assms(3,5) by (auto simp: socket_ok_def split: sum.splits)
  then show ?thesis using Rule4 rule4_post[OF assms(4,3,2)] by simp
qed (use assms(5) rule1_post[OF assms(4,3,2)] rule2_post[OF assms(4,3,1)] rule2_cancel_post[where accepted = accepted, OF assms(4,3)]
      rule3_post[OF assms(4,3,1)] in \<open>simp_all add: socket_ok_def assms(3)\<close>)

interpretation socket: step_system "socket_step ao kn" "socket_ok ao kn S P isn" "socket_inv ao kn accepted S P isn" socket_level
  for ao kn accepted S P isn
proof
  fix s p assume inv: "socket_inv ao kn accepted S P isn s" and ok: "socket_ok ao kn S P isn s p"
  then obtain c where c: "ss_tcp s = Some c" "conn_inv S P isn (accepted (ss_kernel s), c)"
    and e: "pipe_contract kn accepted" "adapter_apart ao accepted" by (auto simp: socket_inv_def)
  from socket_step_post[OF e c ok] obtain s' where "socket_step ao kn s p = Inr s'" "socket_post accepted S P isn c s'" by blast
  then show "\<exists>s'. socket_step ao kn s p = Inr s' \<and> socket_inv ao kn accepted S P isn s' \<and> socket_level s \<le> socket_level s'"
    using e c by (auto simp: socket_post_def socket_inv_def socket_level_def)
qed

section \<open>Connecting\<close>

definition first_isn :: "tcp_config \<Rightarrow> u32 \<Rightarrow> WrappingInt32" where
  "first_isn cfg random_value = (case fixed_isn cfg of Some i \<Rightarrow> i | None \<Rightarrow> random_value)"

lemma new_connection_isn:
  "TCPConnection_new cfg rnd = endpoint cfg (TCPReceiver_new (recv_capacity cfg))
     (TCPSender_new (send_capacity cfg) (rt_timeout cfg) (Some (first_isn cfg rnd)) rnd) [] True"
  by (simp add: TCPConnection_new_def endpoint_def TCPSender_new_def first_isn_def)

definition connected :: "tcp_config \<Rightarrow> u32 \<Rightarrow> tcp_connection" where
  "connected cfg rnd = endpoint cfg (TCPReceiver_new (recv_capacity cfg)) (syn_sender (first_isn cfg rnd) (send_capacity cfg) (rt_timeout cfg))
     [stamp (TCPReceiver_new (recv_capacity cfg)) (syn_segment (first_isn cfg rnd))] True"

lemma connect_new: "TCPConnection_connect (TCPConnection_new cfg rnd) = Inr (connected cfg rnd)"
  by (simp add: new_connection_isn conn_connect connected_def)

lemma connected_state: "TCPState_eq (TCPConnection_state (connected cfg rnd)) (TCPState_of_State SYN_SENT)"
  by (simp add: TCPState_eq_def TCPConnection_state_def TCPState_of_def TCPState_of_State_def connected_def endpoint_def
      TCPConnection_active_def sender_state_summary_def receiver_state_summary_def syn_sender_def TCPSender_next_seqno_absolute_def
      TCPSender_bytes_in_flight_def TCPReceiver_ackno_def TCPReceiver_new_def StreamReassembler_new_def TCPReceiver_stream_out_def
      StreamReassembler_stream_out_def new_stream)

context socket_adapter
begin

lemma connect_enters_loop:
  assumes "ss_tcp s = None" and "Address_to_string (cfg_destination c_ad) = Inr x"
  shows "\<exists>s'. TCPSpongeSocket_connect ao kn cfg rnd c_ad (el, s) =
      tcp_loop ao kn (tcp_in_state SYN_SENT) (fst (initialize_TCP ao kn cfg rnd (el, s)), s') \<and>
    ss_tcp s' = Some (connected cfg rnd) \<and> tcp_in_state SYN_SENT s' \<and> ao_config ao (ss_datagram_adapter s') = c_ad"
  using assms connected_state[of cfg rnd]
  by (intro exI[of _ "s\<lparr>ss_datagram_adapter := ao_set_config ao c_ad (ss_datagram_adapter s), ss_tcp := Some (connected cfg rnd)\<rparr>"])
     (simp add: TCPSpongeSocket_connect_def initialize_TCP_def with_tcp_def connect_new TCPState_neq_def tcp_in_state_def config_set)

end

section \<open>Properties\<close>


text \<open>
  A kernel for the examples: the segments that will arrive, the bytes the pipe has taken, and what the owner wrote;
  and an adapter on it that passes whole segments.
\<close>

record demo_kernel =
  dk_arriving :: "tcp_segment list"
  dk_accepted :: "byte list"
  dk_written :: "byte list"

definition demo_ops :: "(fd_adapter_config, demo_kernel) adapter_ops" where
  "demo_ops = \<lparr>
     ao_read = (\<lambda>a k. Inr (case dk_arriving k of [] \<Rightarrow> (None, a, k) | p # ps \<Rightarrow> (Some p, a, k\<lparr>dk_arriving := ps\<rparr>))),
     ao_write = (\<lambda>a seg k. Inr (a, seg, k)), ao_tick = (\<lambda>ms a k. Inr (a, k)), ao_fd = (\<lambda>a. example_fd),
     ao_config = (\<lambda>a. a), ao_set_config = (\<lambda>cfg a. cfg), ao_set_listening = (\<lambda>l a. a)\<rparr>"

definition demo_pipe :: "demo_kernel kernel" where
  "demo_pipe = \<lparr>
     kn_pipe_read = (\<lambda>k n. (((int (min n (length (dk_written k))), 0), dk_written k), k\<lparr>dk_written := drop n (dk_written k)\<rparr>)),
     kn_pipe_writev = (\<lambda>k iov. ((int (min 3 (length (concat iov))), 0), k\<lparr>dk_accepted := dk_accepted k @ take 3 (concat iov)\<rparr>)),
     kn_shutdown = (\<lambda>k fd how. ((0, 0), k)), kn_poll = (\<lambda>k pollfds timeout. ((0, 0), \<lambda>_. 0, k)),
     kn_time = (\<lambda>k. (7, k)), kn_abort = (\<lambda>k. False)\<rparr>"

definition demo_socket :: "tcp_segment list \<Rightarrow> byte list \<Rightarrow> (fd_adapter_config, demo_kernel) sponge_socket" where
  "demo_socket arriving written =
     \<lparr>ss_socket = example_fd, ss_thread_data = example_fd, ss_datagram_adapter = fa_cfg (example_base 5 50 6 60 False),
      ss_tcp = None, ss_inbound_shutdown = False, ss_outbound_shutdown = False, ss_fully_acked = False,
      ss_kernel = \<lparr>dk_arriving = arriving, dk_accepted = [], dk_written = written\<rparr>\<rparr>"

definition demo_arriving :: "tcp_segment list" where
  "demo_arriving =
     [\<lparr>ts_header = TCPHeader_default\<lparr>syn := True, ack := True, seqno := 9, ackno := 6, win := 1000\<rparr>, ts_payload = Buffer_of []\<rparr>,
      \<lparr>ts_header = TCPHeader_default\<lparr>ack := True, seqno := 10, ackno := 6, win := 1000\<rparr>, ts_payload = Buffer_of [7]\<rparr>]"

lemma demo_pipe_contract: "pipe_contract demo_pipe dk_accepted"
  by (auto simp: pipe_contract_def demo_pipe_def takes_prefix_def min_def simp del: length_concat)

lemma demo_apart: "adapter_apart demo_ops dk_accepted"
  by (auto simp: adapter_apart_def demo_ops_def split: list.splits)

lemma demo_ok:
  "ops_ok (socket_step demo_ops demo_pipe) (socket_ok demo_ops demo_pipe [1, 2] [7] 9)
     (snd (initialize_TCP demo_ops demo_pipe (example_config 5) 0 (\<lparr>el_rules = []\<rparr>, demo_socket demo_arriving [1, 2])))
     [Open, Rule2, Rule1, Rule1, Rule3]"
  by code_simp


text \<open>C32: the event loop never mistakes a rule of a socket on a lossy IPv4 adapter for a busy wait, although a dropped
  segment does not touch the device: calling the rule is just its callback, in every state.\<close>

theorem socket_never_busy_waits:
  assumes "r \<in> set (el_rules (fst (initialize_TCP (Lossy_ops rand (TunAdapter_ops getaddrinfo sys_read writev)) kn cfg rnd
      (\<lparr>el_rules = []\<rparr>, s0))))"
  shows "EventLoop_call (ss_wrapper (Lossy_ops rand (TunAdapter_ops getaddrinfo sys_read writev))) r s = rl_callback r s"
  using assms by (rule lossy_tun_socket.no_busy_wait)

text \<open>A kernel whose calls all return zero and do nothing.\<close>

definition silent_kernel :: "'k kernel" where
  "silent_kernel = \<lparr>kn_pipe_read = (\<lambda>k n. (((0, 0), []), k)), kn_pipe_writev = (\<lambda>k iov. ((0, 0), k)), kn_shutdown = (\<lambda>k fd how. ((0, 0), k)),
     kn_poll = (\<lambda>k pollfds timeout. ((0, 0), \<lambda>_. 0, k)), kn_time = (\<lambda>k. (0, k)), kn_abort = (\<lambda>k. False)\<rparr>"

definition demo_lossy :: "((tun_adapter, u32) lossy_adapter, byte list list) sponge_socket" where
  "demo_lossy =
     \<lparr>ss_socket = example_fd, ss_thread_data = example_fd,
      ss_datagram_adapter = \<lparr>lo_rand = 0, lo_adapter = \<lparr>tn_base = example_base 5 50 6 60 False, tn_tun = example_fd\<rparr>\<rparr>,
      ss_tcp = Some (connected (example_config 5) 0), ss_inbound_shutdown = False, ss_outbound_shutdown = False,
      ss_fully_acked = False, ss_kernel = []\<rparr>"

theorem socket_never_busy_waits_witness:
  "EventLoop_call (ss_wrapper (Lossy_ops (\<lambda>g. (g, g + 1)) (TunAdapter_ops example_resolver wire_read wire_writev)))
      \<lparr>rl_fd = ADAPTER_FD, rl_direction = Direction_Out,
       rl_callback = rule4_callback (Lossy_ops (\<lambda>g. (g, g + 1)) (TunAdapter_ops example_resolver wire_read wire_writev)),
       rl_interest = rule4_interest, rl_cancel = Inr\<rparr> demo_lossy =
    rule4_callback (Lossy_ops (\<lambda>g. (g, g + 1)) (TunAdapter_ops example_resolver wire_read wire_writev)) demo_lossy"
proof -
  let ?ao = "Lossy_ops (\<lambda>g. (g, g + 1)) (TunAdapter_ops example_resolver wire_read wire_writev)"
  let ?r = "\<lparr>rl_fd = ADAPTER_FD, rl_direction = Direction_Out, rl_callback = rule4_callback ?ao, rl_interest = rule4_interest, rl_cancel = Inr\<rparr>"
  have "?r \<in> set (el_rules (fst (initialize_TCP ?ao silent_kernel (example_config 5) 0 (\<lparr>el_rules = []\<rparr>, demo_lossy))))"
    by (simp add: initialize_rules)
  from socket_never_busy_waits[OF this, of demo_lossy] show ?thesis by simp
qed

text \<open>\<open>connect\<close> on a new socket never stops at its check of the state: for any configuration it sends the SYN, is in
  the state SYN_SENT with the adapter configured as asked, and goes on to wait for the peer.\<close>

theorem socket_connect_opens:
  assumes "ss_tcp s = None" and "Address_to_string (cfg_destination c_ad) = Inr x"
  shows "\<exists>s'. TCPSpongeSocket_connect (EthernetAdapter_ops getaddrinfo sys_read writev) kn cfg rnd c_ad (el, s) =
      tcp_loop (EthernetAdapter_ops getaddrinfo sys_read writev) kn (tcp_in_state SYN_SENT)
        (fst (initialize_TCP (EthernetAdapter_ops getaddrinfo sys_read writev) kn cfg rnd (el, s)), s') \<and>
    ss_tcp s' = Some (connected cfg rnd) \<and> tcp_in_state SYN_SENT s' \<and>
    FdAdapterBase_config (ea_base (ss_datagram_adapter s')) = c_ad"
  using eth_socket.connect_enters_loop[OF assms] by (simp add: EthernetAdapter_ops_def)

definition demo_ethernet :: "(ethernet_adapter, byte list list) sponge_socket" where
  "demo_ethernet =
     \<lparr>ss_socket = example_fd, ss_thread_data = example_fd,
      ss_datagram_adapter = \<lparr>ea_base = example_base 5 50 6 60 False, ea_tap = example_fd,
        ea_interface = NetworkInterface_new [2, 0, 0, 0, 0, 1] (ipv4_address 5 0), ea_next_hop = ipv4_address 1 0\<rparr>,
      ss_tcp = None, ss_inbound_shutdown = False, ss_outbound_shutdown = False, ss_fully_acked = False, ss_kernel = []\<rparr>"

theorem socket_connect_opens_witness:
  "\<exists>s'. TCPSpongeSocket_connect (EthernetAdapter_ops example_resolver wire_read wire_writev) silent_kernel (example_config 5) 0
      (fa_cfg (example_base 5 50 6 60 False)) (\<lparr>el_rules = []\<rparr>, demo_ethernet) =
      tcp_loop (EthernetAdapter_ops example_resolver wire_read wire_writev) silent_kernel (tcp_in_state SYN_SENT)
        (fst (initialize_TCP (EthernetAdapter_ops example_resolver wire_read wire_writev) silent_kernel (example_config 5) 0
          (\<lparr>el_rules = []\<rparr>, demo_ethernet)), s') \<and> tcp_in_state SYN_SENT s'"
proof -
  have n: "ss_tcp demo_ethernet = None" by (simp add: demo_ethernet_def)
  obtain x where x: "Address_to_string (cfg_destination (fa_cfg (example_base 5 50 6 60 False))) = Inr x"
    by (auto simp: example_base_def Address_to_string_def Address_ip_port_def ipv4_address_def)
  from socket_connect_opens[OF n x, of example_resolver wire_read wire_writev silent_kernel "example_config 5" 0 "\<lparr>el_rules = []\<rparr>"]
  show ?thesis by blast
qed


definition demo_reset :: "(fd_adapter_config, demo_kernel) sponge_socket" where
  "demo_reset = (demo_socket [] [])\<lparr>ss_tcp := Some (TCPConnection_set_errors (TCPConnection_new (example_config 5) 0)), ss_inbound_shutdown := True\<rparr>"


end
