(* ===== verification/Stream_Copy.thy ===== *)
theory Stream_Copy
  imports Sockets Event_Loop Byte_Stream
begin

text \<open>
  The loop of the command-line programs (\<open>apps/bidirectional_stream_copy.cc\<close>): standard input is copied to a socket
  and the socket to standard output, through two byte streams and four rules of an event loop.  The kernel is the
  record \<open>copy_kernel\<close> of functions on its state \<open>'k\<close>.
\<close>

section \<open>State and rules\<close>

record 'k copy_kernel =
  ck_stdin_read :: "'k \<Rightarrow> u64 \<Rightarrow> (sys_ret \<times> byte list) \<times> 'k"
  ck_stdout_writev :: "'k \<Rightarrow> byte list list \<Rightarrow> sys_ret \<times> 'k"
  ck_socket_read :: "'k \<Rightarrow> u64 \<Rightarrow> (sys_ret \<times> byte list) \<times> 'k"
  ck_socket_writev :: "'k \<Rightarrow> byte list list \<Rightarrow> sys_ret \<times> 'k"
  ck_shutdown :: "'k \<Rightarrow> int \<Rightarrow> int \<Rightarrow> sys_ret \<times> 'k"
  ck_close :: "'k \<Rightarrow> sys_ret \<times> 'k"
  ck_poll :: "'k \<Rightarrow> pollfd list \<Rightarrow> int \<Rightarrow> sys_ret \<times> (nat \<Rightarrow> u16) \<times> 'k"

record 'k copy_state =
  cp_socket :: fd_wrapper
  cp_input :: fd_wrapper
  cp_output :: fd_wrapper
  cp_outbound :: byte_stream
  cp_inbound :: byte_stream
  cp_outbound_shutdown :: bool
  cp_inbound_shutdown :: bool
  cp_kernel :: 'k

definition max_copy_length :: u64 where
  "max_copy_length = 65536"

definition buffer_size :: u64 where
  "buffer_size = 1048576"

definition STDIN_FILENO :: int where
  "STDIN_FILENO = 0"

definition STDOUT_FILENO :: int where
  "STDOUT_FILENO = 1"

text \<open>The descriptors that the rules watch.\<close>

definition COPY_SOCKET :: nat where
  "COPY_SOCKET = 0"

definition COPY_INPUT :: nat where
  "COPY_INPUT = 1"

definition COPY_OUTPUT :: nat where
  "COPY_OUTPUT = 2"

definition copy_wrapper :: "'k copy_state \<Rightarrow> nat \<Rightarrow> fd_wrapper" where
  "copy_wrapper s fd = (if fd = COPY_SOCKET then cp_socket s else if fd = COPY_INPUT then cp_input s else cp_output s)"

text \<open>The two halves of a direction: fill a stream from a descriptor, and drain it into another.\<close>

definition copy_fill ::
  "('k \<Rightarrow> u64 \<Rightarrow> (sys_ret \<times> byte list) \<times> 'k) \<Rightarrow> fd_wrapper \<Rightarrow> byte_stream \<Rightarrow> 'k \<Rightarrow> (byte_stream \<times> fd_wrapper \<times> 'k) result" where
  "copy_fill sys_read w bs k =
     rbind (FileDescriptor_read sys_read w (ByteStream_remaining_capacity bs) k) (\<lambda>(d, w, k).
       let bs = snd (ByteStream_write bs d)
       in Inr (if fd_eof w then ByteStream_end_input bs else bs, w, k))"

definition copy_drain ::
  "('k \<Rightarrow> byte list list \<Rightarrow> sys_ret \<times> 'k) \<Rightarrow> fd_wrapper \<Rightarrow> byte_stream \<Rightarrow> 'k \<Rightarrow> (byte_stream \<times> fd_wrapper \<times> 'k) result" where
  "copy_drain writev w bs k =
     (let bytes_to_write = min max_copy_length (ByteStream_buffer_size bs)
      in rbind (FileDescriptor_write writev w k (BufferViewList_of_string (ByteStream_peek_output bs bytes_to_write)) False)
           (\<lambda>(bytes_written, w, k). rbind (ByteStream_pop_output bs bytes_written) (\<lambda>bs. Inr (bs, w, k))))"

definition copy_rule1 :: "'k copy_kernel \<Rightarrow> 'k copy_state \<Rightarrow> 'k copy_state result" where
  "copy_rule1 ck s =
     rbind (copy_fill (ck_stdin_read ck) (cp_input s) (cp_outbound s) (cp_kernel s)) (\<lambda>(bs, w, k).
       Inr (s\<lparr>cp_input := w, cp_outbound := bs, cp_kernel := k\<rparr>))"

definition copy_rule1_interest :: "'k copy_state \<Rightarrow> bool" where
  "copy_rule1_interest s \<longleftrightarrow>
     \<not> ByteStream_error (cp_outbound s) \<and> ByteStream_remaining_capacity (cp_outbound s) > 0 \<and> \<not> ByteStream_error (cp_inbound s)"

definition copy_rule1_cancel :: "'k copy_state \<Rightarrow> 'k copy_state result" where
  "copy_rule1_cancel s = Inr (s\<lparr>cp_outbound := ByteStream_end_input (cp_outbound s)\<rparr>)"

definition copy_rule2 :: "'k copy_kernel \<Rightarrow> 'k copy_state \<Rightarrow> 'k copy_state result" where
  "copy_rule2 ck s =
     rbind (copy_drain (ck_socket_writev ck) (cp_socket s) (cp_outbound s) (cp_kernel s)) (\<lambda>(bs, w, k).
       let s = s\<lparr>cp_socket := w, cp_outbound := bs, cp_kernel := k\<rparr> in
       if ByteStream_eof bs then
         case ck_shutdown ck k (fd_num w) SHUT_WR of (sr, k) \<Rightarrow>
           rbind (Socket_shutdown w SHUT_WR (\<lambda>_ _. sr)) (\<lambda>w.
             Inr (s\<lparr>cp_socket := w, cp_outbound_shutdown := True, cp_kernel := k\<rparr>))
       else Inr s)"

definition copy_rule2_interest :: "'k copy_state \<Rightarrow> bool" where
  "copy_rule2_interest s \<longleftrightarrow>
     \<not> ByteStream_buffer_empty (cp_outbound s) \<or> (ByteStream_eof (cp_outbound s) \<and> \<not> cp_outbound_shutdown s)"

definition copy_rule2_cancel :: "'k copy_state \<Rightarrow> 'k copy_state result" where
  "copy_rule2_cancel s = Inr (s\<lparr>cp_outbound := ByteStream_set_error (cp_outbound s)\<rparr>)"

definition copy_rule3 :: "'k copy_kernel \<Rightarrow> 'k copy_state \<Rightarrow> 'k copy_state result" where
  "copy_rule3 ck s =
     rbind (copy_fill (ck_socket_read ck) (cp_socket s) (cp_inbound s) (cp_kernel s)) (\<lambda>(bs, w, k).
       Inr (s\<lparr>cp_socket := w, cp_inbound := bs, cp_kernel := k\<rparr>))"

definition copy_rule3_interest :: "'k copy_state \<Rightarrow> bool" where
  "copy_rule3_interest s \<longleftrightarrow>
     \<not> ByteStream_error (cp_inbound s) \<and> ByteStream_remaining_capacity (cp_inbound s) > 0 \<and> \<not> ByteStream_error (cp_outbound s)"

definition copy_rule3_cancel :: "'k copy_state \<Rightarrow> 'k copy_state result" where
  "copy_rule3_cancel s = Inr (s\<lparr>cp_inbound := ByteStream_end_input (cp_inbound s)\<rparr>)"

definition copy_rule4 :: "'k copy_kernel \<Rightarrow> 'k copy_state \<Rightarrow> 'k copy_state result" where
  "copy_rule4 ck s =
     rbind (copy_drain (ck_stdout_writev ck) (cp_output s) (cp_inbound s) (cp_kernel s)) (\<lambda>(bs, w, k).
       let s = s\<lparr>cp_output := w, cp_inbound := bs, cp_kernel := k\<rparr> in
       if ByteStream_eof bs then
         case ck_close ck k of (sr, k) \<Rightarrow>
           rbind (FDWrapper_close w sr) (\<lambda>w. Inr (s\<lparr>cp_output := w, cp_inbound_shutdown := True, cp_kernel := k\<rparr>))
       else Inr s)"

definition copy_rule4_interest :: "'k copy_state \<Rightarrow> bool" where
  "copy_rule4_interest s \<longleftrightarrow>
     \<not> ByteStream_buffer_empty (cp_inbound s) \<or> (ByteStream_eof (cp_inbound s) \<and> \<not> cp_inbound_shutdown s)"

definition copy_rule4_cancel :: "'k copy_state \<Rightarrow> 'k copy_state result" where
  "copy_rule4_cancel s = Inr (s\<lparr>cp_inbound := ByteStream_set_error (cp_inbound s)\<rparr>)"

section \<open>The function\<close>

definition copy_init :: "fd_wrapper \<Rightarrow> 'k \<Rightarrow> 'k copy_state result" where
  "copy_init socket k =
     rbind (FDWrapper_new STDIN_FILENO) (\<lambda>input.
     rbind (FDWrapper_new STDOUT_FILENO) (\<lambda>output.
       Inr \<lparr>cp_socket = socket, cp_input = input, cp_output = output, cp_outbound = ByteStream_new buffer_size,
            cp_inbound = ByteStream_new buffer_size, cp_outbound_shutdown = False, cp_inbound_shutdown = False, cp_kernel = k\<rparr>))"

definition copy_rules :: "'k copy_kernel \<Rightarrow> 'k copy_state event_loop" where
  "copy_rules ck =
     (let el = \<lparr>el_rules = []\<rparr>;
          el = EventLoop_add_rule el COPY_INPUT Direction_In (copy_rule1 ck) copy_rule1_interest copy_rule1_cancel;
          el = EventLoop_add_rule el COPY_SOCKET Direction_Out (copy_rule2 ck) copy_rule2_interest copy_rule2_cancel;
          el = EventLoop_add_rule el COPY_SOCKET Direction_In (copy_rule3 ck) copy_rule3_interest copy_rule3_cancel
      in EventLoop_add_rule el COPY_OUTPUT Direction_Out (copy_rule4 ck) copy_rule4_interest copy_rule4_cancel)"

definition copy_poll ::
  "'k copy_kernel \<Rightarrow> 'k copy_state \<Rightarrow> pollfd list \<Rightarrow> int \<Rightarrow> sys_ret \<times> (nat \<Rightarrow> u16) \<times> 'k copy_state" where
  "copy_poll ck s pollfds timeout =
     (case ck_poll ck (cp_kernel s) pollfds timeout of (sr, revents, k) \<Rightarrow> (sr, revents, s\<lparr>cp_kernel := k\<rparr>))"

partial_function (option) copy_loop ::
  "'k copy_kernel \<Rightarrow> 'k copy_state event_loop \<times> 'k copy_state \<Rightarrow> 'k copy_state result option" where
  "copy_loop ck els =
     (case EventLoop_wait_next_event copy_wrapper (copy_poll ck) (-1) els of
        Inl e \<Rightarrow> Some (Inl e)
      | Inr (ret, el, s) \<Rightarrow> if ret = EL_Exit then Some (Inr s) else copy_loop ck (el, s))"

text \<open>\<open>getfl\<close> and \<open>setfl\<close> answer the calls of \<open>fcntl\<close> on each of the three descriptors.\<close>

definition bidirectional_stream_copy ::
  "'k copy_kernel \<Rightarrow> (int \<Rightarrow> sys_ret) \<Rightarrow> (int \<Rightarrow> u32 \<Rightarrow> sys_ret) \<Rightarrow> fd_wrapper \<Rightarrow> 'k \<Rightarrow> 'k copy_state result" where
  "bidirectional_stream_copy ck getfl setfl socket k =
     rbind (copy_init socket k) (\<lambda>s.
     rbind (FileDescriptor_set_blocking False (getfl (fd_num (cp_socket s))) (setfl (fd_num (cp_socket s)))) (\<lambda>_.
     rbind (FileDescriptor_set_blocking False (getfl (fd_num (cp_input s))) (setfl (fd_num (cp_input s)))) (\<lambda>_.
     rbind (FileDescriptor_set_blocking False (getfl (fd_num (cp_output s))) (setfl (fd_num (cp_output s)))) (\<lambda>_.
       case copy_loop ck (copy_rules ck, s) of None \<Rightarrow> Inl Nontermination | Some r \<Rightarrow> r))))"

section \<open>One direction\<close>

text \<open>
  What \<open>read\<close> promises: it returns at most what was asked for, and \<open>fetched\<close>, all that was read so far, grows by
  exactly that.
\<close>

definition reads_append :: "('k \<Rightarrow> u64 \<Rightarrow> (sys_ret \<times> byte list) \<times> 'k) \<Rightarrow> ('k \<Rightarrow> byte list) \<Rightarrow> bool" where
  "reads_append sys_read fetched \<longleftrightarrow>
     (\<forall>k n. case sys_read k n of (((r, errno), str), k') \<Rightarrow>
        0 \<le> r \<and> r \<le> int n \<and> nat r \<le> length str \<and> fetched k' = fetched k @ take (nat r) str)"

lemma reads_appendD:
  assumes "reads_append sys_read fetched" "sys_read k n = (((r, errno), str), k')"
  shows "0 \<le> r" "r \<le> int n" "nat r \<le> length str" "fetched k' = fetched k @ take (nat r) str"
  using assms(1)[unfolded reads_append_def, THEN spec[of _ k], THEN spec[of _ n]] assms(2) by simp_all

lemma fd_read_ok:
  assumes "reads_append sys_read fetched"
  shows "\<exists>d w' n. FileDescriptor_read sys_read w limit k = Inr (d, w', snd (sys_read k n)) \<and> length d \<le> limit \<and>
    fetched (snd (sys_read k n)) = fetched k @ d \<and> (fd_eof w' \<longrightarrow> fd_eof w \<or> d = [])"
proof -
  let ?n = "min BUFFER_SIZE limit"
  obtain r e str k' where rd: "sys_read k ?n = (((r, e), str), k')" by (metis surj_pair)
  note d = reads_appendD[OF assms rd]
  have "r < 2 ^ 31" using d(2) by (simp add: BUFFER_SIZE_def)
  then have sc: "SystemCall ''read'' (r, e) 0 = Inr r" using d(1) by (simp add: SystemCall_def to_int32_small)
  have "FileDescriptor_read sys_read w limit k =
      Inr (take (nat r) str, register_read (if limit > 0 \<and> r = 0 then w\<lparr>fd_eof := True\<rparr> else w), k')"
    using d sc by (simp add: FileDescriptor_read_def rd string_resize_def)
  moreover have "length (take (nat r) str) \<le> limit" using d(2) by simp
  ultimately show ?thesis using d(4) rd
    by (intro exI[of _ "take (nat r) str"] exI[of _ "register_read (if limit > 0 \<and> r = 0 then w\<lparr>fd_eof := True\<rparr> else w)"] exI[of _ ?n])
       (auto simp: register_read_def)
qed

lemma copy_fill_ok:
  assumes r: "reads_append sys_read fetched" and inv: "bs_inv bs"
  shows "\<exists>bs' w' n. copy_fill sys_read w bs k = Inr (bs', w', snd (sys_read k n)) \<and> bs_inv bs' \<and> bs_capacity bs' = bs_capacity bs \<and>
    (\<exists>d. fetched (snd (sys_read k n)) = fetched k @ d \<and> bs_bytes bs' = bs_bytes bs @ d)"
proof -
  obtain d w' n where rd: "FileDescriptor_read sys_read w (ByteStream_remaining_capacity bs) k = Inr (d, w', snd (sys_read k n))"
    and d: "length d \<le> ByteStream_remaining_capacity bs" "fetched (snd (sys_read k n)) = fetched k @ d"
    using fd_read_ok[OF r] by metis
  have "fst (ByteStream_write bs d) = length d" using d(1) inv by (simp add: write_length bs_remaining)
  then have "bs_bytes (snd (ByteStream_write bs d)) = bs_bytes bs @ d" by (simp add: write_bytes)
  then show ?thesis using rd d(2) write_inv[OF inv, of d] by (auto simp: copy_fill_def Let_def)
qed

lemma write_once_kernel:
  assumes "FileDescriptor_write writev w k buffer False = Inr (n, w', k')"
  shows "k' = snd (writev k (BufferViewList_as_iovecs buffer))"
  using assms
  by (auto simp: FileDescriptor_write_def FileDescriptor_write_loop.simps[of _ False] Let_def rbind_Inr_conv split: prod.splits if_splits)

lemma copy_drain_ok:
  assumes t: "takes_prefix writev taken" and inv: "bs_inv bs"
  shows "\<exists>bs' w' iov. copy_drain writev w bs k = Inr (bs', w', snd (writev k iov)) \<and> bs_inv bs' \<and> bs_if_end bs' = bs_if_end bs \<and>
    (bs_size bs = 0 \<longrightarrow> bs_size bs' = 0) \<and> taken (snd (writev k iov)) @ bs_bytes bs' = taken k @ bs_bytes bs"
proof -
  let ?d = "ByteStream_peek_output bs (min max_copy_length (ByteStream_buffer_size bs))"
  have m: "min max_copy_length (ByteStream_buffer_size bs) < two64" by (simp add: max_copy_length_def)
  have d: "?d = take (min max_copy_length (bs_size bs)) (bs_bytes bs)"
    using peek_bytes[OF inv m] by (simp add: ByteStream_buffer_size_def)
  have "0 + length (concat (BufferViewList_of_string ?d)) < 2 ^ 63"
    unfolding d by (simp add: BufferViewList_of_string_def max_copy_length_def)
  from write_loop_ok[OF t this, of False w k] obtain n w' k' where
    w: "FileDescriptor_write writev w k (BufferViewList_of_string ?d) False = Inr (n, w', k')"
    and n: "n \<le> length ?d" and k': "taken k' = taken k @ take n ?d"
    by (auto simp: FileDescriptor_write_def BufferViewList_of_string_def)
  have nb: "n < two64" using n unfolding d by (simp add: max_copy_length_def)
  obtain bs' where p: "ByteStream_pop_output bs n = Inr bs'" "bs_inv bs'" "bs_bytes bs' = drop n (bs_bytes bs)"
    "bs_if_end bs' = bs_if_end bs" "bs_size bs' = bs_size bs - min n (bs_size bs)"
    using pop_ok[OF inv nb] by blast
  have "take n ?d @ drop n (bs_bytes bs) = bs_bytes bs" using n unfolding d by simp
  then show ?thesis using w p k' write_once_kernel[OF w]
    by (intro exI[of _ bs'] exI[of _ w'] exI[of _ "BufferViewList_as_iovecs (BufferViewList_of_string ?d)"])
       (simp add: copy_drain_def Let_def)
qed

section \<open>Both directions\<close>

text \<open>
  The kernel keeps four logs: what was read from standard input (\<open>fi\<close>), taken by the socket (\<open>ts\<close>), read from the socket
  (\<open>fs\<close>) and taken by standard output (\<open>ot\<close>).  A call on one descriptor leaves the logs of the others alone.
\<close>

definition untouched :: "('k \<Rightarrow> 'k) \<Rightarrow> ('k \<Rightarrow> byte list) list \<Rightarrow> bool" where
  "untouched h logs \<longleftrightarrow> (\<forall>g\<in>set logs. \<forall>k. g (h k) = g k)"

definition copy_contract ::
  "'k copy_kernel \<Rightarrow> ('k \<Rightarrow> byte list) \<Rightarrow> ('k \<Rightarrow> byte list) \<Rightarrow> ('k \<Rightarrow> byte list) \<Rightarrow> ('k \<Rightarrow> byte list) \<Rightarrow> bool" where
  "copy_contract ck fi ts fs ot \<longleftrightarrow>
     reads_append (ck_stdin_read ck) fi \<and> (\<forall>n. untouched (\<lambda>k. snd (ck_stdin_read ck k n)) [ts, fs, ot]) \<and>
     takes_prefix (ck_socket_writev ck) ts \<and> (\<forall>iov. untouched (\<lambda>k. snd (ck_socket_writev ck k iov)) [fi, fs, ot]) \<and>
     reads_append (ck_socket_read ck) fs \<and> (\<forall>n. untouched (\<lambda>k. snd (ck_socket_read ck k n)) [fi, ts, ot]) \<and>
     takes_prefix (ck_stdout_writev ck) ot \<and> (\<forall>iov. untouched (\<lambda>k. snd (ck_stdout_writev ck k iov)) [fi, ts, fs]) \<and>
     (\<forall>fd how. untouched (\<lambda>k. snd (ck_shutdown ck k fd how)) [fi, ts, fs, ot]) \<and> (\<forall>k fd how. fst (ck_shutdown ck k fd how) = (0, 0)) \<and>
     untouched (\<lambda>k. snd (ck_close ck k)) [fi, ts, fs, ot] \<and> (\<forall>k. fst (ck_close ck k) = (0, 0))"

datatype copy_op = Copy1 | Copy1_cancel | Copy2 | Copy2_cancel | Copy3 | Copy3_cancel | Copy4 | Copy4_cancel

fun copy_step :: "'k copy_kernel \<Rightarrow> 'k copy_state \<Rightarrow> copy_op \<Rightarrow> 'k copy_state result" where
  "copy_step ck s Copy1 = copy_rule1 ck s"
| "copy_step ck s Copy1_cancel = copy_rule1_cancel s"
| "copy_step ck s Copy2 = copy_rule2 ck s"
| "copy_step ck s Copy2_cancel = copy_rule2_cancel s"
| "copy_step ck s Copy3 = copy_rule3 ck s"
| "copy_step ck s Copy3_cancel = copy_rule3_cancel s"
| "copy_step ck s Copy4 = copy_rule4 ck s"
| "copy_step ck s Copy4_cancel = copy_rule4_cancel s"

text \<open>A rule that reads is removed by the event loop once its descriptor is at its end.\<close>

fun copy_op_ok :: "'k copy_state \<Rightarrow> copy_op \<Rightarrow> bool" where
  "copy_op_ok s Copy1 = (\<not> ByteStream_input_ended (cp_outbound s))"
| "copy_op_ok s Copy3 = (\<not> ByteStream_input_ended (cp_inbound s))"
| "copy_op_ok s _ = True"

definition copy_inv ::
  "'k copy_kernel \<Rightarrow> ('k \<Rightarrow> byte list) \<Rightarrow> ('k \<Rightarrow> byte list) \<Rightarrow> ('k \<Rightarrow> byte list) \<Rightarrow> ('k \<Rightarrow> byte list) \<Rightarrow> 'k copy_state \<Rightarrow> bool" where
  "copy_inv ck fi ts fs ot s \<longleftrightarrow>
     copy_contract ck fi ts fs ot \<and> bs_inv (cp_outbound s) \<and> bs_inv (cp_inbound s) \<and>
     fi (cp_kernel s) = ts (cp_kernel s) @ bs_bytes (cp_outbound s) \<and>
     fs (cp_kernel s) = ot (cp_kernel s) @ bs_bytes (cp_inbound s) \<and>
     (cp_outbound_shutdown s \<longrightarrow> ByteStream_eof (cp_outbound s)) \<and> (cp_inbound_shutdown s \<longrightarrow> ByteStream_eof (cp_inbound s))"

lemma contract_logs:
  assumes "copy_contract ck fi ts fs ot"
  shows "ts (snd (ck_stdin_read ck k n)) = ts k" "fs (snd (ck_stdin_read ck k n)) = fs k" "ot (snd (ck_stdin_read ck k n)) = ot k"
    "fi (snd (ck_socket_writev ck k iov)) = fi k" "fs (snd (ck_socket_writev ck k iov)) = fs k" "ot (snd (ck_socket_writev ck k iov)) = ot k"
    "fi (snd (ck_socket_read ck k n)) = fi k" "ts (snd (ck_socket_read ck k n)) = ts k" "ot (snd (ck_socket_read ck k n)) = ot k"
    "fi (snd (ck_stdout_writev ck k iov)) = fi k" "ts (snd (ck_stdout_writev ck k iov)) = ts k" "fs (snd (ck_stdout_writev ck k iov)) = fs k"
    "\<exists>k'. ck_shutdown ck k fd how = ((0, 0), k') \<and> fi k' = fi k \<and> ts k' = ts k \<and> fs k' = fs k \<and> ot k' = ot k"
    "\<exists>k'. ck_close ck k = ((0, 0), k') \<and> fi k' = fi k \<and> ts k' = ts k \<and> fs k' = fs k \<and> ot k' = ot k"
  using assms unfolding copy_contract_def untouched_def
  by simp_all (metis surjective_pairing)+

lemma eof_flags [simp]:
  "ByteStream_eof (ByteStream_end_input bs) = (bs_size bs = 0)" "ByteStream_eof (ByteStream_set_error bs) = ByteStream_eof bs"
  by (simp_all add: ByteStream_eof_def)

lemma shutdown_ok: "\<exists>w'. Socket_shutdown w SHUT_WR (\<lambda>_ _. (0, 0)) = Inr w'"
  by (simp add: Socket_shutdown_def SystemCall_def to_int32_small SHUT_RD_def SHUT_WR_def)

lemma close_ok: "\<exists>w'. FDWrapper_close w (0, 0) = Inr w'"
  by (simp add: FDWrapper_close_def SystemCall_def to_int32_small)

lemma copy_rule1_inv:
  assumes inv: "copy_inv ck fi ts fs ot s" and ok: "\<not> ByteStream_input_ended (cp_outbound s)"
  shows "\<exists>s'. copy_rule1 ck s = Inr s' \<and> copy_inv ck fi ts fs ot s'"
proof -
  have c: "copy_contract ck fi ts fs ot" and b: "bs_inv (cp_outbound s)" using inv by (simp_all add: copy_inv_def)
  have r: "reads_append (ck_stdin_read ck) fi" using c by (simp add: copy_contract_def)
  obtain bs' w' n d where f: "copy_fill (ck_stdin_read ck) (cp_input s) (cp_outbound s) (cp_kernel s) =
      Inr (bs', w', snd (ck_stdin_read ck (cp_kernel s) n))" "bs_inv bs'"
    "fi (snd (ck_stdin_read ck (cp_kernel s) n)) = fi (cp_kernel s) @ d" "bs_bytes bs' = bs_bytes (cp_outbound s) @ d"
    using copy_fill_ok[OF r b] by metis
  have "\<not> cp_outbound_shutdown s" using inv ok by (auto simp: copy_inv_def ByteStream_eof_def ByteStream_input_ended_def)
  then show ?thesis using f inv contract_logs[OF c] by (simp add: copy_rule1_def copy_inv_def)
qed

lemma copy_rule3_inv:
  assumes inv: "copy_inv ck fi ts fs ot s" and ok: "\<not> ByteStream_input_ended (cp_inbound s)"
  shows "\<exists>s'. copy_rule3 ck s = Inr s' \<and> copy_inv ck fi ts fs ot s'"
proof -
  have c: "copy_contract ck fi ts fs ot" and b: "bs_inv (cp_inbound s)" using inv by (simp_all add: copy_inv_def)
  have r: "reads_append (ck_socket_read ck) fs" using c by (simp add: copy_contract_def)
  obtain bs' w' n d where f: "copy_fill (ck_socket_read ck) (cp_socket s) (cp_inbound s) (cp_kernel s) =
      Inr (bs', w', snd (ck_socket_read ck (cp_kernel s) n))" "bs_inv bs'"
    "fs (snd (ck_socket_read ck (cp_kernel s) n)) = fs (cp_kernel s) @ d" "bs_bytes bs' = bs_bytes (cp_inbound s) @ d"
    using copy_fill_ok[OF r b] by metis
  have "\<not> cp_inbound_shutdown s" using inv ok by (auto simp: copy_inv_def ByteStream_eof_def ByteStream_input_ended_def)
  then show ?thesis using f inv contract_logs[OF c] by (simp add: copy_rule3_def copy_inv_def)
qed

lemma copy_rule2_inv:
  assumes inv: "copy_inv ck fi ts fs ot s"
  shows "\<exists>s'. copy_rule2 ck s = Inr s' \<and> copy_inv ck fi ts fs ot s'"
proof -
  have c: "copy_contract ck fi ts fs ot" and b: "bs_inv (cp_outbound s)" using inv by (simp_all add: copy_inv_def)
  have t: "takes_prefix (ck_socket_writev ck) ts" using c by (simp add: copy_contract_def)
  obtain bs' w' iov where f: "copy_drain (ck_socket_writev ck) (cp_socket s) (cp_outbound s) (cp_kernel s) =
      Inr (bs', w', snd (ck_socket_writev ck (cp_kernel s) iov))" "bs_inv bs'" "bs_if_end bs' = bs_if_end (cp_outbound s)"
    "bs_size (cp_outbound s) = 0 \<longrightarrow> bs_size bs' = 0"
    "ts (snd (ck_socket_writev ck (cp_kernel s) iov)) @ bs_bytes bs' = ts (cp_kernel s) @ bs_bytes (cp_outbound s)"
    using copy_drain_ok[OF t b] by metis
  define k where "k = snd (ck_socket_writev ck (cp_kernel s) iov)"
  obtain k' where sh: "ck_shutdown ck k (fd_num w') SHUT_WR = ((0, 0), k')" "fi k' = fi k" "ts k' = ts k" "fs k' = fs k" "ot k' = ot k" using contract_logs(13,14)[OF c] by blast
  obtain w where w: "Socket_shutdown w' SHUT_WR (\<lambda>_ _. (0, 0)) = Inr w" using shutdown_ok by blast
  have "cp_outbound_shutdown s \<longrightarrow> ByteStream_eof bs'" using inv f(3,4) by (auto simp: copy_inv_def ByteStream_eof_def)
  then show ?thesis using f inv sh w contract_logs(4,5,6)[OF c] by (cases "ByteStream_eof bs'") (simp_all add: copy_rule2_def copy_inv_def k_def Let_def)
qed

lemma copy_rule4_inv:
  assumes inv: "copy_inv ck fi ts fs ot s"
  shows "\<exists>s'. copy_rule4 ck s = Inr s' \<and> copy_inv ck fi ts fs ot s'"
proof -
  have c: "copy_contract ck fi ts fs ot" and b: "bs_inv (cp_inbound s)" using inv by (simp_all add: copy_inv_def)
  have t: "takes_prefix (ck_stdout_writev ck) ot" using c by (simp add: copy_contract_def)
  obtain bs' w' iov where f: "copy_drain (ck_stdout_writev ck) (cp_output s) (cp_inbound s) (cp_kernel s) =
      Inr (bs', w', snd (ck_stdout_writev ck (cp_kernel s) iov))" "bs_inv bs'" "bs_if_end bs' = bs_if_end (cp_inbound s)"
    "bs_size (cp_inbound s) = 0 \<longrightarrow> bs_size bs' = 0"
    "ot (snd (ck_stdout_writev ck (cp_kernel s) iov)) @ bs_bytes bs' = ot (cp_kernel s) @ bs_bytes (cp_inbound s)"
    using copy_drain_ok[OF t b] by metis
  define k where "k = snd (ck_stdout_writev ck (cp_kernel s) iov)"
  obtain k' where cl: "ck_close ck k = ((0, 0), k')" "fi k' = fi k" "ts k' = ts k" "fs k' = fs k" "ot k' = ot k" using contract_logs(13,14)[OF c] by blast
  obtain w where w: "FDWrapper_close w' (0, 0) = Inr w" using close_ok by blast
  have "cp_inbound_shutdown s \<longrightarrow> ByteStream_eof bs'" using inv f(3,4) by (auto simp: copy_inv_def ByteStream_eof_def)
  then show ?thesis using f inv cl w contract_logs(10,11,12)[OF c] by (cases "ByteStream_eof bs'") (simp_all add: copy_rule4_def copy_inv_def k_def Let_def)
qed

interpretation copier: step_system "copy_step ck" copy_op_ok "copy_inv ck fi ts fs ot" "\<lambda>_. 0" for ck fi ts fs ot
proof
  fix s p assume inv: "copy_inv ck fi ts fs ot s" and ok: "copy_op_ok s p"
  have "\<exists>s'. copy_step ck s p = Inr s' \<and> copy_inv ck fi ts fs ot s'"
    using ok copy_rule1_inv[OF inv] copy_rule2_inv[OF inv] copy_rule3_inv[OF inv] copy_rule4_inv[OF inv] inv
    by (cases p) (auto simp: copy_rule1_cancel_def copy_rule2_cancel_def copy_rule3_cancel_def copy_rule4_cancel_def copy_inv_def
        ByteStream_eof_def)
  then show "\<exists>s'. copy_step ck s p = Inr s' \<and> copy_inv ck fi ts fs ot s' \<and> (0 :: nat) \<le> 0" by simp
qed

section \<open>Properties\<close>


text \<open>A kernel whose logs are its state; reads and writes move at most two bytes.\<close>

record copy_log =
  cl_stdin :: "byte list"
  cl_peer :: "byte list"
  cl_fi :: "byte list"
  cl_ts :: "byte list"
  cl_fs :: "byte list"
  cl_ot :: "byte list"

definition log_kernel :: "copy_log copy_kernel" where
  "log_kernel = \<lparr>
     ck_stdin_read = (\<lambda>k n. let d = take (min 2 n) (cl_stdin k)
       in (((int (length d), 0), d), k\<lparr>cl_stdin := drop (length d) (cl_stdin k), cl_fi := cl_fi k @ d\<rparr>)),
     ck_stdout_writev = (\<lambda>k iov. let d = take 2 (concat iov) in ((int (length d), 0), k\<lparr>cl_ot := cl_ot k @ d\<rparr>)),
     ck_socket_read = (\<lambda>k n. let d = take (min 2 n) (cl_peer k)
       in (((int (length d), 0), d), k\<lparr>cl_peer := drop (length d) (cl_peer k), cl_fs := cl_fs k @ d\<rparr>)),
     ck_socket_writev = (\<lambda>k iov. let d = take 2 (concat iov) in ((int (length d), 0), k\<lparr>cl_ts := cl_ts k @ d\<rparr>)),
     ck_shutdown = (\<lambda>k fd how. ((0, 0), k)), ck_close = (\<lambda>k. ((0, 0), k)), ck_poll = (\<lambda>k pollfds timeout. ((0, 0), \<lambda>_. 0, k))\<rparr>"

definition log_start :: copy_log where
  "log_start = \<lparr>cl_stdin = [1, 2, 3], cl_peer = [9], cl_fi = [], cl_ts = [], cl_fs = [], cl_ot = []\<rparr>"

lemma log_contract: "copy_contract log_kernel cl_fi cl_ts cl_fs cl_ot"
  by (auto simp: copy_contract_def untouched_def reads_append_def takes_prefix_def log_kernel_def Let_def min_def simp del: length_concat)

definition log_socket :: fd_wrapper where
  "log_socket = \<lparr>fd_num = 3, fd_eof = False, fd_closed = False, fd_read_count = 0, fd_write_count = 0\<rparr>"



definition log_done :: "copy_log copy_state" where
  "log_done = \<lparr>cp_socket = log_socket\<lparr>fd_eof := True\<rparr>, cp_input = log_socket\<lparr>fd_eof := True\<rparr>, cp_output = log_socket\<lparr>fd_closed := True\<rparr>,
     cp_outbound = ByteStream_end_input (ByteStream_new 8), cp_inbound = ByteStream_end_input (ByteStream_new 8),
     cp_outbound_shutdown = True, cp_inbound_shutdown = True, cp_kernel = log_start\<rparr>"


end
