(* ===== verification/Packet_Dump.thy ===== *)
theory Packet_Dump
  imports IPv4 Checksum TCP_Segment
begin

text \<open>
  Showing packets: the hex dump (\<open>util/util.cc\<close>), the text of a TCP header (\<open>tcp_helpers/tcp_header.cc\<close>), the programs that
  print what arrives at a TUN device (\<open>apps/tun.cc\<close>) and the TCP segments inside captured UDP packets
  (\<open>apps/udp_tcpdump.cc\<close>).  Text written to \<open>cout\<close> is a string.  The capture library and \<open>inet_ntop\<close> are arguments.
\<close>

section \<open>hexdump\<close>

definition setw :: "nat \<Rightarrow> char \<Rightarrow> string \<Rightarrow> string" where
  "setw width fill s = replicate (width - length s) fill @ s"

definition isprint :: "byte \<Rightarrow> bool" where
  "isprint b \<longleftrightarrow> 32 \<le> unat b \<and> unat b \<le> 126"

definition spaces :: "nat \<Rightarrow> string" where
  "spaces n = replicate n (CHR '' '')"

text \<open>
  The string stream \<open>pchars\<close> starts with the content of one space and its write position at the front, so the first
  character written replaces the space.
\<close>

definition pchars_str :: "string \<Rightarrow> string" where
  "pchars_str written = (if written = [] then '' '' else written)"

definition dump_char :: "byte \<Rightarrow> char" where
  "dump_char b = (if isprint b then char_of (unat b) else CHR ''.'')"

fun hexdump_loop :: "nat \<Rightarrow> byte list \<Rightarrow> string \<Rightarrow> string \<Rightarrow> nat \<Rightarrow> string \<times> string \<times> nat" where
  "hexdump_loop indent [] out pchars printed = (out, pchars, printed)"
| "hexdump_loop indent (b # data) out pchars printed =
     (let (out, pchars) =
            (if printed mod 16 = 0 then
               let (out, pchars) = (if printed \<noteq> 0 then (out @ ''    '' @ pchars_str pchars @ newline, []) else (out, pchars))
               in (out @ spaces indent @ setw 8 (CHR ''0'') (hex_string printed) @ '':    '', pchars)
             else if printed mod 2 = 0 then (out @ '' '', pchars) else (out, pchars))
      in hexdump_loop indent data (out @ setw 2 (CHR ''0'') (hex_string (unat b))) (pchars @ [dump_char b]) (printed + 1))"

text \<open>For less than \<open>2 ^ 31\<close> bytes, so that neither counter overflows.\<close>

definition hexdump :: "byte list \<Rightarrow> nat \<Rightarrow> string" where
  "hexdump data indent =
     (let (out, pchars, printed) = hexdump_loop indent data [] [] 0;
          print_rem = (16 - printed mod 16) mod 16
      in out @ spaces (2 * print_rem + print_rem div 2 + 4) @ pchars_str pchars @ newline @ newline)"

section \<open>The text of a TCP header\<close>

definition TCPHeader_to_string :: "tcp_header \<Rightarrow> string" where
  "TCPHeader_to_string h =
     ''TCP source port: '' @ hex_string (unat (sport h)) @ newline @
     ''TCP dest port: '' @ hex_string (unat (dport h)) @ newline @
     ''TCP seqno: '' @ hex_string (unat (seqno h)) @ newline @
     ''TCP ackno: '' @ hex_string (unat (ackno h)) @ newline @
     ''TCP doff: '' @ hex_string (unat (doff h)) @ newline @
     ''Flags: urg: '' @ bool_string (urg h) @ '' ack: '' @ bool_string (ack h) @ '' psh: '' @ bool_string (psh h) @
     '' rst: '' @ bool_string (rst h) @ '' syn: '' @ bool_string (syn h) @ '' fin: '' @ bool_string (fin h) @ newline @
     ''TCP winsize: '' @ hex_string (unat (win h)) @ newline @
     ''TCP cksum: '' @ hex_string (unat (cksum h)) @ newline @
     ''TCP uptr: '' @ hex_string (unat (uptr h)) @ newline"

definition TCPHeader_summary :: "tcp_header \<Rightarrow> string" where
  "TCPHeader_summary h =
     ''Header(flags='' @ (if syn h then ''S'' else '''') @ (if ack h then ''A'' else '''') @ (if rst h then ''R'' else '''') @
     (if fin h then ''F'' else '''') @ '',seqno='' @ dec_string (unat (seqno h)) @ '',ack='' @ dec_string (unat (ackno h)) @
     '',win='' @ dec_string (unat (win h)) @ '')''"

section \<open>tun\<close>

text \<open>What the loop of \<open>tun.cc\<close> prints for one packet.\<close>

definition tun_show_segment :: "ipv4_datagram \<Rightarrow> string result" where
  "tun_show_segment ip_dgram =
     rbind (BufferList_to_Buffer (dg_payload ip_dgram)) (\<lambda>payload.
     rbind (TCPSegment_parse TCPSegment_default payload (IPv4Header_pseudo_cksum (dg_header ip_dgram))) (\<lambda>(tcp_seg, res).
       if res \<noteq> NoError then Inr (''failed.'' @ newline)
       else Inr (''success! payload len='' @ dec_string (Buffer_size (ts_payload tcp_seg)) @ '', TCP header contents:'' @ newline @
                 TCPHeader_to_string (ts_header tcp_seg) @ newline)))"

definition tun_show_packet :: "byte list \<Rightarrow> string result" where
  "tun_show_packet buffer =
     (let out = newline @ newline @ ''***'' @ newline @ ''*** Got packet:'' @ newline @ ''***'' @ newline @ hexdump buffer 0 @
                ''attempting to parse as ipv4 datagram... ''
      in rbind (IPv4Datagram_parse IPv4Datagram_default (Buffer_of buffer)) (\<lambda>(ip_dgram, res).
         if res \<noteq> NoError then Inr (out @ ''failed.'' @ newline)
         else let out = out @ ''success! totlen='' @ dec_string (unat (ip_len (dg_header ip_dgram))) @ '', IPv4 header contents:'' @ newline @
                        IPv4Header_to_string (dg_header ip_dgram)
              in if ip_proto (dg_header ip_dgram) \<noteq> PROTO_TCP then Inr (out @ newline @ ''Not TCP, skipping.'' @ newline)
                 else rbind (tun_show_segment ip_dgram) (\<lambda>rest.
                        Inr (out @ newline @ ''Attempting to parse as a TCP segment... '' @ rest))))"

section \<open>udp_tcpdump: finding the UDP payload\<close>

text \<open>Reading through a pointer to the captured bytes.\<close>

definition byte_at :: "byte list \<Rightarrow> nat \<Rightarrow> byte result" where
  "byte_at data i = (if i < length data then Inr (data ! i) else Inl (Undefined_behaviour ''read past the captured bytes''))"

definition bytes_at :: "byte list \<Rightarrow> nat \<Rightarrow> nat \<Rightarrow> byte list result" where
  "bytes_at data i n =
     (if i + n \<le> length data then Inr (take n (drop i data)) else Inl (Undefined_behaviour ''read past the captured bytes''))"

text \<open>\<open>inet_ntop\<close> takes the 4 or 16 bytes of an address.\<close>

definition inet_addr_text :: "(byte list \<Rightarrow> string option) \<Rightarrow> byte list \<Rightarrow> string" where
  "inet_addr_text inet_ntop addr = (case inet_ntop addr of None \<Rightarrow> ''unknown'' | Some s \<Rightarrow> s)"

definition inet4_addr :: "(byte list \<Rightarrow> string option) \<Rightarrow> byte list \<Rightarrow> nat \<Rightarrow> string result" where
  "inet4_addr inet_ntop data i = rbind (bytes_at data i 4) (\<lambda>addr. Inr (inet_addr_text inet_ntop addr))"

definition inet6_addr :: "(byte list \<Rightarrow> string option) \<Rightarrow> byte list \<Rightarrow> nat \<Rightarrow> string result" where
  "inet6_addr inet_ntop data i = rbind (bytes_at data i 16) (\<lambda>addr. Inr (inet_addr_text inet_ntop addr))"

text \<open>The loop over the extension headers of IPv6; \<open>None\<close> is the return of \<open>-1\<close>.\<close>

function ipv6_extensions :: "nat \<Rightarrow> byte list \<Rightarrow> byte \<Rightarrow> nat \<Rightarrow> nat option result" where
  "ipv6_extensions len data nxt data_offset =
     (if nxt = 0x11 then Inr (Some data_offset)
      else if nxt \<noteq> 0 \<and> nxt \<noteq> 43 \<and> nxt \<noteq> 60 then Inr None
      else rbind (byte_at data data_offset) (\<lambda>nxt.
           rbind (byte_at data (data_offset + 1)) (\<lambda>hdr_len.
             if len < data_offset + 8 * (1 + unat hdr_len) + 2 then Inr None
             else ipv6_extensions len data nxt (data_offset + 8 * (1 + unat hdr_len)))))"
  by pat_completeness auto
termination by (relation "measure (\<lambda>(len, data, nxt, data_offset). len - data_offset)") auto

declare ipv6_extensions.simps [simp del]

definition process_ipv4 :: "(byte list \<Rightarrow> string option) \<Rightarrow> nat \<Rightarrow> byte list \<Rightarrow> (nat \<times> string \<times> string) option result" where
  "process_ipv4 inet_ntop len data =
     rbind (byte_at data 0) (\<lambda>b0.
     let data_offset = unat (and b0 0x0f) * 4 in
     if len < data_offset then Inr None
     else rbind (byte_at data 9) (\<lambda>proto.
       if proto \<noteq> 0x11 then Inr None
       else rbind (inet4_addr inet_ntop data 12) (\<lambda>src_addr.
            rbind (inet4_addr inet_ntop data 16) (\<lambda>dst_addr.
              Inr (Some (data_offset + 8, src_addr, dst_addr))))))"

definition process_ipv6 :: "(byte list \<Rightarrow> string option) \<Rightarrow> nat \<Rightarrow> byte list \<Rightarrow> (nat \<times> string \<times> string) option result" where
  "process_ipv6 inet_ntop len data =
     (if len < 42 then Inr None
      else rbind (byte_at data 6) (\<lambda>nxt.
           rbind (ipv6_extensions len data nxt 40) (\<lambda>off.
           case off of None \<Rightarrow> Inr None
           | Some data_offset \<Rightarrow>
               rbind (inet6_addr inet_ntop data 8) (\<lambda>src_addr.
               rbind (inet6_addr inet_ntop data 24) (\<lambda>dst_addr.
                 Inr (Some (data_offset + 8, src_addr, dst_addr)))))))"

definition process_ipv4_ipv6 :: "(byte list \<Rightarrow> string option) \<Rightarrow> nat \<Rightarrow> byte list \<Rightarrow> (nat \<times> string \<times> string) option result" where
  "process_ipv4_ipv6 inet_ntop len data =
     (if len < 1 then Inr None
      else rbind (byte_at data 0) (\<lambda>b0.
        let pt = and b0 0xf0 in
        if pt = 0x40 then process_ipv4 inet_ntop len data
        else if pt = 0x60 then process_ipv6 inet_ntop len data
        else Inr None))"

section \<open>udp_tcpdump: one captured packet\<close>

datatype datalink = DLT_RAW | DLT_NULL | DLT_EN10MB | DLT_LINUX_SLL | DLT_LINUX_SLL2 | DLT_OTHER

datatype link_result = Link_offset nat | Link_skip | Link_give_up

definition is_ip_ethertype :: "byte \<Rightarrow> byte \<Rightarrow> bool" where
  "is_ip_ethertype hi lo \<longleftrightarrow> (let pt = or (push_bit 8 (ucast hi)) (ucast lo) :: u16 in pt = 0x0800 \<or> pt = 0x86dd)"

definition link_offset :: "datalink \<Rightarrow> byte list \<Rightarrow> link_result result" where
  "link_offset dl_type pkt_data =
     (case dl_type of
        DLT_NULL \<Rightarrow>
          if length pkt_data < 4 then Inr Link_skip
          else rbind (byte_at pkt_data 3) (\<lambda>pt.
               if pt \<noteq> 2 \<and> pt \<noteq> 24 \<and> pt \<noteq> 28 \<and> pt \<noteq> 30 then Inr Link_skip else Inr (Link_offset 4))
      | DLT_EN10MB \<Rightarrow>
          if length pkt_data < 14 then Inr Link_skip
          else rbind (byte_at pkt_data 12) (\<lambda>hi. rbind (byte_at pkt_data 13) (\<lambda>lo.
               if is_ip_ethertype hi lo then Inr (Link_offset 14) else Inr Link_skip))
      | DLT_LINUX_SLL \<Rightarrow>
          if length pkt_data < 16 then Inr Link_skip
          else rbind (byte_at pkt_data 14) (\<lambda>hi. rbind (byte_at pkt_data 15) (\<lambda>lo.
               if is_ip_ethertype hi lo then Inr (Link_offset 16) else Inr Link_skip))
      | DLT_LINUX_SLL2 \<Rightarrow>
          if length pkt_data < 20 then Inr Link_skip
          else rbind (byte_at pkt_data 0) (\<lambda>hi. rbind (byte_at pkt_data 1) (\<lambda>lo.
               if is_ip_ethertype hi lo then Inr (Link_offset 20) else Inr Link_skip))
      | DLT_RAW \<Rightarrow> Inr (Link_offset 0)
      | DLT_OTHER \<Rightarrow> Inr Link_give_up)"

definition dump_flags :: "tcp_header \<Rightarrow> string" where
  "dump_flags h = (if urg h then ''U'' else '''') @ (if psh h then ''P'' else '''') @ (if rst h then ''R'' else '''') @
     (if syn h then ''S'' else '''') @ (if fin h then ''F'' else '''') @ (if ack h then ''.'' else '''')"

definition dump_segment :: "string \<Rightarrow> string \<Rightarrow> tcp_segment \<Rightarrow> parse_result \<Rightarrow> nat \<Rightarrow> string" where
  "dump_segment src dst seg res payload_len =
     (let tcp_hdr = ts_header seg; seqlen = of_nat (TCPSegment_length_in_sequence_space seg) :: u32 in
      src @ '':'' @ dec_string (unat (sport tcp_hdr)) @ '' > '' @ dst @ '':'' @ dec_string (unat (dport tcp_hdr)) @ newline @
      ''    Flags ['' @ dump_flags tcp_hdr @ ''] cksum 0x'' @ setw 4 (CHR ''0'') (hex_string (unat (cksum tcp_hdr))) @
      (if res = NoError then '' (correct)'' else '' (incorrect!)'') @
      '' seq '' @ dec_string (unat (seqno tcp_hdr)) @
      (if seqlen > 0 then '':'' @ dec_string (unat (seqno tcp_hdr + seqlen)) else '''') @
      '' ack '' @ dec_string (unat (ackno tcp_hdr)) @ '' win '' @ dec_string (unat (win tcp_hdr)) @
      '' length '' @ dec_string payload_len @ newline)"

text \<open>The UDP payload runs to the end of the captured bytes; a start beyond them is a pointer outside the buffer.\<close>

definition dump_payload :: "string \<Rightarrow> string \<Rightarrow> nat \<Rightarrow> byte list \<Rightarrow> string result" where
  "dump_payload src dst payload_off pkt_data =
     (if length pkt_data < payload_off then Inl (Undefined_behaviour ''payload past the captured bytes'')
      else let payload = drop payload_off pkt_data in
           rbind (TCPSegment_parse TCPSegment_default (Buffer_of payload) 0) (\<lambda>(seg, res).
             Inr ((if parse_result_index res > parse_result_index BadChecksum
                   then ''(did not recognize TCP header) src: '' @ src @ '' dst: '' @ dst @ newline
                   else dump_segment src dst seg res (length payload)) @
                  hexdump payload 8)))"

text \<open>\<open>None\<close>: the program gives up.\<close>

definition dump_packet :: "(byte list \<Rightarrow> string option) \<Rightarrow> datalink \<Rightarrow> byte list \<Rightarrow> string option result" where
  "dump_packet inet_ntop dl_type pkt_data =
     rbind (link_offset dl_type pkt_data) (\<lambda>link.
     case link of
       Link_give_up \<Rightarrow> Inr None
     | Link_skip \<Rightarrow> Inr (Some [])
     | Link_offset hdr_off \<Rightarrow>
         rbind (process_ipv4_ipv6 inet_ntop (length pkt_data - hdr_off) (drop hdr_off pkt_data)) (\<lambda>found.
         case found of None \<Rightarrow> Inr (Some [])
         | Some (start_off, src, dst) \<Rightarrow>
             rbind (dump_payload src dst (hdr_off + start_off) pkt_data) (\<lambda>out. Inr (Some out))))"

text \<open>What \<open>pcap_next_ex\<close> delivers until it reports an error or the end: a timeout or a packet.\<close>

datatype capture = Capture_timeout | Capture_packet "byte list"

fun dump_loop :: "(byte list \<Rightarrow> string option) \<Rightarrow> datalink \<Rightarrow> capture list \<Rightarrow> string \<Rightarrow> (bool \<times> string) result" where
  "dump_loop inet_ntop dl_type [] out = Inr (True, out)"
| "dump_loop inet_ntop dl_type (Capture_timeout # events) out = dump_loop inet_ntop dl_type events out"
| "dump_loop inet_ntop dl_type (Capture_packet pkt # events) out =
     rbind (dump_packet inet_ntop dl_type pkt) (\<lambda>shown.
       case shown of None \<Rightarrow> Inr (False, out) | Some text \<Rightarrow> dump_loop inet_ntop dl_type events (out @ text))"

section \<open>The hex dump, line by line\<close>

text \<open>The reference: sixteen bytes a line, the bytes in pairs, the text column after them.\<close>

definition hex_group :: "nat \<Rightarrow> byte list \<Rightarrow> string" where
  "hex_group i bs =
     concat (map (\<lambda>(i, b). (if i mod 2 = 0 \<and> i \<noteq> 0 then '' '' else '''') @ setw 2 (CHR ''0'') (hex_string (unat b))) (enumerate i bs))"

definition line_rem :: "byte list \<Rightarrow> nat" where
  "line_rem bs = (16 - length bs mod 16) mod 16"

definition line_hex :: "nat \<Rightarrow> nat \<Rightarrow> byte list \<Rightarrow> string" where
  "line_hex indent off bs = spaces indent @ setw 8 (CHR ''0'') (hex_string off) @ '':    '' @ hex_group 0 bs"

definition dump_line :: "nat \<Rightarrow> nat \<Rightarrow> byte list \<Rightarrow> string" where
  "dump_line indent off bs =
     line_hex indent off bs @ spaces (2 * line_rem bs + line_rem bs div 2 + 4) @ map dump_char bs"

fun dump_lines :: "nat \<Rightarrow> nat \<Rightarrow> byte list \<Rightarrow> string list" where
  "dump_lines indent off data =
     (if length data \<le> 16 then [dump_line indent off data]
      else dump_line indent off (take 16 data) # dump_lines indent (off + 16) (drop 16 data))"

declare dump_lines.simps [simp del]

fun join_lines :: "string list \<Rightarrow> string" where
  "join_lines [] = []"
| "join_lines [l] = l"
| "join_lines (l # m # ls) = l @ newline @ join_lines (m # ls)"

lemma hexdump_loop_append:
  "hexdump_loop indent (xs @ ys) out p n =
     (case hexdump_loop indent xs out p n of (out, p, n) \<Rightarrow> hexdump_loop indent ys out p n)"
  by (induction indent xs out p n rule: hexdump_loop.induct) (auto simp: Let_def)

lemma hexdump_loop_inside:
  "n mod 16 \<noteq> 0 \<Longrightarrow> n mod 16 + length xs \<le> 16 \<Longrightarrow>
   hexdump_loop indent xs out p n = (out @ hex_group (n mod 16) xs, p @ map dump_char xs, n + length xs)"
proof (induction xs arbitrary: out p n)
  case (Cons b xs)
  have par: "n mod 16 mod 2 = n mod 2" by (simp add: mod_mod_cancel)
  show ?case
  proof (cases xs)
    case Nil
    then show ?thesis using Cons.prems par by (simp add: hex_group_def)
  next
    case (Cons c ys)
    then have "(n + 1) mod 16 = n mod 16 + 1" using Cons.prems(2) by (simp add: mod_Suc)
    moreover from this have "(n + 1) mod 16 \<noteq> 0" "(n + 1) mod 16 + length xs \<le> 16" using Cons.prems(2) by simp_all
    note Cons.IH[OF this]
    ultimately show ?thesis using Cons.prems par by (simp add: hex_group_def)
  qed
qed (simp add: hex_group_def)

lemma hexdump_loop_line:
  assumes "n mod 16 = 0" and "xs \<noteq> []" and "length xs \<le> 16"
  shows "hexdump_loop indent xs out p n =
    (out @ (if n \<noteq> 0 then ''    '' @ pchars_str p @ newline else []) @ line_hex indent n xs,
     (if n \<noteq> 0 then [] else p) @ map dump_char xs, n + length xs)"
proof -
  obtain b ys where xs: "xs = b # ys" using assms(2) by (cases xs) auto
  have n1: "(n + 1) mod 16 = 1" using assms(1) by (simp add: mod_Suc)
  have "hexdump_loop indent ys out' p' (n + 1) = (out' @ hex_group 1 ys, p' @ map dump_char ys, n + 1 + length ys)" for out' p'
    using hexdump_loop_inside[of "n + 1" ys indent out' p'] assms(3) n1 by (simp add: xs)
  then show ?thesis using assms(1) by (simp add: xs line_hex_def hex_group_def)
qed

definition hexdump_finish :: "string \<times> string \<times> nat \<Rightarrow> string" where
  "hexdump_finish r = (case r of (out, p, n) \<Rightarrow>
     let print_rem = (16 - n mod 16) mod 16 in out @ spaces (2 * print_rem + print_rem div 2 + 4) @ pchars_str p)"

lemma hexdump_finish_eq: "hexdump data indent = hexdump_finish (hexdump_loop indent data [] [] 0) @ newline @ newline"
  by (simp add: hexdump_def hexdump_finish_def Let_def split: prod.splits)

lemma join_Cons: "ls \<noteq> [] \<Longrightarrow> join_lines (l # ls) = l @ newline @ join_lines ls"
  by (cases ls) simp_all

lemma dump_lines_nonempty: "dump_lines indent off data \<noteq> []"
  by (subst dump_lines.simps) simp

lemma hexdump_from:
  assumes "n mod 16 = 0" and "data \<noteq> []" and "n = 0 \<longleftrightarrow> p = []"
  shows "hexdump_finish (hexdump_loop indent data out p n) =
    out @ (if n \<noteq> 0 then spaces 4 @ p @ newline else []) @ join_lines (dump_lines indent n data)"
  using assms
proof (induction indent n data arbitrary: out p rule: dump_lines.induct)
  case (1 indent n data)
  have sp: "spaces 4 = ''    ''" by (simp add: spaces_def numeral_eq_Suc)
  show ?case
  proof (cases "length data \<le> 16")
    case True
    have "(n + length data) mod 16 = length data mod 16" using 1(2) by (simp add: mod_add_left_eq[symmetric])
    then show ?thesis
      using hexdump_loop_line[OF 1(2,3) True, of indent out p] 1(3,4) True
      by (subst dump_lines.simps) (simp add: hexdump_finish_def dump_line_def line_rem_def pchars_str_def sp Let_def)
  next
    case False
    let ?x = "take 16 data" and ?y = "drop 16 data"
    have x: "?x \<noteq> []" "length ?x \<le> 16" "length ?x = 16" and y: "?y \<noteq> []" "(n + 16) mod 16 = 0" using False 1(2) by auto
    have "hexdump_loop indent data out p n = (case hexdump_loop indent ?x out p n of (out, p, n) \<Rightarrow> hexdump_loop indent ?y out p n)"
      using hexdump_loop_append[of indent ?x ?y out p n] by simp
    also have "\<dots> = hexdump_loop indent ?y
        (out @ (if n \<noteq> 0 then ''    '' @ pchars_str p @ newline else []) @ line_hex indent n ?x) (map dump_char ?x) (n + 16)"
      using hexdump_loop_line[OF 1(2) x(1,2), of indent out p] x(3) 1(4) by (auto simp: min_def)
    finally have l: "hexdump_loop indent data out p n = \<dots>" .
    have p: "n + 16 = 0 \<longleftrightarrow> map dump_char ?x = []" using x(1) by auto
    show ?thesis
      unfolding l 1(1)[OF False y(2,1) p] using False x(3) 1(4)
      by (subst (2) dump_lines.simps) (simp add: join_Cons[OF dump_lines_nonempty] dump_line_def line_rem_def pchars_str_def sp)
  qed
qed

text \<open>The text column starts at the same place on every line.\<close>

lemma setw_length: "length (setw w c s) = max w (length s)"
  by (simp add: setw_def)

lemma hex_byte_length: "length (setw 2 c (hex_string (unat (b :: byte)))) = 2"
  using digits_length[of 16 "unat b" 2] word_bounds(1)[of b] by (simp add: setw_length hex_string_def max_def)

lemma hex_group_Cons:
  "hex_group i (b # bs) = (if i mod 2 = 0 \<and> i \<noteq> 0 then '' '' else '''') @ setw 2 (CHR ''0'') (hex_string (unat b)) @ hex_group (Suc i) bs"
  by (simp add: hex_group_def)

lemma half_Suc: "(Suc n) div 2 = n div 2 + n mod (2 :: nat)"
  by presburger

lemma hex_group_length_later: "length (hex_group (Suc i) bs) + (Suc i + 1) div 2 = 2 * length bs + (Suc i + length bs + 1) div 2"
proof (induction bs arbitrary: i)
  case (Cons b bs)
  have "(Suc (Suc i) + 1) div 2 = (Suc i + 1) div 2 + i mod 2" using half_Suc[of "i + 2"] by simp
  moreover have "i mod 2 = 0 \<or> i mod 2 = 1" by auto
  ultimately show ?case using Cons.IH[of "Suc i"] by (auto simp add: hex_group_Cons hex_byte_length mod_Suc simp del: One_nat_def div_2_gt_zero)
qed (simp add: hex_group_def)

lemma hex_group_length: "length (hex_group 0 bs) = 2 * length bs + (length bs - 1) div 2"
proof (cases bs)
  case (Cons b cs)
  then show ?thesis using hex_group_length_later[of 0 cs] by (simp add: hex_group_Cons hex_byte_length)
qed (simp add: hex_group_def)

lemma line_width: "0 < n \<Longrightarrow> n \<le> 16 \<Longrightarrow>
  2 * n + (n - 1) div 2 + (2 * ((16 - n mod 16) mod 16) + (16 - n mod 16) mod 16 div 2 + 4) = (43 :: nat)"
proof -
  assume "0 < n" "n \<le> 16"
  then have "n \<in> set [1..<17]" by simp
  moreover have "\<forall>n\<in>set [1..<17]. 2 * n + (n - 1) div 2 + (2 * ((16 - n mod 16) mod 16) + (16 - n mod 16) mod 16 div 2 + 4) = (43 :: nat)"
    by code_simp
  ultimately show ?thesis by blast
qed

lemma dump_line_column:
  assumes "bs \<noteq> []" "length bs \<le> 16" "off < 2 ^ 32"
  shows "\<exists>pre. dump_line indent off bs = pre @ map dump_char bs \<and> length pre = indent + 56"
proof -
  have o: "length (setw 8 (CHR ''0'') (hex_string off)) = 8"
    using digits_length[of 16 off 8] assms(3) by (simp add: setw_length hex_string_def max_def)
  have "0 < length bs" using assms(1) by simp
  then have "2 * length bs + (length bs - 1) div 2 + (2 * line_rem bs + line_rem bs div 2 + 4) = 43"
    using line_width[of "length bs"] assms(2) by (simp add: line_rem_def)
  then show ?thesis
    by (intro exI[of _ "line_hex indent off bs @ spaces (2 * line_rem bs + line_rem bs div 2 + 4)"])
       (simp add: dump_line_def line_hex_def o hex_group_length, simp add: spaces_def)
qed

section \<open>Reading inside the packet\<close>

lemma link_offset_ok: "\<exists>r. link_offset dl_type pkt = Inr r \<and> (\<forall>h. r = Link_offset h \<longrightarrow> h \<le> length pkt)"
  by (cases dl_type) (auto simp: link_offset_def byte_at_def)

lemma ipv6_extensions_ok:
  "len = length data \<Longrightarrow> off + 2 \<le> len \<Longrightarrow>
   \<exists>r. ipv6_extensions len data nxt off = Inr r \<and> (\<forall>o'. r = Some o' \<longrightarrow> off \<le> o' \<and> o' + 2 \<le> len)"
proof (induction len data nxt off rule: ipv6_extensions.induct)
  case (1 len data nxt off)
  have b: "byte_at data off = Inr (data ! off)" "byte_at data (off + 1) = Inr (data ! (off + 1))" using 1(2,3) by (simp_all add: byte_at_def)
  let ?o = "off + 8 * (1 + unat (data ! (off + 1)))"
  show ?case
  proof (cases "nxt = 0x11 \<or> nxt \<noteq> 0 \<and> nxt \<noteq> 43 \<and> nxt \<noteq> 60 \<or> len < ?o + 2")
    case True then show ?thesis using 1(3) b by (subst ipv6_extensions.simps) auto
  next
    case False
    then have eq: "ipv6_extensions len data nxt off = ipv6_extensions len data (data ! off) ?o"
      using b by (subst ipv6_extensions.simps) auto
    have "\<exists>r. ipv6_extensions len data (data ! off) ?o = Inr r \<and> (\<forall>o'. r = Some o' \<longrightarrow> ?o \<le> o' \<and> o' + 2 \<le> len)"
      using False b 1(2) by (intro 1(1)[of "data ! off" "data ! (off + 1)"]) auto
    then show ?thesis unfolding eq by (meson add_leD1)
  qed
qed

lemma process_ipv6_ok:
  assumes "len = length data"
  shows "\<exists>r. process_ipv6 f len data = Inr r \<and> (\<forall>off s d. r = Some (off, s, d) \<longrightarrow> 48 \<le> off \<and> off \<le> len + 6)"
proof (cases "len < 42")
  case False
  obtain r where r: "ipv6_extensions len data (data ! 6) 40 = Inr r" "\<forall>o'. r = Some o' \<longrightarrow> 40 \<le> o' \<and> o' + 2 \<le> len"
    using ipv6_extensions_ok[OF assms, of 40 "data ! 6"] False by auto
  show ?thesis using False r assms
    by (cases r) (auto simp: process_ipv6_def byte_at_def inet6_addr_def bytes_at_def)
qed (simp add: process_ipv6_def)

lemma process_ipv4_ok:
  assumes "len = length data" and "20 \<le> len"
  shows "\<exists>r. process_ipv4 f len data = Inr r \<and> (\<forall>off s d. r = Some (off, s, d) \<longrightarrow> 8 \<le> off \<and> off \<le> len + 8)"
  using assms by (auto simp: process_ipv4_def byte_at_def inet4_addr_def bytes_at_def Let_def)


lemma process_ok:
  assumes "len = length data" and "0 < len \<Longrightarrow> and (data ! 0) 0xf0 = 0x40 \<Longrightarrow> 20 \<le> len"
  shows "\<exists>r. process_ipv4_ipv6 f len data = Inr r \<and> (\<forall>off s d. r = Some (off, s, d) \<longrightarrow> 8 \<le> off \<and> off \<le> len + 8)"
proof (cases "len = 0")
  case False
  then have b: "byte_at data 0 = Inr (data ! 0)" using assms(1) by (simp add: byte_at_def)
  consider "and (data ! 0) 0xf0 = 0x40" | "and (data ! 0) 0xf0 = 0x60" | "and (data ! 0) 0xf0 \<notin> {0x40, 0x60}" by blast
  then show ?thesis
  proof cases
    case 1
    then show ?thesis using process_ipv4_ok[OF assms(1), of f] assms(2) False b by (simp add: process_ipv4_ipv6_def)
  next
    case 2
    then show ?thesis using process_ipv6_ok[OF assms(1), of f] False b by (fastforce simp: process_ipv4_ipv6_def)
  qed (use False b in \<open>simp add: process_ipv4_ipv6_def Let_def\<close>)
qed (simp add: process_ipv4_ipv6_def)

lemma hexdump_lines_eq: "data \<noteq> [] \<Longrightarrow> hexdump data indent = join_lines (dump_lines indent 0 data) @ newline @ newline"
  using hexdump_from[of 0 data "[]" indent "[]"] by (simp add: hexdump_finish_eq)

lemma dump_packet_ok:
  assumes len: "length pkt < two64" and link: "link_offset dl_type pkt = Inr (Link_offset h)"
    and ip: "h < length pkt \<Longrightarrow> and (pkt ! h) 0xf0 = 0x40 \<Longrightarrow> h + 20 \<le> length pkt"
    and udp: "\<And>off s d. process_ipv4_ipv6 f (length pkt - h) (drop h pkt) = Inr (Some (off, s, d)) \<Longrightarrow> h + off \<le> length pkt"
  shows "\<exists>out. dump_packet f dl_type pkt = Inr (Some out)"
proof -
  obtain r where r: "process_ipv4_ipv6 f (length pkt - h) (drop h pkt) = Inr r"
    using process_ok[of "length pkt - h" "drop h pkt" f] ip by force
  show ?thesis
  proof (cases r)
    case None then show ?thesis using r link by (simp add: dump_packet_def)
  next
    case (Some a)
    then obtain off s d where a: "r = Some (off, s, d)" by (cases a) auto
    have "h + off \<le> length pkt" using udp r a by blast
    moreover obtain seg res where "TCPSegment_parse TCPSegment_default (Buffer_of (drop (h + off) pkt)) 0 = Inr (seg, res)"
      using TCPSegment_parse_total[of "Buffer_of (drop (h + off) pkt)"] len by force
    ultimately show ?thesis using r a link by (simp add: dump_packet_def dump_payload_def Let_def)
  qed
qed

lemma dump_lines_column:
  "data \<noteq> [] \<Longrightarrow> off + length data < 2 ^ 32 \<Longrightarrow> l \<in> set (dump_lines indent off data) \<Longrightarrow>
   \<exists>pre bs. l = pre @ map dump_char bs \<and> length pre = indent + 56 \<and> length bs \<le> 16"
proof (induction indent off data rule: dump_lines.induct)
  case (1 indent off data)
  show ?case
  proof (cases "length data \<le> 16")
    case True
    then have "l = dump_line indent off data" using 1(4) by (subst (asm) dump_lines.simps) simp
    then show ?thesis using dump_line_column[OF 1(2) True, of off indent] 1(3) True by auto
  next
    case False
    then consider "l = dump_line indent off (take 16 data)" | "l \<in> set (dump_lines indent (off + 16) (drop 16 data))"
      using 1(4) by (subst (asm) dump_lines.simps) auto
    then show ?thesis
    proof cases
      case 1
      then show ?thesis 
        using dump_line_column[of "take 16 data" off indent] "1.prems"(1,2) False
        by (intro exI[of _ "THE pre. l = pre @ map dump_char (take 16 data)"] exI[of _ "take 16 data"]) auto
    next
      case 2
      then show ?thesis using "1.IH"[OF False] "1.prems"(2) False by simp
    qed
  qed
qed

lemma bad_checksum_shows_default_header:
  assumes "off \<le> length pkt"
    and "InternetChecksum_value (InternetChecksum_add (InternetChecksum_new 0) (drop off pkt)) \<noteq> 0"
  shows "dump_payload src dst off pkt =
    Inr (dump_segment src dst TCPSegment_default BadChecksum (length pkt - off) @ hexdump (drop off pkt) 8)"
  using assms by (simp add: dump_payload_def TCPSegment_parse_def parse_result_index_def Let_def)

section \<open>Properties\<close>

text \<open>C37: \<open>hexdump\<close> prints the bytes sixteen to a line, each line the offset, the bytes in pairs and the
  printable characters, and pads a partial line so that its characters start in the column they start
  in on every other line.\<close>

theorem hexdump_by_lines:
  assumes "data \<noteq> []" and "length data < 2 ^ 31"
  shows "hexdump data indent = join_lines (dump_lines indent 0 data) @ newline @ newline \<and>
    (\<forall>l\<in>set (dump_lines indent 0 data). \<exists>pre bs. l = pre @ map dump_char bs \<and> length pre = indent + 56 \<and> length bs \<le> 16)"
  using hexdump_lines_eq[OF assms(1), of indent] dump_lines_column[OF assms(1), of 0] assms(2) by simp

theorem hexdump_by_lines_witness:
  "hexdump (map of_nat [60..<80]) 2 = join_lines (dump_lines 2 0 (map of_nat [60..<80])) @ newline @ newline \<and>
   length (dump_lines 2 0 (map of_nat [60..<80])) = 2"
  using hexdump_by_lines[of "map of_nat [60..<80]" 2] by (simp add: dump_lines.simps)

text \<open>C39: \<open>udp_tcpdump\<close> reads outside a captured packet only when the capture ends inside the fixed IPv4
  header or inside the UDP header, in which case the payload would start at most eight bytes past the
  end; every other packet, whatever its bytes, is skipped or shown.\<close>

theorem dump_packet_out_of_bounds_only_truncated:
  assumes "length pkt < two64" and "dump_packet inet_ntop dl_type pkt = Inl e"
  shows "\<exists>h. link_offset dl_type pkt = Inr (Link_offset h) \<and>
    (h < length pkt \<and> and (pkt ! h) 0xf0 = 0x40 \<and> length pkt < h + 20 \<or>
     (\<exists>off src dst. process_ipv4_ipv6 inet_ntop (length pkt - h) (drop h pkt) = Inr (Some (off, src, dst)) \<and>
        length pkt < h + off \<and> h + off \<le> length pkt + 8))"
proof -
  obtain r where r: "link_offset dl_type pkt = Inr r" "\<And>h. r = Link_offset h \<Longrightarrow> h \<le> length pkt"
    using link_offset_ok[of dl_type pkt] by blast
  obtain h where h: "r = Link_offset h" using assms(2) r(1) by (cases r) (auto simp: dump_packet_def)
  have process: "\<exists>q. process_ipv4_ipv6 inet_ntop (length pkt - h) (drop h pkt) = Inr q \<and>
      (\<forall>off s d. q = Some (off, s, d) \<longrightarrow> 8 \<le> off \<and> off \<le> length pkt - h + 8)"
    if "\<not> (h < length pkt \<and> and (pkt ! h) 0xf0 = 0x40 \<and> length pkt < h + 20)"
    using process_ok[of "length pkt - h" "drop h pkt" inet_ntop] that r(2)[OF h] by force
  show ?thesis
  proof (rule ccontr)
    assume "\<nexists>h. link_offset dl_type pkt = Inr (Link_offset h) \<and>
      (h < length pkt \<and> and (pkt ! h) 0xf0 = 0x40 \<and> length pkt < h + 20 \<or>
       (\<exists>off src dst. process_ipv4_ipv6 inet_ntop (length pkt - h) (drop h pkt) = Inr (Some (off, src, dst)) \<and>
          length pkt < h + off \<and> h + off \<le> length pkt + 8))"
    then have not: "\<not> (h < length pkt \<and> and (pkt ! h) 0xf0 = 0x40 \<and> length pkt < h + 20)"
      "\<And>off s d. process_ipv4_ipv6 inet_ntop (length pkt - h) (drop h pkt) = Inr (Some (off, s, d)) \<Longrightarrow>
        length pkt < h + off \<Longrightarrow> \<not> h + off \<le> length pkt + 8"
      using r(1) h by blast+
    have "\<exists>out. dump_packet inet_ntop dl_type pkt = Inr (Some out)"
    proof (rule dump_packet_ok[OF assms(1) r(1)[unfolded h]])
      fix off s d assume "process_ipv4_ipv6 inet_ntop (length pkt - h) (drop h pkt) = Inr (Some (off, s, d))"
      then show "h + off \<le> length pkt" using not(2) process[OF not(1)] r(2)[OF h] by fastforce
    qed (use not(1) in force)
    then show False using assms(2) by simp
  qed
qed

theorem dump_packet_out_of_bounds_only_truncated_witness:
  "\<exists>e. dump_packet (\<lambda>_. None) DLT_RAW [0x40] = Inl e \<and>
   (\<exists>h. link_offset DLT_RAW [0x40] = Inr (Link_offset h) \<and> h = 0)"
proof -
  have bad: "dump_packet (\<lambda>_. None) DLT_RAW [0x40] = Inl (Undefined_behaviour ''read past the captured bytes'')"
    by code_simp
  have len: "length [0x40 :: byte] < two64" by simp
  show ?thesis using dump_packet_out_of_bounds_only_truncated[OF len bad] bad by (simp add: link_offset_def)
qed

lemma truncated_udp_header_overruns:
  "dump_packet (\<lambda>_. None) DLT_RAW (0x45 # replicate 8 0 @ 0x11 # replicate 10 0) =
     Inl (Undefined_behaviour ''payload past the captured bytes'')"
  by code_simp

end
