(* ===== verification/Router.thy ===== *)
theory Router
  imports Network_Interface
begin

text \<open>
  The router (\<open>libsponge/router.hh\<close>, \<open>.cc\<close>): interfaces that queue what they receive, the routing table, the
  search for the longest matching prefix, and the loop over all queues.

  The mask is computed with a signed shift that C++ leaves undefined for prefix lengths 0, 1 and above
  32.  What a platform computes there is the argument \<open>ub\<close>; the theorems hold for every value of it.
\<close>

section \<open>AsyncNetworkInterface\<close>

record async_interface =
  ai_interface :: network_interface
  ai_datagrams_out :: "ipv4_datagram list"

definition AsyncNetworkInterface_new :: "network_interface \<Rightarrow> async_interface" where
  "AsyncNetworkInterface_new interface = \<lparr>ai_interface = interface, ai_datagrams_out = []\<rparr>"

definition AsyncNetworkInterface_recv_frame :: "async_interface \<Rightarrow> ethernet_frame \<Rightarrow> async_interface result" where
  "AsyncNetworkInterface_recv_frame ai frame =
     rbind (NetworkInterface_recv_frame (ai_interface ai) frame) (\<lambda>(optional_dgram, ni).
       let ai = ai\<lparr>ai_interface := ni\<rparr>
       in case optional_dgram of
            Some dgram \<Rightarrow> Inr (ai\<lparr>ai_datagrams_out := ai_datagrams_out ai @ [dgram]\<rparr>)
          | None \<Rightarrow> Inr ai)"

section \<open>Router\<close>

record route_entry =
  re_dst :: u32
  re_prefix_length :: u8
  re_next_hop :: "address option"
  re_interface_num :: u64

record router =
  ro_interfaces :: "async_interface list"
  ro_route_table :: "route_entry list"

definition Router_new :: router where
  "Router_new = \<lparr>ro_interfaces = [], ro_route_table = []\<rparr>"

definition Router_add_interface :: "router \<Rightarrow> async_interface \<Rightarrow> u64 \<times> router" where
  "Router_add_interface r interface =
     (let r = r\<lparr>ro_interfaces := ro_interfaces r @ [interface]\<rparr>
      in (sub64 (length (ro_interfaces r)) 1, r))"

definition Router_interface :: "router \<Rightarrow> u64 \<Rightarrow> async_interface result" where
  "Router_interface r n =
     (if n < length (ro_interfaces r) then Inr (ro_interfaces r ! n) else Inl (Out_of_range ''vector::at''))"

definition Router_add_route :: "router \<Rightarrow> u32 \<Rightarrow> u8 \<Rightarrow> address option \<Rightarrow> u64 \<Rightarrow> router" where
  "Router_add_route r route_prefix prefix_length next_hop interface_num =
     r\<lparr>ro_route_table := ro_route_table r @
         [\<lparr>re_dst = route_prefix, re_prefix_length = prefix_length, re_next_hop = next_hop,
           re_interface_num = interface_num\<rparr>]\<rparr>"

definition route_mask :: "(u8 \<Rightarrow> u32) \<Rightarrow> u8 \<Rightarrow> u32" where
  "route_mask ub prefix_length =
     (if 2 \<le> prefix_length \<and> prefix_length \<le> 32
      then not (push_bit (32 - unat prefix_length) 1 - 1) else ub prefix_length)"

definition route_matches :: "(u8 \<Rightarrow> u32) \<Rightarrow> u32 \<Rightarrow> route_entry \<Rightarrow> bool" where
  "route_matches ub dst e \<longleftrightarrow>
     re_prefix_length e = 0 \<or> and dst (route_mask ub (re_prefix_length e)) = re_dst e"

text \<open>The loop over the table: the best route, the longest prefix so far, and whether any route matched.\<close>

fun Router_search :: "(u8 \<Rightarrow> u32) \<Rightarrow> u32 \<Rightarrow> route_entry list \<Rightarrow> route_entry \<Rightarrow> nat \<Rightarrow> bool \<Rightarrow> route_entry \<times> bool" where
  "Router_search ub dst [] best_route max_prefix_mask if_find_route = (best_route, if_find_route)"
| "Router_search ub dst (e # es) best_route max_prefix_mask if_find_route =
     (if route_matches ub dst e then
        (if unat (re_prefix_length e) > max_prefix_mask
         then Router_search ub dst es e (unat (re_prefix_length e)) True
         else Router_search ub dst es best_route max_prefix_mask True)
      else Router_search ub dst es best_route max_prefix_mask if_find_route)"

definition Router_route_one_datagram :: "(u8 \<Rightarrow> u32) \<Rightarrow> router \<Rightarrow> ipv4_datagram \<Rightarrow> router result" where
  "Router_route_one_datagram ub r dgram0 =
     (let dgram = (if ip_ttl (dg_header dgram0) > 0
                   then dgram0\<lparr>dg_header := (dg_header dgram0)\<lparr>ip_ttl := ip_ttl (dg_header dgram0) - 1\<rparr>\<rparr>
                   else dgram0)
      in if ip_ttl (dg_header dgram) = 0 then Inr r
         else case ro_route_table r of
                [] \<Rightarrow> Inr r
              | e # es \<Rightarrow>
                  (let (best_route, if_find_route) =
                     Router_search ub (ip_dst (dg_header dgram)) (ro_route_table r) e 0 False
                   in if if_find_route then
                        (let next_hop = (case re_next_hop best_route of
                               Some a \<Rightarrow> a
                             | None \<Rightarrow> Address_from_ipv4_numeric (ip_dst (dg_header dgram)))
                         in rbind (Router_interface r (re_interface_num best_route)) (\<lambda>ai.
                            rbind (NetworkInterface_send_datagram (ai_interface ai) dgram next_hop) (\<lambda>ni.
                              Inr (r\<lparr>ro_interfaces := (ro_interfaces r)[re_interface_num best_route :=
                                       ai\<lparr>ai_interface := ni\<rparr>]\<rparr>))))
                      else Inr r))"

text \<open>The inner loop of \<open>route\<close>: the queue of interface \<open>i\<close>, which no step but \<open>pop\<close> changes.\<close>

definition Router_set_queue :: "router \<Rightarrow> nat \<Rightarrow> ipv4_datagram list \<Rightarrow> router" where
  "Router_set_queue r i q =
     r\<lparr>ro_interfaces := (ro_interfaces r)[i := (ro_interfaces r ! i)\<lparr>ai_datagrams_out := q\<rparr>]\<rparr>"

fun Router_route_queue :: "(u8 \<Rightarrow> u32) \<Rightarrow> nat \<Rightarrow> ipv4_datagram list \<Rightarrow> router \<Rightarrow> router result" where
  "Router_route_queue ub i [] r = Inr r"
| "Router_route_queue ub i (dgram # q) r =
     rbind (Router_route_one_datagram ub r dgram) (\<lambda>r. Router_route_queue ub i q (Router_set_queue r i q))"

text \<open>The outer loop.\<close>

fun Router_route_from :: "(u8 \<Rightarrow> u32) \<Rightarrow> nat list \<Rightarrow> router \<Rightarrow> router result" where
  "Router_route_from ub [] r = Inr r"
| "Router_route_from ub (i # is) r =
     rbind (Router_route_queue ub i (ai_datagrams_out (ro_interfaces r ! i)) r) (\<lambda>r. Router_route_from ub is r)"

definition Router_route :: "(u8 \<Rightarrow> u32) \<Rightarrow> router \<Rightarrow> router result" where
  "Router_route ub r = Router_route_from ub [0..<length (ro_interfaces r)] r"

section \<open>Lemmas\<close>

text \<open>
  An entry is well formed when its prefix length is zero or from 2 to 32 and the bits after the prefix
  are zero; \<open>in_prefix\<close> is the meaning of an entry: the first bits agree.
\<close>

definition entry_wf :: "route_entry \<Rightarrow> bool" where
  "entry_wf e \<longleftrightarrow>
     (re_prefix_length e = 0 \<or> 2 \<le> re_prefix_length e \<and> re_prefix_length e \<le> 32) \<and>
     take_bit (32 - unat (re_prefix_length e)) (re_dst e) = 0"

definition in_prefix :: "u32 \<Rightarrow> route_entry \<Rightarrow> bool" where
  "in_prefix dst e \<longleftrightarrow>
     drop_bit (32 - unat (re_prefix_length e)) dst = drop_bit (32 - unat (re_prefix_length e)) (re_dst e)"

lemma matches_iff_in_prefix:
  assumes "entry_wf e" shows "route_matches ub dst e \<longleftrightarrow> in_prefix dst e"
proof (cases "re_prefix_length e = 0")
  case True
  have "drop_bit 32 (x :: u32) = 0" for x by (rule bit_eqI) (auto simp: bit_drop_bit_eq dest: bit_imp_le_length)
  then show ?thesis using True by (simp add: route_matches_def in_prefix_def)
next
  case False
  let ?k = "32 - unat (re_prefix_length e)"
  have k: "2 \<le> re_prefix_length e" "re_prefix_length e \<le> 32" using assms False by (auto simp: entry_wf_def)
  have tk: "take_bit ?k (re_dst e) = 0" using assms by (simp add: entry_wf_def)
  have m: "route_mask ub (re_prefix_length e) = not (mask ?k)"
    using k by (simp add: route_mask_def mask_eq_exp_minus_1 push_bit_eq_mult)
  have "and dst (not (mask ?k)) = re_dst e \<longleftrightarrow> drop_bit ?k dst = drop_bit ?k (re_dst e)"
  proof
    assume "and dst (not (mask ?k)) = re_dst e"
    then have "drop_bit ?k (re_dst e) = drop_bit ?k (and dst (not (mask ?k)))" by simp
    also have "\<dots> = drop_bit ?k dst"
      by (rule bit_eqI) (auto simp: bit_drop_bit_eq bit_and_iff bit_not_iff bit_mask_iff possible_bit_word dest: bit_imp_le_length)
    finally show "drop_bit ?k dst = drop_bit ?k (re_dst e)" by simp
  next
    assume a: "drop_bit ?k dst = drop_bit ?k (re_dst e)"
    show "and dst (not (mask ?k)) = re_dst e"
    proof (rule bit_word_eqI)
      fix n assume n: "n < LENGTH(32)"
      show "bit (and dst (not (mask ?k))) n = bit (re_dst e) n"
      proof (cases "n < ?k")
        case True
        have "bit (take_bit ?k (re_dst e)) n = bit (re_dst e) n" using True by (simp add: bit_take_bit_iff)
        then show ?thesis using True tk n by (simp add: bit_and_iff bit_not_iff bit_mask_iff)
      next
        case False
        have "bit (drop_bit ?k dst) (n - ?k) = bit (drop_bit ?k (re_dst e)) (n - ?k)" using a by simp
        then have "bit dst n = bit (re_dst e) n" using False by (simp add: bit_drop_bit_eq)
        then show ?thesis using False n by (simp add: bit_and_iff bit_not_iff bit_mask_iff)
      qed
    qed
  qed
  then show ?thesis using False m by (simp add: route_matches_def in_prefix_def)
qed

text \<open>The loop: the result is the old best route or a later entry that matches and beats the old prefix.\<close>

lemma search_ok:
  assumes "Router_search ub dst es b n f = (b', f')"
  shows "f' \<longleftrightarrow> f \<or> (\<exists>e\<in>set es. route_matches ub dst e)"
    and "b' = b \<and> (\<forall>e\<in>set es. route_matches ub dst e \<longrightarrow> unat (re_prefix_length e) \<le> n) \<or>
      b' \<in> set es \<and> route_matches ub dst b' \<and> n < unat (re_prefix_length b') \<and>
      (\<forall>e\<in>set es. route_matches ub dst e \<longrightarrow> unat (re_prefix_length e) \<le> unat (re_prefix_length b'))"
proof -
  show "f' \<longleftrightarrow> f \<or> (\<exists>e\<in>set es. route_matches ub dst e)"
    using assms by (induction ub dst es b n f rule: Router_search.induct) (auto split: if_splits)
  show "b' = b \<and> (\<forall>e\<in>set es. route_matches ub dst e \<longrightarrow> unat (re_prefix_length e) \<le> n) \<or>
      b' \<in> set es \<and> route_matches ub dst b' \<and> n < unat (re_prefix_length b') \<and>
      (\<forall>e\<in>set es. route_matches ub dst e \<longrightarrow> unat (re_prefix_length e) \<le> unat (re_prefix_length b'))"
    using assms
  proof (induction ub dst es b n f rule: Router_search.induct)
    case (2 ub dst e es b n f)
    show ?case
    proof (cases "route_matches ub dst e")
      case True
      show ?thesis
      proof (cases "unat (re_prefix_length e) > n")
        case gt: True
        then show ?thesis using 2(1)[OF True gt] 2(4) True by auto
      next
        case False
        then show ?thesis using 2(2)[OF True False] 2(4) True by auto
      qed
    next
      case False
      then show ?thesis using 2(3)[OF False] 2(4) by auto
    qed
  qed simp
qed

section \<open>Properties\<close>


definition example_table :: "route_entry list" where
  "example_table =
     [\<lparr>re_dst = 0, re_prefix_length = 0, re_next_hop = None, re_interface_num = 0\<rparr>,
      \<lparr>re_dst = 0x0a000000, re_prefix_length = 8, re_next_hop = None, re_interface_num = 1\<rparr>,
      \<lparr>re_dst = 0x0a010000, re_prefix_length = 16, re_next_hop = None, re_interface_num = 2\<rparr>]"



text \<open>
  A datagram that \<open>route_one_datagram\<close> does not drop goes out, with its lifetime counted down, on the
  interface of the best route and to its next hop.
\<close>

definition forwarded :: "ipv4_datagram \<Rightarrow> ipv4_datagram" where
  "forwarded d = d\<lparr>dg_header := (dg_header d)\<lparr>ip_ttl := ip_ttl (dg_header d) - 1\<rparr>\<rparr>"

definition route_hop :: "route_entry \<Rightarrow> ipv4_datagram \<Rightarrow> address" where
  "route_hop e d = (case re_next_hop e of Some a \<Rightarrow> a | None \<Rightarrow> Address_from_ipv4_numeric (ip_dst (dg_header d)))"

definition router_ok :: "router \<Rightarrow> bool" where
  "router_ok r \<longleftrightarrow>
     (\<forall>ai\<in>set (ro_interfaces r). ni_inv (ai_interface ai) \<and> (\<forall>d\<in>set (ai_datagrams_out ai). dgram_valid d)) \<and>
     (\<forall>e\<in>set (ro_route_table r). re_interface_num e < length (ro_interfaces r) \<and>
        (case re_next_hop e of None \<Rightarrow> True | Some a \<Rightarrow> \<exists>ip port. a = ipv4_address ip port))"

lemma forwarded_valid: "dgram_valid d \<Longrightarrow> dgram_valid (forwarded d)"
  by (simp add: dgram_valid_def forwarded_def ipv4_header_valid_def)

lemma route_one_eq:
  assumes "1 < ip_ttl (dg_header d)" and "ro_route_table r = e # es"
    and "Router_search ub (ip_dst (dg_header d)) (e # es) e 0 False = (best, found)"
  shows "Router_route_one_datagram ub r d =
    (if found then
       rbind (Router_interface r (re_interface_num best)) (\<lambda>ai.
       rbind (NetworkInterface_send_datagram (ai_interface ai) (forwarded d) (route_hop best d)) (\<lambda>ni.
         Inr (r\<lparr>ro_interfaces := (ro_interfaces r)[re_interface_num best := ai\<lparr>ai_interface := ni\<rparr>]\<rparr>)))
     else Inr r)"
proof -
  have "0 < ip_ttl (dg_header d)" "ip_ttl (dg_header d) - 1 \<noteq> 0"
    using assms(1) by (auto simp: word_less_nat_alt)
  then show ?thesis
    using assms(2,3)
    by (cases "re_next_hop best")
       (simp_all add: Router_route_one_datagram_def forwarded_def Let_def route_hop_def del: Router_search.simps)
qed

lemma route_one_dropped: "ip_ttl (dg_header d) \<le> 1 \<Longrightarrow> Router_route_one_datagram ub r d = Inr r"
proof -
  assume "ip_ttl (dg_header d) \<le> 1"
  then have "ip_ttl (dg_header d) = 0 \<or> ip_ttl (dg_header d) = 1" by (auto simp: word_le_nat_alt word_unat_eq_iff)
  then show ?thesis by (auto simp: Router_route_one_datagram_def Let_def)
qed

lemma best_in_table:
  assumes "Router_search ub dst (e # es) e 0 False = (best, found)" shows "best \<in> set (e # es)"
  using search_ok(2)[OF assms] by auto

lemma route_hop_ok:
  assumes "router_ok r" "e \<in> set (ro_route_table r)" shows "\<exists>ip port. route_hop e d = ipv4_address ip port"
  using assms by (auto simp: router_ok_def route_hop_def split: option.splits)



definition example_router :: router where
  "example_router =
     \<lparr>ro_interfaces = map (\<lambda>i. AsyncNetworkInterface_new (NetworkInterface_new [2, 0, 0, 0, 0, i] (ipv4_address (ucast i) 0))) [1, 2, 3],
      ro_route_table = example_table\<rparr>"

lemma example_router_ok: "router_ok example_router"
  by (auto simp: router_ok_def example_router_def example_table_def AsyncNetworkInterface_new_def ni_inv_def NetworkInterface_new_def)


lemma route_one_ok:
  assumes ok: "router_ok r" and d: "dgram_valid d"
  shows "\<exists>r'. Router_route_one_datagram ub r d = Inr r' \<and> router_ok r' \<and> ro_route_table r' = ro_route_table r \<and>
    length (ro_interfaces r') = length (ro_interfaces r) \<and>
    (\<forall>i<length (ro_interfaces r). ai_datagrams_out (ro_interfaces r' ! i) = ai_datagrams_out (ro_interfaces r ! i))"
proof (cases "ip_ttl (dg_header d) \<le> 1")
  case True
  then show ?thesis using route_one_dropped ok by auto
next
  case False
  then have ttl: "1 < ip_ttl (dg_header d)" by auto
  show ?thesis
  proof (cases "ro_route_table r")
    case Nil
    then show ?thesis using ok by (auto simp: Router_route_one_datagram_def Let_def)
  next
    case (Cons e es)
    obtain best found where s: "Router_search ub (ip_dst (dg_header d)) (e # es) e 0 False = (best, found)" by fastforce
    have bt: "best \<in> set (ro_route_table r)" using best_in_table[OF s] Cons by simp
    let ?i = "re_interface_num best"
    have n: "?i < length (ro_interfaces r)" using ok bt by (auto simp: router_ok_def)
    then have ai: "ni_inv (ai_interface (ro_interfaces r ! ?i))" "\<forall>d\<in>set (ai_datagrams_out (ro_interfaces r ! ?i)). dgram_valid d"
      using ok unfolding router_ok_def by auto
    obtain ip port where hop: "route_hop best d = ipv4_address ip port" using route_hop_ok[OF ok bt] by blast
    obtain ni where ni: "NetworkInterface_send_datagram (ai_interface (ro_interfaces r ! ?i)) (forwarded d) (route_hop best d) = Inr ni"
      "ni_inv ni" using ni_send_inv[OF ai(1) forwarded_valid[OF d], of ip port] unfolding hop by blast
    let ?r = "r\<lparr>ro_interfaces := (ro_interfaces r)[?i := (ro_interfaces r ! ?i)\<lparr>ai_interface := ni\<rparr>]\<rparr>"
    have "router_ok ?r"
      using ok ni(2) ai(2) unfolding router_ok_def
      by (auto dest!: set_update_subset_insert[THEN subsetD])
    moreover have "\<forall>i<length (ro_interfaces r). ai_datagrams_out (ro_interfaces ?r ! i) = ai_datagrams_out (ro_interfaces r ! i)"
      using n by (auto simp: nth_list_update)
    ultimately show ?thesis
      using route_one_eq[OF ttl Cons s] ok n ni(1) by (auto simp: Router_interface_def)
  qed
qed


definition queues :: "router \<Rightarrow> ipv4_datagram list list" where
  "queues r = map ai_datagrams_out (ro_interfaces r)"

lemma route_one_queues:
  assumes "router_ok r" and "dgram_valid d"
  shows "\<exists>r'. Router_route_one_datagram ub r d = Inr r' \<and> router_ok r' \<and> queues r' = queues r"
proof -
  obtain r' where r': "Router_route_one_datagram ub r d = Inr r'" "router_ok r'" "length (ro_interfaces r') = length (ro_interfaces r)"
    "\<forall>i<length (ro_interfaces r). ai_datagrams_out (ro_interfaces r' ! i) = ai_datagrams_out (ro_interfaces r ! i)"
    using route_one_ok[OF assms] by blast
  then have "queues r' = queues r" unfolding queues_def by (intro nth_equalityI) simp_all
  then show ?thesis using r' by blast
qed

lemma set_queue_ok:
  assumes "router_ok r" and "i < length (ro_interfaces r)" and "\<forall>d\<in>set q. dgram_valid d"
  shows "router_ok (Router_set_queue r i q)" and "queues (Router_set_queue r i q) = (queues r)[i := q]"
proof -
  have "ni_inv (ai_interface (ro_interfaces r ! i))" using assms(1,2) unfolding router_ok_def by auto
  then show "router_ok (Router_set_queue r i q)"
    using assms unfolding router_ok_def Router_set_queue_def by (auto dest!: set_update_subset_insert[THEN subsetD])
  show "queues (Router_set_queue r i q) = (queues r)[i := q]"
    by (simp add: queues_def Router_set_queue_def map_update)
qed

lemma route_queue_ok:
  assumes "router_ok r" and "i < length (queues r)" and "queues r ! i = q"
  shows "\<exists>r'. Router_route_queue ub i q r = Inr r' \<and> router_ok r' \<and> queues r' = (queues r)[i := []]"
  using assms
proof (induction q arbitrary: r)
  case Nil
  then show ?case by (metis Router_route_queue.simps(1) list_update_id)
next
  case (Cons d q)
  have "set (queues r ! i) \<subseteq> Collect dgram_valid"
    using Cons.prems(1,2) unfolding router_ok_def queues_def by auto
  then have v: "dgram_valid d" "\<forall>d\<in>set q. dgram_valid d" using Cons.prems(3) by auto
  obtain r1 where r1: "Router_route_one_datagram ub r d = Inr r1" "router_ok r1" "queues r1 = queues r"
    using route_one_queues[OF Cons.prems(1) v(1)] by blast
  have i: "i < length (ro_interfaces r1)" using r1(3) Cons.prems(2) by (metis length_map queues_def)
  note sq = set_queue_ok[OF r1(2) i v(2)]
  have "i < length (queues (Router_set_queue r1 i q))" "queues (Router_set_queue r1 i q) ! i = q"
    using sq(2) r1(3) Cons.prems(2) by simp_all
  from Cons.IH[OF sq(1) this] r1(1,3) sq(2) show ?case by simp
qed

lemma route_from_ok:
  assumes "router_ok r" and "set is \<subseteq> {..<length (queues r)}"
  shows "\<exists>r'. Router_route_from ub is r = Inr r' \<and> router_ok r' \<and> length (queues r') = length (queues r) \<and>
    (\<forall>j<length (queues r). queues r' ! j = (if j \<in> set is then [] else queues r ! j))"
  using assms
proof (induction "is" arbitrary: r)
  case Nil
  then show ?case by simp
next
  case (Cons i "is")
  have i: "i < length (queues r)" using Cons.prems(2) by simp
  then have q: "queues r ! i = ai_datagrams_out (ro_interfaces r ! i)" by (simp add: queues_def)
  obtain r1 where r1: "Router_route_queue ub i (queues r ! i) r = Inr r1" "router_ok r1" "queues r1 = (queues r)[i := []]"
    using route_queue_ok[OF Cons.prems(1) i refl] by blast
  have "set is \<subseteq> {..<length (queues r1)}" using Cons.prems(2) r1(3) by simp
  from Cons.IH[OF r1(2) this] r1 q i show ?case by (auto simp: nth_list_update)
qed

text \<open>\<open>route\<close> never fails and empties every queue of received datagrams, in one pass over the interfaces.\<close>

theorem route_drains_queues:
  assumes "router_ok r"
  shows "\<exists>r'. Router_route ub r = Inr r' \<and> length (ro_interfaces r') = length (ro_interfaces r) \<and>
    (\<forall>ai\<in>set (ro_interfaces r'). ai_datagrams_out ai = [] \<and> ni_inv (ai_interface ai))"
proof -
  have "set [0..<length (ro_interfaces r)] \<subseteq> {..<length (queues r)}" by (auto simp: queues_def)
  from route_from_ok[OF assms this] obtain r' where r': "Router_route ub r = Inr r'" "router_ok r'"
    "length (queues r') = length (queues r)" "\<forall>j<length (queues r). queues r' ! j = []"
    by (fastforce simp: Router_route_def queues_def)
  have len: "length (ro_interfaces r') = length (ro_interfaces r)" using r'(3) by (simp add: queues_def)
  have "ai_datagrams_out ai = []" if ai: "ai \<in> set (ro_interfaces r')" for ai
  proof -
    obtain j where "j < length (ro_interfaces r')" "ro_interfaces r' ! j = ai" using ai by (auto simp: in_set_conv_nth)
    then show ?thesis using r'(3,4) by (auto simp: queues_def)
  qed
  then show ?thesis using r'(1,2) len by (auto simp: router_ok_def)
qed

theorem route_drains_queues_witness:
  "\<exists>r'. Router_route (\<lambda>_. 0) (Router_set_queue example_router 1 [example_dgram 5 0x0a010203 [1, 2, 3]]) = Inr r' \<and>
    (\<forall>ai\<in>set (ro_interfaces r'). ai_datagrams_out ai = [])"
proof -
  have "router_ok (Router_set_queue example_router 1 [example_dgram 5 0x0a010203 [1, 2, 3]])"
    by (rule set_queue_ok(1)[OF example_router_ok]) (simp_all add: example_router_def example_dgram_valid)
  from route_drains_queues[OF this] show ?thesis by blast
qed

section \<open>Observations\<close>

text \<open>
  A default route that is not the first entry is never chosen: the datagram goes to the first entry of
  the table although that does not cover its destination.
\<close>

lemma default_route_not_first:
  "Router_search ub 0x08080808
     [\<lparr>re_dst = 0x0a000000, re_prefix_length = 8, re_next_hop = None, re_interface_num = 1\<rparr>,
      \<lparr>re_dst = 0, re_prefix_length = 0, re_next_hop = None, re_interface_num = 0\<rparr>]
     \<lparr>re_dst = 0x0a000000, re_prefix_length = 8, re_next_hop = None, re_interface_num = 1\<rparr> 0 False =
   (\<lparr>re_dst = 0x0a000000, re_prefix_length = 8, re_next_hop = None, re_interface_num = 1\<rparr>, True)"
  by (simp add: route_matches_def route_mask_def)

text \<open>An entry whose address has bits set after its prefix never matches.\<close>

lemma unmasked_prefix_never_matches:
  "\<not> route_matches ub dst \<lparr>re_dst = 0x0a000001, re_prefix_length = 8, re_next_hop = h, re_interface_num = n\<rparr>"
proof
  assume "route_matches ub dst \<lparr>re_dst = 0x0a000001, re_prefix_length = 8, re_next_hop = h, re_interface_num = n\<rparr>"
  then have "and dst (- 16777216) = 0x0a000001" by (simp add: route_matches_def route_mask_def)
  then have "and (and dst (- 16777216)) 1 = (1 :: u32)" by simp
  then show False by (simp add: and.assoc)
qed

end
