(* ===== verification/Network_Simulator.thy ===== *)
theory Network_Simulator
  imports Router
begin

text \<open>
  The network simulator (\<open>apps/network_simulator.cc\<close>): hosts and a router with seven interfaces, the links
  between them, and the scenarios the program runs.  The global random generator is the stream \<open>random\<close>
  of the values it will return, and is passed along.  The \<open>unordered_map\<close> of hosts is a partial
  function; the order in which a loop over it visits the hosts is the argument \<open>order\<close>.  What the program
  prints is left out, but the text of every frame is computed, since computing it may fail.
\<close>

section \<open>Random addresses\<close>

type_synonym random = "nat \<Rightarrow> u32"

definition rd :: "random \<Rightarrow> u32 \<times> random" where
  "rd g = (g 0, \<lambda>n. g (n + 1))"

fun rd_bytes :: "nat \<Rightarrow> random \<Rightarrow> byte list \<times> random" where
  "rd_bytes 0 g = ([], g)"
| "rd_bytes (Suc n) g = (let (r, g) = rd g; (bs, g) = rd_bytes n g in (ucast r # bs, g))"

definition random_host_ethernet_address :: "random \<Rightarrow> ethernet_address \<times> random" where
  "random_host_ethernet_address g =
     (let (addr, g) = rd_bytes 6 g;
          addr = addr[0 := or (addr ! 0) 0x02];
          addr = addr[0 := and (addr ! 0) 0xfe]
      in (addr, g))"

definition random_router_ethernet_address :: "random \<Rightarrow> ethernet_address \<times> random" where
  "random_router_ethernet_address g =
     (let (addr, g) = rd_bytes 6 g; addr = addr[0 := 0x02]; addr = addr[1 := 0]; addr = addr[2 := 0] in (addr, g))"

definition ip :: "resolver \<Rightarrow> string \<Rightarrow> u32 result" where
  "ip getaddrinfo str = rbind (Address_of_ip_port getaddrinfo str 0) (\<lambda>a. Address_ipv4_numeric a)"

text \<open>Popping an empty queue is undefined.\<close>

fun clear :: "'a list \<Rightarrow> 'b list \<Rightarrow> 'b list result" where
  "clear [] queue2 = Inr queue2"
| "clear (_ # queue1) [] = Inl (Undefined_behaviour ''pop of an empty queue'')"
| "clear (_ # queue1) (_ # queue2) = clear queue1 queue2"

definition summary :: "ethernet_frame \<Rightarrow> string result" where
  "summary frame =
     (let ret = EthernetHeader_to_string (fr_header frame) in
      if eth_type (fr_header frame) = TYPE_IPv4 then
        rbind (BufferList_to_Buffer (fr_payload frame)) (\<lambda>b.
        rbind (IPv4Datagram_parse IPv4Datagram_default b) (\<lambda>(dgram, res).
          if res = NoError then
            Inr (ret @ '' '' @ IPv4Header_summary (dg_header dgram) @
                 '' payload='' @ [CHR 0x22] @ string_of_bytes (BufferList_concatenate (dg_payload dgram)) @ [CHR 0x22])
          else Inr (ret @ '' (bad IPv4)'')))
      else if eth_type (fr_header frame) = TYPE_ARP then
        rbind (BufferList_to_Buffer (fr_payload frame)) (\<lambda>b.
        rbind (ARPMessage_parse ARPMessage_default b) (\<lambda>(arp, res).
          if res = NoError then Inr (ret @ '' '' @ ARPMessage_to_string arp) else Inr (ret @ '' (bad ARP)'')))
      else Inr ret)"

section \<open>Host\<close>

record host =
  ho_name :: string
  ho_my_address :: address
  ho_interface :: async_interface
  ho_next_hop :: address
  ho_expecting_to_receive :: "ipv4_datagram list"

definition same_serialization :: "ipv4_datagram \<Rightarrow> ipv4_datagram \<Rightarrow> bool result" where
  "same_serialization x expected =
     rbind (IPv4Datagram_serialize x) (\<lambda>a. rbind (IPv4Datagram_serialize expected) (\<lambda>b.
       Inr (BufferList_concatenate a = BufferList_concatenate b)))"

fun expecting :: "ipv4_datagram list \<Rightarrow> ipv4_datagram \<Rightarrow> bool result" where
  "expecting [] expected = Inr False"
| "expecting (x # xs) expected =
     rbind (same_serialization x expected) (\<lambda>same. if same then Inr True else expecting xs expected)"

fun remove_expectation :: "ipv4_datagram list \<Rightarrow> ipv4_datagram \<Rightarrow> ipv4_datagram list result" where
  "remove_expectation [] expected = Inr []"
| "remove_expectation (x # xs) expected =
     rbind (same_serialization x expected) (\<lambda>same.
       if same then Inr xs else rbind (remove_expectation xs expected) (\<lambda>xs. Inr (x # xs)))"

definition Host_new :: "string \<Rightarrow> address \<Rightarrow> address \<Rightarrow> random \<Rightarrow> host \<times> random" where
  "Host_new name my_address next_hop g =
     (let (mac, g) = random_host_ethernet_address g
      in (\<lparr>ho_name = name, ho_my_address = my_address,
           ho_interface = AsyncNetworkInterface_new (NetworkInterface_new mac my_address),
           ho_next_hop = next_hop, ho_expecting_to_receive = []\<rparr>, g))"

definition Host_send_to :: "host \<Rightarrow> address \<Rightarrow> u8 \<Rightarrow> random \<Rightarrow> (ipv4_datagram \<times> host \<times> random) result" where
  "Host_send_to h destination ttl g =
     (let dgram = IPv4Datagram_default in
      rbind (Address_ipv4_numeric (ho_my_address h)) (\<lambda>src.
      rbind (Address_ipv4_numeric destination) (\<lambda>dst.
      let dgram = dgram\<lparr>dg_header := (dg_header dgram)\<lparr>ip_src := src, ip_dst := dst\<rparr>\<rparr>;
          (r, g) = rd g;
          dgram = dgram\<lparr>dg_payload := BufferList_of_string
                     (bytes_of_string (''random payload: {'' @ dec_string (unat r) @ ''}''))\<rparr>;
          dgram = dgram\<lparr>dg_header := (dg_header dgram)
                     \<lparr>ip_len := of_nat (unat (ip_hlen (dg_header dgram)) * 4 + BufferList_size (dg_payload dgram))\<rparr>\<rparr>;
          dgram = dgram\<lparr>dg_header := (dg_header dgram)\<lparr>ip_ttl := ttl\<rparr>\<rparr>
      in rbind (NetworkInterface_send_datagram (ai_interface (ho_interface h)) dgram (ho_next_hop h)) (\<lambda>ni.
         rbind (Address_ip (ho_next_hop h)) (\<lambda>_.
           Inr (dgram, h\<lparr>ho_interface := (ho_interface h)\<lparr>ai_interface := ni\<rparr>\<rparr>, g))))))"

definition Host_expect :: "host \<Rightarrow> ipv4_datagram \<Rightarrow> host" where
  "Host_expect h expected = h\<lparr>ho_expecting_to_receive := ho_expecting_to_receive h @ [expected]\<rparr>"

definition dgram_text :: "ipv4_datagram \<Rightarrow> string" where
  "dgram_text d = IPv4Header_summary (dg_header d) @ '' payload='' @ [CHR 0x22] @
     string_of_bytes (BufferList_concatenate (dg_payload d)) @ [CHR 0x22]"

text \<open>The loop of \<open>check\<close> over the received datagrams, and the test that follows it.\<close>

fun Host_check_loop :: "string \<Rightarrow> ipv4_datagram list \<Rightarrow> ipv4_datagram list \<Rightarrow> ipv4_datagram list result" where
  "Host_check_loop name [] expectations = Inr expectations"
| "Host_check_loop name (dgram_received # queue) expectations =
     rbind (expecting expectations dgram_received) (\<lambda>expected.
       if \<not> expected then
         Inl (Runtime_error (''Host '' @ name @ '' received unexpected Internet datagram: '' @ dgram_text dgram_received))
       else rbind (remove_expectation expectations dgram_received) (\<lambda>expectations.
              Host_check_loop name queue expectations))"

definition Host_check :: "host \<Rightarrow> host result" where
  "Host_check h =
     rbind (Host_check_loop (ho_name h) (ai_datagrams_out (ho_interface h)) (ho_expecting_to_receive h)) (\<lambda>expectations.
       case expectations of
         expected # _ \<Rightarrow>
           Inl (Runtime_error (''Host '' @ ho_name h @ '' did NOT receive an expected Internet datagram: '' @ dgram_text expected))
       | [] \<Rightarrow> Inr (h\<lparr>ho_interface := (ho_interface h)\<lparr>ai_datagrams_out := []\<rparr>, ho_expecting_to_receive := []\<rparr>))"

section \<open>Links\<close>

text \<open>Each frame of the source's queue, its payload in one piece, reaches the destination.\<close>

fun Network_deliver :: "ethernet_frame list \<Rightarrow> async_interface \<Rightarrow> async_interface result" where
  "Network_deliver [] dst = Inr dst"
| "Network_deliver (f # to_send) dst =
     (let f = f\<lparr>fr_payload := BufferList_of_string (BufferList_concatenate (fr_payload f))\<rparr>
      in rbind (summary f) (\<lambda>_. rbind (AsyncNetworkInterface_recv_frame dst f) (\<lambda>dst. Network_deliver to_send dst)))"

definition frames_out :: "async_interface \<Rightarrow> ethernet_frame list" where
  "frames_out x = ni_frames_out (ai_interface x)"

definition clear_frames :: "ethernet_frame list \<Rightarrow> async_interface \<Rightarrow> async_interface result" where
  "clear_frames sent x =
     rbind (clear sent (frames_out x)) (\<lambda>q. Inr (x\<lparr>ai_interface := (ai_interface x)\<lparr>ni_frames_out := q\<rparr>\<rparr>))"

definition exchange_frames :: "async_interface \<Rightarrow> async_interface \<Rightarrow> (async_interface \<times> async_interface) result" where
  "exchange_frames x y =
     (let x_frames = frames_out x; y_frames = frames_out y in
      rbind (Network_deliver x_frames y) (\<lambda>y.
      rbind (Network_deliver y_frames x) (\<lambda>x.
      rbind (clear_frames x_frames x) (\<lambda>x.
      rbind (clear_frames y_frames y) (\<lambda>y. Inr (x, y))))))"

definition exchange_frames3 ::
  "async_interface \<Rightarrow> async_interface \<Rightarrow> async_interface \<Rightarrow> (async_interface \<times> async_interface \<times> async_interface) result" where
  "exchange_frames3 x y z =
     (let x_frames = frames_out x; y_frames = frames_out y; z_frames = frames_out z in
      rbind (Network_deliver x_frames y) (\<lambda>y.
      rbind (Network_deliver x_frames z) (\<lambda>z.
      rbind (Network_deliver y_frames x) (\<lambda>x.
      rbind (Network_deliver y_frames z) (\<lambda>z.
      rbind (Network_deliver z_frames x) (\<lambda>x.
      rbind (Network_deliver z_frames y) (\<lambda>y.
      rbind (clear_frames x_frames x) (\<lambda>x.
      rbind (clear_frames y_frames y) (\<lambda>y.
      rbind (clear_frames z_frames z) (\<lambda>z. Inr (x, y, z)))))))))))"

section \<open>Network\<close>

record network =
  ne_router :: router
  ne_default_id :: u64
  ne_eth0_id :: u64
  ne_eth1_id :: u64
  ne_eth2_id :: u64
  ne_uun3_id :: u64
  ne_hs4_id :: u64
  ne_mit5_id :: u64
  ne_hosts :: "string \<rightharpoonup> host"

definition Network_host :: "network \<Rightarrow> string \<Rightarrow> host result" where
  "Network_host net name =
     (case ne_hosts net name of
        None \<Rightarrow> Inl (Runtime_error (''unknown host: '' @ name))
      | Some h \<Rightarrow> if ho_name h \<noteq> name then Inl (Runtime_error (''invalid host: '' @ name)) else Inr h)"

text \<open>The reference that \<open>host\<close> returns is written through.\<close>

definition Network_set_host :: "network \<Rightarrow> string \<Rightarrow> host \<Rightarrow> network" where
  "Network_set_host net name h = net\<lparr>ne_hosts := (ne_hosts net)(name \<mapsto> h)\<rparr>"

definition add_random_interface :: "resolver \<Rightarrow> string \<Rightarrow> router \<times> random \<Rightarrow> (u64 \<times> router \<times> random) result" where
  "add_random_interface getaddrinfo str = (\<lambda>(r, g).
     let (mac, g) = random_router_ethernet_address g in
     rbind (Address_of_ip_port getaddrinfo str 0) (\<lambda>a.
       let (i, r) = Router_add_interface r (AsyncNetworkInterface_new (NetworkInterface_new mac a)) in Inr (i, r, g)))"

definition insert_host :: "resolver \<Rightarrow> string \<Rightarrow> string \<Rightarrow> string \<Rightarrow> network \<times> random \<Rightarrow> (network \<times> random) result" where
  "insert_host getaddrinfo name my_address next_hop = (\<lambda>(net, g).
     rbind (Address_of_ip_port getaddrinfo my_address 0) (\<lambda>my.
     rbind (Address_of_ip_port getaddrinfo next_hop 0) (\<lambda>hop.
       let (h, g) = Host_new name my hop g
       in Inr (if ne_hosts net name = None then Network_set_host net name h else net, g))))"

definition add_net_route :: "resolver \<Rightarrow> string \<Rightarrow> u8 \<Rightarrow> address option \<Rightarrow> u64 \<Rightarrow> network \<Rightarrow> network result" where
  "add_net_route getaddrinfo str len hop i net =
     rbind (ip getaddrinfo str) (\<lambda>a. Inr (net\<lparr>ne_router := Router_add_route (ne_router net) a len hop i\<rparr>))"

definition Network_routes :: "resolver \<Rightarrow> network \<Rightarrow> network result" where
  "Network_routes getaddrinfo net =
     rbind (Network_host net ''default_router'') (\<lambda>default_router.
     rbind (add_net_route getaddrinfo ''0.0.0.0'' 0 (Some (ho_my_address default_router)) (ne_default_id net) net) (\<lambda>net.
     rbind (add_net_route getaddrinfo ''10.0.0.0'' 8 None (ne_eth0_id net) net) (\<lambda>net.
     rbind (add_net_route getaddrinfo ''172.16.0.0'' 16 None (ne_eth1_id net) net) (\<lambda>net.
     rbind (add_net_route getaddrinfo ''192.168.0.0'' 24 None (ne_eth2_id net) net) (\<lambda>net.
     rbind (add_net_route getaddrinfo ''198.178.229.0'' 24 None (ne_uun3_id net) net) (\<lambda>net.
     rbind (Network_host net ''hs_router'') (\<lambda>hs_router.
     rbind (add_net_route getaddrinfo ''143.195.0.0'' 17 (Some (ho_my_address hs_router)) (ne_hs4_id net) net) (\<lambda>net.
     rbind (add_net_route getaddrinfo ''143.195.128.0'' 18 (Some (ho_my_address hs_router)) (ne_hs4_id net) net) (\<lambda>net.
     rbind (add_net_route getaddrinfo ''143.195.192.0'' 19 (Some (ho_my_address hs_router)) (ne_hs4_id net) net) (\<lambda>net.
     rbind (Address_of_ip_port getaddrinfo ''128.30.0.1'' 0) (\<lambda>mit.
       add_net_route getaddrinfo ''128.30.76.255'' 16 (Some mit) (ne_mit5_id net) net)))))))))))"

definition Network_new :: "resolver \<Rightarrow> random \<Rightarrow> (network \<times> random) result" where
  "Network_new getaddrinfo g =
     rbind (add_random_interface getaddrinfo ''171.67.76.46'' (Router_new, g)) (\<lambda>(default_id, s).
     rbind (add_random_interface getaddrinfo ''10.0.0.1'' s) (\<lambda>(eth0_id, s).
     rbind (add_random_interface getaddrinfo ''172.16.0.1'' s) (\<lambda>(eth1_id, s).
     rbind (add_random_interface getaddrinfo ''192.168.0.1'' s) (\<lambda>(eth2_id, s).
     rbind (add_random_interface getaddrinfo ''198.178.229.1'' s) (\<lambda>(uun3_id, s).
     rbind (add_random_interface getaddrinfo ''143.195.0.2'' s) (\<lambda>(hs4_id, s).
     rbind (add_random_interface getaddrinfo ''128.30.76.255'' s) (\<lambda>(mit5_id, r, g).
     let net = \<lparr>ne_router = r, ne_default_id = default_id, ne_eth0_id = eth0_id, ne_eth1_id = eth1_id,
                ne_eth2_id = eth2_id, ne_uun3_id = uun3_id, ne_hs4_id = hs4_id, ne_mit5_id = mit5_id,
                ne_hosts = Map.empty\<rparr> in
     rbind (insert_host getaddrinfo ''applesauce'' ''10.0.0.2'' ''10.0.0.1'' (net, g)) (\<lambda>s.
     rbind (insert_host getaddrinfo ''default_router'' ''171.67.76.1'' ''0'' s) (\<lambda>s.
     rbind (insert_host getaddrinfo ''cherrypie'' ''192.168.0.2'' ''192.168.0.1'' s) (\<lambda>s.
     rbind (insert_host getaddrinfo ''hs_router'' ''143.195.0.1'' ''0'' s) (\<lambda>s.
     rbind (insert_host getaddrinfo ''dm42'' ''198.178.229.42'' ''198.178.229.1'' s) (\<lambda>s.
     rbind (insert_host getaddrinfo ''dm43'' ''198.178.229.43'' ''198.178.229.1'' s) (\<lambda>(net, g).
     rbind (Network_routes getaddrinfo net) (\<lambda>net. Inr (net, g)))))))))))))))"

definition set_router_interface :: "network \<Rightarrow> u64 \<Rightarrow> async_interface \<Rightarrow> network" where
  "set_router_interface net i x =
     net\<lparr>ne_router := (ne_router net)\<lparr>ro_interfaces := (ro_interfaces (ne_router net))[i := x]\<rparr>\<rparr>"

definition set_host_interface :: "network \<Rightarrow> string \<Rightarrow> host \<Rightarrow> async_interface \<Rightarrow> network" where
  "set_host_interface net name h y = Network_set_host net name (h\<lparr>ho_interface := y\<rparr>)"

definition connect_pair :: "u64 \<Rightarrow> string \<Rightarrow> network \<Rightarrow> network result" where
  "connect_pair i name net =
     rbind (Router_interface (ne_router net) i) (\<lambda>x.
     rbind (Network_host net name) (\<lambda>h.
     rbind (exchange_frames x (ho_interface h)) (\<lambda>(x, y).
       Inr (set_host_interface (set_router_interface net i x) name h y))))"

definition connect_three :: "u64 \<Rightarrow> string \<Rightarrow> string \<Rightarrow> network \<Rightarrow> network result" where
  "connect_three i name1 name2 net =
     rbind (Router_interface (ne_router net) i) (\<lambda>x.
     rbind (Network_host net name1) (\<lambda>h1.
     rbind (Network_host net name2) (\<lambda>h2.
     rbind (exchange_frames3 x (ho_interface h1) (ho_interface h2)) (\<lambda>(x, y, z).
       Inr (set_host_interface (set_host_interface (set_router_interface net i x) name1 h1 y) name2 h2 z)))))"

definition simulate_physical_connections :: "network \<Rightarrow> network result" where
  "simulate_physical_connections net =
     rbind (connect_pair (ne_default_id net) ''default_router'' net) (\<lambda>net.
     rbind (connect_pair (ne_eth0_id net) ''applesauce'' net) (\<lambda>net.
     rbind (connect_pair (ne_eth2_id net) ''cherrypie'' net) (\<lambda>net.
     rbind (connect_pair (ne_hs4_id net) ''hs_router'' net) (\<lambda>net.
       connect_three (ne_uun3_id net) ''dm42'' ''dm43'' net))))"

definition simulate_round :: "(u8 \<Rightarrow> u32) \<Rightarrow> network \<Rightarrow> network result" where
  "simulate_round ub net =
     rbind (Router_route ub (ne_router net)) (\<lambda>r. simulate_physical_connections (net\<lparr>ne_router := r\<rparr>))"

fun simulate_rounds :: "(u8 \<Rightarrow> u32) \<Rightarrow> nat \<Rightarrow> network \<Rightarrow> network result" where
  "simulate_rounds ub 0 net = Inr net"
| "simulate_rounds ub (Suc n) net = rbind (simulate_round ub net) (\<lambda>net. simulate_rounds ub n net)"

fun check_hosts :: "string list \<Rightarrow> network \<Rightarrow> network result" where
  "check_hosts [] net = Inr net"
| "check_hosts (name # names) net =
     (case ne_hosts net name of
        None \<Rightarrow> check_hosts names net
      | Some h \<Rightarrow> rbind (Host_check h) (\<lambda>h. check_hosts names (Network_set_host net name h)))"

definition simulate :: "(u8 \<Rightarrow> u32) \<Rightarrow> string list \<Rightarrow> network \<Rightarrow> network result" where
  "simulate ub order net = rbind (simulate_rounds ub 256 net) (\<lambda>net. check_hosts order net)"

section \<open>The scenarios\<close>

text \<open>One host sends, another expects the datagram with its lifetime one less, and the network runs.\<close>

definition host_sends :: "string \<Rightarrow> address \<Rightarrow> u8 \<Rightarrow> network \<times> random \<Rightarrow> (ipv4_datagram \<times> network \<times> random) result" where
  "host_sends name destination ttl = (\<lambda>(net, g).
     rbind (Network_host net name) (\<lambda>h.
     rbind (Host_send_to h destination ttl g) (\<lambda>(dgram, h, g). Inr (dgram, Network_set_host net name h, g))))"

definition decrement_ttl :: "ipv4_datagram \<Rightarrow> ipv4_datagram" where
  "decrement_ttl d = d\<lparr>dg_header := (dg_header d)\<lparr>ip_ttl := ip_ttl (dg_header d) - 1\<rparr>\<rparr>"

definition traffic ::
  "(u8 \<Rightarrow> u32) \<Rightarrow> string list \<Rightarrow> string \<Rightarrow> address \<Rightarrow> string \<Rightarrow> network \<times> random \<Rightarrow> (network \<times> random) result" where
  "traffic ub order from_name destination to_name s =
     rbind (host_sends from_name destination 64 s) (\<lambda>(dgram_sent, net, g).
     rbind (Network_host net to_name) (\<lambda>h.
     rbind (simulate ub order (Network_set_host net to_name (Host_expect h (decrement_ttl dgram_sent)))) (\<lambda>net.
       Inr (net, g))))"

definition traffic_between ::
  "(u8 \<Rightarrow> u32) \<Rightarrow> string list \<Rightarrow> string \<Rightarrow> string \<Rightarrow> network \<times> random \<Rightarrow> (network \<times> random) result" where
  "traffic_between ub order from_name to_name s =
     rbind (Network_host (fst s) to_name) (\<lambda>h. traffic ub order from_name (ho_my_address h) to_name s)"

definition traffic_to ::
  "resolver \<Rightarrow> (u8 \<Rightarrow> u32) \<Rightarrow> string list \<Rightarrow> string \<Rightarrow> string \<Rightarrow> string \<Rightarrow> network \<times> random \<Rightarrow> (network \<times> random) result" where
  "traffic_to getaddrinfo ub order from_name destination to_name s =
     rbind (Address_of_ip_port getaddrinfo destination 0) (\<lambda>a. traffic ub order from_name a to_name s)"

definition expiring_traffic ::
  "resolver \<Rightarrow> (u8 \<Rightarrow> u32) \<Rightarrow> string list \<Rightarrow> string \<Rightarrow> string \<Rightarrow> u8 \<Rightarrow> network \<times> random \<Rightarrow> (network \<times> random) result" where
  "expiring_traffic getaddrinfo ub order from_name destination ttl s =
     rbind (Address_of_ip_port getaddrinfo destination 0) (\<lambda>a.
     rbind (host_sends from_name a ttl s) (\<lambda>(dgram_sent, net, g).
     rbind (simulate ub order net) (\<lambda>net. Inr (net, g))))"

definition network_simulator :: "resolver \<Rightarrow> (u8 \<Rightarrow> u32) \<Rightarrow> string list \<Rightarrow> random \<Rightarrow> (network \<times> random) result" where
  "network_simulator getaddrinfo ub order g =
     rbind (Network_new getaddrinfo g) (\<lambda>s.
     rbind (traffic_between ub order ''applesauce'' ''cherrypie'' s) (\<lambda>s.
     rbind (traffic_between ub order ''cherrypie'' ''applesauce'' s) (\<lambda>s.
     rbind (traffic_to getaddrinfo ub order ''applesauce'' ''1.2.3.4'' ''default_router'' s) (\<lambda>s.
     rbind (traffic_to getaddrinfo ub order ''applesauce'' ''143.195.131.17'' ''hs_router'' s) (\<lambda>s.
     rbind (traffic_to getaddrinfo ub order ''cherrypie'' ''143.195.193.52'' ''hs_router'' s) (\<lambda>s.
     rbind (traffic_to getaddrinfo ub order ''cherrypie'' ''143.195.223.255'' ''hs_router'' s) (\<lambda>s.
     rbind (traffic_to getaddrinfo ub order ''cherrypie'' ''143.195.224.0'' ''default_router'' s) (\<lambda>s.
     rbind (traffic_between ub order ''dm42'' ''dm43'' s) (\<lambda>s.
     rbind (expiring_traffic getaddrinfo ub order ''applesauce'' ''1.2.3.4'' 1 s) (\<lambda>s.
       expiring_traffic getaddrinfo ub order ''applesauce'' ''1.2.3.4'' 0 s))))))))))"

text \<open>An exception makes the exit status 1.\<close>

definition main_exit :: "resolver \<Rightarrow> (u8 \<Rightarrow> u32) \<Rightarrow> string list \<Rightarrow> random \<Rightarrow> int" where
  "main_exit getaddrinfo ub order g = (case network_simulator getaddrinfo ub order g of Inl _ \<Rightarrow> 1 | Inr _ \<Rightarrow> 0)"

end
