(* ===== verification/Simulator_Correct.thy ===== *)
theory Simulator_Correct
  imports Network_Simulator
begin

text \<open>
  The network simulator runs to its end.  The network is seen as thirteen stations on five links
  (\<open>net_of\<close>); a datagram handed to a neighbour is in transit for one or three exchanges, depending on
  whether the neighbour's address is cached (\<open>transit\<close>), and each round of the simulation takes it one
  exchange further; the router forwards what it receives in the next round.  Two transits need at most six
  of the 256 rounds, and the other rounds change nothing.
\<close>

section \<open>The network as stations and links\<close>

text \<open>The thirteen stations: the seven interfaces of the router, then the six hosts.\<close>

type_synonym stations = "nat \<Rightarrow> async_interface"

definition quad :: "nat \<Rightarrow> nat \<Rightarrow> nat \<Rightarrow> nat \<Rightarrow> u32" where
  "quad a b c d = of_nat (((a * 256 + b) * 256 + c) * 256 + d)"

definition station_ip :: "nat \<Rightarrow> u32" where
  "station_ip i = [quad 171 67 76 46, quad 10 0 0 1, quad 172 16 0 1, quad 192 168 0 1, quad 198 178 229 1, quad 143 195 0 2,
     quad 128 30 76 255, quad 171 67 76 1, quad 10 0 0 2, quad 192 168 0 2, quad 143 195 0 1, quad 198 178 229 42,
     quad 198 178 229 43] ! i"

definition host_names :: "string list" where
  "host_names = [''default_router'', ''applesauce'', ''cherrypie'', ''hs_router'', ''dm42'', ''dm43'']"

definition host_name :: "nat \<Rightarrow> string" where
  "host_name i = host_names ! (i - 7)"

definition next_hop_ip :: "nat \<Rightarrow> u32" where
  "next_hop_ip i = [0, quad 10 0 0 1, quad 192 168 0 1, 0, quad 198 178 229 1, quad 198 178 229 1] ! (i - 7)"

definition links :: "nat list list" where
  "links = [[0, 7], [1, 8], [3, 9], [5, 10], [4, 11, 12]]"

definition sim_table :: "route_entry list" where
  "sim_table = map (\<lambda>(dst, len, hop, i). \<lparr>re_dst = dst, re_prefix_length = len, re_next_hop = hop, re_interface_num = i\<rparr>)
     [(0, 0, Some (ipv4_address (station_ip 7) 0), 0), (quad 10 0 0 0, 8, None, 1), (quad 172 16 0 0, 16, None, 2),
      (quad 192 168 0 0, 24, None, 3), (quad 198 178 229 0, 24, None, 4),
      (quad 143 195 0 0, 17, Some (ipv4_address (station_ip 10) 0), 5), (quad 143 195 128 0, 18, Some (ipv4_address (station_ip 10) 0), 5),
      (quad 143 195 192 0, 19, Some (ipv4_address (station_ip 10) 0), 5),
      (quad 128 30 76 255, 16, Some (ipv4_address (quad 128 30 0 1) 0), 6)]"

definition host_of :: "nat \<Rightarrow> async_interface \<Rightarrow> ipv4_datagram list \<Rightarrow> host" where
  "host_of i x ex = \<lparr>ho_name = host_name i, ho_my_address = ipv4_address (station_ip i) 0, ho_interface = x,
     ho_next_hop = ipv4_address (next_hop_ip i) 0, ho_expecting_to_receive = ex\<rparr>"

definition router_of :: "stations \<Rightarrow> router" where
  "router_of s = \<lparr>ro_interfaces = map s [0..<7], ro_route_table = sim_table\<rparr>"

definition hosts_of :: "stations \<Rightarrow> (nat \<Rightarrow> ipv4_datagram list) \<Rightarrow> string \<rightharpoonup> host" where
  "hosts_of s ex = map_of (map (\<lambda>i. (host_name i, host_of i (s i) (ex i))) [7..<13])"

definition net_of :: "stations \<Rightarrow> (nat \<Rightarrow> ipv4_datagram list) \<Rightarrow> network" where
  "net_of s ex = \<lparr>ne_router = router_of s, ne_default_id = 0, ne_eth0_id = 1, ne_eth1_id = 2, ne_eth2_id = 3, ne_uun3_id = 4,
     ne_hs4_id = 5, ne_mit5_id = 6, ne_hosts = hosts_of s ex\<rparr>"

lemma upt_stations: "[0..<7] = [0, 1, 2, 3, 4, 5, 6 :: nat]" "[7..<13] = [7, 8, 9, 10, 11, 12 :: nat]"
  by (simp_all add: upt_rec)

lemma station_cases: "7 \<le> i \<Longrightarrow> i < 13 \<Longrightarrow> i = 7 \<or> i = 8 \<or> i = 9 \<or> i = 10 \<or> i = 11 \<or> i = (12 :: nat)"
  by linarith

lemma host_name_simps [simp]:
  "host_name 7 = ''default_router''" "host_name 8 = ''applesauce''" "host_name 9 = ''cherrypie''"
  "host_name 10 = ''hs_router''" "host_name 11 = ''dm42''" "host_name 12 = ''dm43''"
  by (simp_all add: host_name_def host_names_def)

lemma inj_on_upt: "distinct (map f [a..<b]) \<Longrightarrow> a \<le> i \<Longrightarrow> i < b \<Longrightarrow> a \<le> j \<Longrightarrow> j < b \<Longrightarrow> f i = f j \<Longrightarrow> i = j"
  by (auto simp: distinct_map dest: inj_onD)

lemma station_ip_inj: "i < 13 \<Longrightarrow> j < 13 \<Longrightarrow> station_ip i = station_ip j \<Longrightarrow> i = j"
proof -
  have "distinct (map station_ip [0..<13])" by (simp add: upt_rec station_ip_def quad_def)
  from inj_on_upt[OF this] show "i < 13 \<Longrightarrow> j < 13 \<Longrightarrow> station_ip i = station_ip j \<Longrightarrow> i = j" by simp
qed

lemma host_names_distinct: "distinct (map host_name [7..<13])"
  by code_simp

lemma host_name_inj: "inj_on host_name {7..<13}"
  using host_names_distinct unfolding distinct_map set_upt by blast

lemma hosts_of_name: "7 \<le> i \<Longrightarrow> i < 13 \<Longrightarrow> hosts_of s ex (host_name i) = Some (host_of i (s i) (ex i))"
proof -
  assume i: "7 \<le> i" "i < 13"
  have "map fst (map (\<lambda>i. (host_name i, host_of i (s i) (ex i))) [7..<13]) = map host_name [7..<13]"
    unfolding map_map comp_def fst_conv by (rule refl)
  then have d: "distinct (map fst (map (\<lambda>i. (host_name i, host_of i (s i) (ex i))) [7..<13]))" using host_names_distinct by (simp only:)
  have "(host_name i, host_of i (s i) (ex i)) \<in> set (map (\<lambda>i. (host_name i, host_of i (s i) (ex i))) [7..<13])"
    unfolding set_map set_upt by (rule imageI) (use i in \<open>simp only: atLeastLessThan_iff\<close>)
  from map_of_is_SomeI[OF d this] show ?thesis unfolding hosts_of_def .
qed

lemma Network_host_of [simp]: "7 \<le> i \<Longrightarrow> i < 13 \<Longrightarrow> Network_host (net_of s ex) (host_name i) = Inr (host_of i (s i) (ex i))"
  by (simp add: Network_host_def net_of_def hosts_of_name) (simp add: host_of_def)

lemma hosts_of_dom: "hosts_of s ex n \<noteq> None \<longleftrightarrow> (\<exists>i. 7 \<le> i \<and> i < 13 \<and> n = host_name i)"
  unfolding hosts_of_def map_of_eq_None_iff set_map image_image fst_conv set_upt not_not image_iff Bex_def atLeastLessThan_iff
  by blast

lemma hosts_of_update:
  assumes "7 \<le> i" "i < 13" shows "(hosts_of s ex)(host_name i \<mapsto> host_of i x e) = hosts_of (s(i := x)) (ex(i := e))"
proof
  fix n show "((hosts_of s ex)(host_name i \<mapsto> host_of i x e)) n = hosts_of (s(i := x)) (ex(i := e)) n"
  proof (cases "\<exists>j. 7 \<le> j \<and> j < 13 \<and> n = host_name j")
    case True
    then obtain j where j: "7 \<le> j" "j < 13" "n = host_name j" by blast
    then have "host_name j = host_name i \<longleftrightarrow> j = i" using assms inj_onD[OF host_name_inj, of j i] by auto
    then show ?thesis using j assms by (auto simp: hosts_of_name)
  next
    case False
    then have "hosts_of s ex n = None" "hosts_of (s(i := x)) (ex(i := e)) n = None" using hosts_of_dom[of _ _ n] by blast+
    then show ?thesis using False assms by auto
  qed
qed

lemma router_of_update: "i < 7 \<Longrightarrow> (router_of s)\<lparr>ro_interfaces := (ro_interfaces (router_of s))[i := x]\<rparr> = router_of (s(i := x))"
  by (auto simp: router_of_def nth_list_update intro!: nth_equalityI)

lemma hosts_of_router: "i < 7 \<Longrightarrow> hosts_of (s(i := x)) ex = hosts_of s ex"
  by (auto simp: hosts_of_def upt_stations)

lemma router_of_host: "7 \<le> i \<Longrightarrow> router_of (s(i := x)) = router_of s"
  by (auto simp: router_of_def)

lemma set_host_of: "7 \<le> i \<Longrightarrow> i < 13 \<Longrightarrow> Network_set_host (net_of s ex) (host_name i) (host_of i x e) = net_of (s(i := x)) (ex(i := e))"
  by (simp add: Network_set_host_def net_of_def hosts_of_update router_of_host)

lemma set_router_of: "i < 7 \<Longrightarrow> set_router_interface (net_of s ex) i x = net_of (s(i := x)) ex"
  by (simp add: set_router_interface_def net_of_def router_of_update hosts_of_router)

lemma host_of_interface [simp]: "(host_of i x e)\<lparr>ho_interface := y\<rparr> = host_of i y e" "ho_interface (host_of i x e) = x"
  by (simp_all add: host_of_def)

lemma set_host_interface_of:
  "7 \<le> i \<Longrightarrow> i < 13 \<Longrightarrow> set_host_interface (net_of s ex) (host_name i) (host_of i x (ex i)) y = net_of (s(i := y)) ex"
  by (simp add: set_host_interface_def set_host_of)

lemma router_interface_of: "i < 7 \<Longrightarrow> Router_interface (router_of s) i = Inr (s i)"
  by (simp add: Router_interface_def router_of_def)

fun exchange_link :: "nat list \<Rightarrow> stations \<Rightarrow> stations result" where
  "exchange_link [a, b] s = rbind (exchange_frames (s a) (s b)) (\<lambda>(x, y). Inr (s(a := x, b := y)))"
| "exchange_link [a, b, c] s = rbind (exchange_frames3 (s a) (s b) (s c)) (\<lambda>(x, y, z). Inr (s(a := x, b := y, c := z)))"
| "exchange_link _ s = Inr s"

fun exchange_links :: "nat list list \<Rightarrow> stations \<Rightarrow> stations result" where
  "exchange_links [] s = Inr s"
| "exchange_links (l # ls) s = rbind (exchange_link l s) (\<lambda>s. exchange_links ls s)"

lemma connect_pair_of:
  assumes "i < 7" "7 \<le> j" "j < 13"
  shows "connect_pair i (host_name j) (net_of s ex) = rbind (exchange_link [i, j] s) (\<lambda>s. Inr (net_of s ex))"
proof -
  have r: "Router_interface (ne_router (net_of s ex)) i = Inr (s i)" using router_interface_of[OF assms(1)] by (simp add: net_of_def)
  show ?thesis
    using assms by (cases "exchange_frames (s i) (s j)") (auto simp: connect_pair_def r set_router_of set_host_interface_of)
qed

lemma connect_three_of:
  assumes "i < 7" "7 \<le> j" "j < 13" "7 \<le> k" "k < 13" "j \<noteq> k"
  shows "connect_three i (host_name j) (host_name k) (net_of s ex) = rbind (exchange_link [i, j, k] s) (\<lambda>s. Inr (net_of s ex))"
proof -
  have r: "Router_interface (ne_router (net_of s ex)) i = Inr (s i)" using router_interface_of[OF assms(1)] by (simp add: net_of_def)
  show ?thesis
    using assms by (cases "exchange_frames3 (s i) (s j) (s k)") (auto simp: connect_three_def r set_router_of set_host_interface_of)
qed

lemma net_of_ids [simp]:
  "ne_default_id (net_of s ex) = 0" "ne_eth0_id (net_of s ex) = 1" "ne_eth2_id (net_of s ex) = 3" "ne_hs4_id (net_of s ex) = 5"
  "ne_uun3_id (net_of s ex) = 4" "ne_router (net_of s ex) = router_of s"
  by (simp_all add: net_of_def)

lemmas connect_at =
  connect_pair_of[of 0 7, simplified] connect_pair_of[of 1 8, simplified] connect_pair_of[of 3 9, simplified]
  connect_pair_of[of 5 10, simplified] connect_three_of[of 4 11 12, simplified]

lemma physical_connections_of:
  "simulate_physical_connections (net_of s ex) = rbind (exchange_links links s) (\<lambda>s. Inr (net_of s ex))"
  by (simp add: simulate_physical_connections_def links_def connect_at rbind_rbind)

section \<open>One frame crosses a link\<close>

definition frm :: "stations \<Rightarrow> nat \<Rightarrow> ethernet_frame list" where
  "frm s i = ni_frames_out (ai_interface (s i))"

definition pnd :: "stations \<Rightarrow> nat \<Rightarrow> u32 \<rightharpoonup> ipv4_datagram list \<times> int" where
  "pnd s i = ni_frames_cannot_find_arp (ai_interface (s i))"

definition dgs :: "stations \<Rightarrow> nat \<Rightarrow> ipv4_datagram list" where
  "dgs s i = ai_datagrams_out (s i)"

definition peers :: "nat \<Rightarrow> nat \<Rightarrow> bool" where
  "peers i j \<longleftrightarrow> i \<noteq> j \<and> (\<exists>l\<in>set links. i \<in> set l \<and> j \<in> set l)"

definition sent :: "async_interface \<Rightarrow> async_interface" where
  "sent x = x\<lparr>ai_interface := (ai_interface x)\<lparr>ni_frames_out := []\<rparr>\<rparr>"

definition in_one_piece :: "ethernet_frame \<Rightarrow> ethernet_frame" where
  "in_one_piece f = f\<lparr>fr_payload := BufferList_of_string (BufferList_concatenate (fr_payload f))\<rparr>"

lemma clear_all: "clear q q = Inr []"
  by (induction q) simp_all

lemma clear_frames_none [simp]: "clear_frames [] x = Inr x"
  by (simp add: clear_frames_def frames_out_def)

lemma deliver_one: "summary (in_one_piece f) = Inr t \<Longrightarrow> AsyncNetworkInterface_recv_frame x (in_one_piece f) = Inr x' \<Longrightarrow> Network_deliver [f] x = Inr x'"
  by (simp add: in_one_piece_def)

lemma clear_own: "frames_out x = [f] \<Longrightarrow> clear_frames [f] x = Inr (sent x)"
  by (simp add: clear_frames_def sent_def)

lemma link_quiet: "\<forall>i\<in>set l. frm s i = [] \<Longrightarrow> exchange_link l s = Inr s"
  by (cases "(l, s)" rule: exchange_link.cases)
     (auto simp: frm_def exchange_frames_def exchange_frames3_def frames_out_def[symmetric])

lemma link_one:
  assumes "l \<in> set links" "i \<in> set l" "frm s i = [f]" "\<And>j. j \<in> set l \<Longrightarrow> j \<noteq> i \<Longrightarrow> frm s j = []" "summary (in_one_piece f) = Inr t"
    and "\<And>j. j \<in> set l \<Longrightarrow> j \<noteq> i \<Longrightarrow> AsyncNetworkInterface_recv_frame (s j) (in_one_piece f) = Inr (g j)"
  shows "exchange_link l s = Inr (\<lambda>j. if j = i then sent (s i) else if j \<in> set l then g j else s j)"
proof -
  have f: "frames_out (s i) = [f]" "\<And>j. j \<in> set l \<Longrightarrow> j \<noteq> i \<Longrightarrow> frames_out (s j) = []"
    using assms(3,4) by (simp_all add: frm_def frames_out_def)
  have d: "\<And>j. j \<in> set l \<Longrightarrow> j \<noteq> i \<Longrightarrow> Network_deliver [f] (s j) = Inr (g j)" using deliver_one[OF assms(5,6)] .
  have n: "Network_deliver [] x = Inr x" for x by simp
  have "\<exists>a b. l = [a, b] \<and> a \<noteq> b \<or> (\<exists>c. l = [a, b, c] \<and> a \<noteq> b \<and> b \<noteq> c \<and> a \<noteq> c)"
    using assms(1) by (auto simp: links_def)
  then obtain a b c where "l = [a, b] \<and> a \<noteq> b \<or> l = [a, b, c] \<and> a \<noteq> b \<and> b \<noteq> c \<and> a \<noteq> c" by blast
  then show ?thesis
    using assms(2) f d clear_own[OF f(1)]
    by (auto simp: exchange_frames_def exchange_frames3_def n simp del: Network_deliver.simps intro!: ext)
qed

lemma links_other: "\<forall>l\<in>set ls. \<forall>i\<in>set l. frm s i = [] \<Longrightarrow> exchange_links ls s = Inr s"
  by (induction ls) (auto simp: link_quiet)

lemma links_one:
  assumes "l \<in> set ls" "distinct ls" "\<And>k j. k \<in> set ls \<Longrightarrow> k \<noteq> l \<Longrightarrow> j \<in> set k \<Longrightarrow> frm s j = [] \<and> s' j = s j" "exchange_link l s = Inr s'"
  shows "exchange_links ls s = Inr s'"
  using assms(1-3)
proof (induction ls)
  case (Cons k ls)
  show ?case
  proof (cases "k = l")
    case True
    have "frm s' i = []" if "m \<in> set ls" "i \<in> set m" for m i
    proof -
      have "m \<noteq> l" using Cons.prems(2) True that by auto
      then show ?thesis using Cons.prems(3)[of m i] that by (simp add: frm_def)
    qed
    then have "\<forall>m\<in>set ls. \<forall>i\<in>set m. frm s' i = []" by blast
    from links_other[OF this] show ?thesis using True assms(4) by simp
  next
    case False
    then have "exchange_link k s = Inr s" using Cons.prems(3)[of k] by (intro link_quiet) auto
    then show ?thesis using Cons False by auto
  qed
qed simp

lemma links_disjoint: "k \<in> set links \<Longrightarrow> l \<in> set links \<Longrightarrow> i \<in> set k \<Longrightarrow> i \<in> set l \<Longrightarrow> k = l"
  by (auto simp: links_def)

lemma one_frame_crosses:
  assumes "peers i b" "frm s = (\<lambda>_. [])(i := [f])" "summary (in_one_piece f) = Inr t"
    and "\<And>j. peers i j \<Longrightarrow> AsyncNetworkInterface_recv_frame (s j) (in_one_piece f) = Inr (g j)"
  shows "exchange_links links s = Inr (\<lambda>j. if j = i then sent (s i) else if peers i j then g j else s j)"
proof -
  obtain l where l: "l \<in> set links" "i \<in> set l" using assms(1) by (auto simp: peers_def)
  have p: "peers i j \<longleftrightarrow> j \<noteq> i \<and> j \<in> set l" for j using l links_disjoint by (auto simp: peers_def)
  let ?s = "\<lambda>j. if j = i then sent (s i) else if j \<in> set l then g j else s j"
  have own: "frm s i = [f]" and other: "\<And>j. j \<in> set l \<Longrightarrow> j \<noteq> i \<Longrightarrow> frm s j = []" using assms(2) by simp_all
  have rcv: "AsyncNetworkInterface_recv_frame (s j) (in_one_piece f) = Inr (g j)" if "j \<in> set l" "j \<noteq> i" for j
    using assms(4) p that by blast
  have "exchange_link l s = Inr ?s" using link_one[OF l own other assms(3) rcv] .
  moreover have "(\<lambda>j. if j = i then sent (s i) else if peers i j then g j else s j) = ?s"
    by (rule ext) (auto simp only: p split: if_split)
  moreover have "frm s j = [] \<and> ?s j = s j" if "k \<in> set links" "k \<noteq> l" "j \<in> set k" for k j
    using links_disjoint[OF that(1) l(1)] that l assms(2) by auto
  moreover have "distinct links" by (simp add: links_def)
  ultimately show ?thesis using links_one[OF l(1)] by auto
qed

section \<open>A datagram in transit\<close>

text \<open>
  What each station knows of itself and of its neighbours: its addresses, and cache entries that name a
  neighbour's real address.
\<close>

definition knows :: "(nat \<Rightarrow> ethernet_address) \<Rightarrow> stations \<Rightarrow> nat \<Rightarrow> bool" where
  "knows mac s i \<longleftrightarrow> ni_ethernet_address (ai_interface (s i)) = mac i \<and> ni_ip_address (ai_interface (s i)) = ipv4_address (station_ip i) 0 \<and>
     (\<forall>a e. ni_arp_cache (ai_interface (s i)) a = Some e \<longrightarrow> (\<exists>j. peers i j \<and> a = station_ip j \<and> ae_eth_addr e = mac j))"

definition macs_ok :: "(nat \<Rightarrow> ethernet_address) \<Rightarrow> bool" where
  "macs_ok mac \<longleftrightarrow> (\<forall>i<13. length (mac i) = 6 \<and> mac i \<noteq> ETHERNET_BROADCAST) \<and> distinct [mac 4, mac 11, mac 12]"

definition same_dgram :: "ipv4_datagram \<Rightarrow> ipv4_datagram \<Rightarrow> bool" where
  "same_dgram d d' \<longleftrightarrow> dgram_valid d' \<and> dg_header d' = (dg_header d)\<lparr>ip_cksum := ip_cksum (dg_header d')\<rparr> \<and>
     bl_bytes (dg_payload d') = bl_bytes (dg_payload d)"

definition arp_request :: "(nat \<Rightarrow> ethernet_address) \<Rightarrow> nat \<Rightarrow> nat \<Rightarrow> arp_message" where
  "arp_request mac a b = ARPMessage_default\<lparr>arp_opcode := OPCODE_REQUEST, arp_sender_ethernet_address := mac a,
     arp_sender_ip_address := station_ip a, arp_target_ip_address := station_ip b\<rparr>"

definition arp_reply :: "(nat \<Rightarrow> ethernet_address) \<Rightarrow> nat \<Rightarrow> nat \<Rightarrow> arp_message" where
  "arp_reply mac b a = ARPMessage_default\<lparr>arp_opcode := OPCODE_REPLY, arp_sender_ethernet_address := mac b,
     arp_sender_ip_address := station_ip b, arp_target_ip_address := station_ip a, arp_target_ethernet_address := mac a\<rparr>"

definition arp_frame :: "ethernet_address \<Rightarrow> ethernet_address \<Rightarrow> arp_message \<Rightarrow> ethernet_frame" where
  "arp_frame dst src m = \<lparr>fr_header = \<lparr>eth_dst = dst, eth_src = src, eth_type = TYPE_ARP\<rparr>,
     fr_payload = BufferList_of_string (arp_bytes m)\<rparr>"

definition settled :: "stations \<Rightarrow> bool" where
  "settled s \<longleftrightarrow> frm s = (\<lambda>_. []) \<and> pnd s = (\<lambda>_. Map.empty)"

text \<open>
  \<open>transit n\<close>: the datagram \<open>d\<close> of station \<open>a\<close> needs \<open>n\<close> more exchanges to reach station \<open>b\<close>: three when
  the request is to be sent, two when the reply is, one when the datagram itself is.
\<close>

fun transit :: "nat \<Rightarrow> (nat \<Rightarrow> ethernet_address) \<Rightarrow> stations \<Rightarrow> nat \<Rightarrow> nat \<Rightarrow> ipv4_datagram \<Rightarrow> bool" where
  "transit n mac s a b d =
     (if n = 3 then frm s = (\<lambda>_. [])(a := [arp_frame ETHERNET_BROADCAST (mac a) (arp_request mac a b)]) \<and>
        pnd s = (\<lambda>_. Map.empty)(a := [station_ip b \<mapsto> ([d], ARP_PENDING_TTL)])
      else if n = 2 then frm s = (\<lambda>_. [])(b := [arp_frame (mac a) (mac b) (arp_reply mac b a)]) \<and>
        pnd s = (\<lambda>_. Map.empty)(a := [station_ip b \<mapsto> ([d], ARP_PENDING_TTL)])
      else n = 1 \<and> frm s = (\<lambda>_. [])(a := [dgram_frame (mac b) (mac a) d]) \<and> pnd s = (\<lambda>_. Map.empty))"

declare transit.simps [simp del]

lemma peers_bound: "peers i j \<Longrightarrow> i < 13 \<and> j < 13 \<and> i \<noteq> j"
  by (auto simp: peers_def links_def)

lemma peers_sym: "peers i j \<Longrightarrow> peers j i"
  by (auto simp: peers_def)

lemma third_station: "peers a b \<Longrightarrow> peers a j \<Longrightarrow> j \<noteq> b \<Longrightarrow> a \<in> {4, 11, 12} \<and> b \<in> {4, 11, 12} \<and> j \<in> {4, 11, 12} \<and> j \<noteq> a"
proof -
  assume p: "peers a b" "peers a j" "j \<noteq> b"
  obtain l where l: "l \<in> set links" "a \<in> set l" "b \<in> set l" "a \<noteq> b" using p(1) by (auto simp: peers_def)
  moreover have "j \<in> set l" "a \<noteq> j" using p(2) l links_disjoint by (auto simp: peers_def)
  ultimately have "\<not> length l \<le> 2" using p(3) by (auto simp: le_Suc_eq numeral_2_eq_2 length_Suc_conv)
  then have "l = [4, 11, 12]" using l(1) by (auto simp: links_def)
  then show ?thesis using l \<open>j \<in> set l\<close> \<open>a \<noteq> j\<close> by auto
qed

lemma third_mac:
  assumes "macs_ok mac" "peers a b" "peers a j" "j \<noteq> b" shows "mac j \<noteq> mac b" "mac j \<noteq> mac a"
proof -
  have inj: "x \<in> {4, 11, 12} \<Longrightarrow> y \<in> {4, 11, 12} \<Longrightarrow> x \<noteq> y \<Longrightarrow> mac x \<noteq> mac y" for x y :: nat
    using assms(1) unfolding macs_ok_def by auto
  show "mac j \<noteq> mac b" "mac j \<noteq> mac a" using third_station[OF assms(2-4)] inj assms(4) by blast+
qed

lemma views_update [simp]:
  "frm (s(i := x)) = (frm s)(i := ni_frames_out (ai_interface x))"
  "pnd (s(i := x)) = (pnd s)(i := ni_frames_cannot_find_arp (ai_interface x))"
  "dgs (s(i := x)) = (dgs s)(i := ai_datagrams_out x)"
  by (auto simp: frm_def pnd_def dgs_def)

lemma sent_fields [simp]:
  "ni_frames_out (ai_interface (sent x)) = []" "ni_frames_cannot_find_arp (ai_interface (sent x)) = ni_frames_cannot_find_arp (ai_interface x)"
  "ai_datagrams_out (sent x) = ai_datagrams_out x" "ni_ethernet_address (ai_interface (sent x)) = ni_ethernet_address (ai_interface x)"
  "ni_ip_address (ai_interface (sent x)) = ni_ip_address (ai_interface x)" "ni_arp_cache (ai_interface (sent x)) = ni_arp_cache (ai_interface x)"
  by (simp_all add: sent_def)

lemma knows_other: "j \<noteq> i \<Longrightarrow> knows mac (s(i := x)) j = knows mac s j"
  by (simp add: knows_def)

lemma knows_sent: "knows mac (s(i := sent (s i))) j = knows mac s j"
  by (cases "j = i") (simp_all add: knows_def)

lemma set_queue_views:
  "frm (s(i := (s i)\<lparr>ai_datagrams_out := q\<rparr>)) = frm s" "pnd (s(i := (s i)\<lparr>ai_datagrams_out := q\<rparr>)) = pnd s"
  "knows mac (s(i := (s i)\<lparr>ai_datagrams_out := q\<rparr>)) j = knows mac s j"
proof -
  show "frm (s(i := (s i)\<lparr>ai_datagrams_out := q\<rparr>)) = frm s" "pnd (s(i := (s i)\<lparr>ai_datagrams_out := q\<rparr>)) = pnd s"
    by (auto simp: frm_def pnd_def)
  show "knows mac (s(i := (s i)\<lparr>ai_datagrams_out := q\<rparr>)) j = knows mac s j"
    by (cases "j = i") (simp_all add: knows_def)
qed

lemma crosses_to:
  assumes "peers a b" "frm s = (\<lambda>_. [])(a := [f])" "summary (in_one_piece f) = Inr t"
    and "AsyncNetworkInterface_recv_frame (s b) (in_one_piece f) = Inr x"
    and "\<And>j. peers a j \<Longrightarrow> j \<noteq> b \<Longrightarrow> AsyncNetworkInterface_recv_frame (s j) (in_one_piece f) = Inr (s j)"
  shows "exchange_links links s = Inr (s(a := sent (s a), b := x))"
proof -
  have "AsyncNetworkInterface_recv_frame (s j) (in_one_piece f) = Inr (if j = b then x else s j)" if "peers a j" for j
    using assms(4,5) that by simp
  from one_frame_crosses[OF assms(1-3), of "\<lambda>j. if j = b then x else s j", OF this]
  have "exchange_links links s = Inr (\<lambda>j. if j = a then sent (s a) else if peers a j then (if j = b then x else s j) else s j)" .
  moreover have "(\<lambda>j. if j = a then sent (s a) else if peers a j then (if j = b then x else s j) else s j) = s(a := sent (s a), b := x)"
    using assms(1) peers_bound[OF assms(1)] by (auto simp: fun_eq_iff)
  ultimately show ?thesis by (simp only:)
qed

lemma one_piece_arp:
  "in_one_piece (arp_frame dst src m) = \<lparr>fr_header = \<lparr>eth_dst = dst, eth_src = src, eth_type = TYPE_ARP\<rparr>, fr_payload = [Buffer_of (arp_bytes m)]\<rparr>"
  by (simp add: in_one_piece_def arp_frame_def) (simp add: BufferList_of_string_def BufferList_of_Buffer_def)

lemma one_piece_dgram:
  "in_one_piece (dgram_frame dst src d) =
     \<lparr>fr_header = \<lparr>eth_dst = dst, eth_src = src, eth_type = TYPE_IPv4\<rparr>, fr_payload = [Buffer_of (bl_bytes (dgram_bytes d))]\<rparr>"
  by (simp add: in_one_piece_def dgram_frame_def) (simp add: BufferList_of_string_def BufferList_of_Buffer_def)

lemma arp_buffer: "arp_valid m \<Longrightarrow> buffer_wf (Buffer_of (arp_bytes m))"
  by (simp add: length_arp)

lemma summary_arp: "arp_valid m \<Longrightarrow> \<exists>t. summary (in_one_piece (arp_frame dst src m)) = Inr t"
  using parse_arp[of m "Buffer_of (arp_bytes m)" "[]" ARPMessage_default] arp_buffer[of m]
  by (simp add: one_piece_arp summary_def Let_def)

lemma summary_dgram:
  assumes "dgram_valid d" shows "\<exists>t. summary (in_one_piece (dgram_frame dst src d)) = Inr t"
proof -
  have "buffer_wf (Buffer_of (bl_bytes (dgram_bytes d)))" using dgram_bytes_wf[OF assms] by simp
  from dgram_parses[OF assms this, of IPv4Datagram_default] show ?thesis
    by (auto simp: one_piece_dgram summary_def Let_def dgram_bytes_def)
qed

lemma other_mac_ignored:
  "dst \<noteq> ETHERNET_BROADCAST \<Longrightarrow> ni_ethernet_address (ai_interface x) \<noteq> dst \<Longrightarrow>
   AsyncNetworkInterface_recv_frame x \<lparr>fr_header = \<lparr>eth_dst = dst, eth_src = src, eth_type = ty\<rparr>, fr_payload = p\<rparr> = Inr x"
  by (auto simp: AsyncNetworkInterface_recv_frame_def NetworkInterface_recv_frame_def ETHERNET_BROADCAST_def)

lemma other_request_ignored:
  assumes "arp_valid m" "ni_ip_address (ai_interface x) = ipv4_address i p" "arp_target_ip_address m \<noteq> i"
  shows "AsyncNetworkInterface_recv_frame x (in_one_piece (arp_frame ETHERNET_BROADCAST src m)) = Inr x"
  using parse_arp[OF assms(1) arp_buffer[OF assms(1)], of "[]" ARPMessage_default] assms(2,3)
  by (simp add: one_piece_arp AsyncNetworkInterface_recv_frame_def NetworkInterface_recv_frame_def ETHERNET_BROADCAST_def
      NetworkInterface_recv_arp_def)

lemma step_request:
  assumes m: "macs_ok mac" and p: "peers a b" and k: "\<forall>i<13. knows mac s i" and tr: "transit 3 mac s a b d"
  shows "\<exists>s'. exchange_links links s = Inr s' \<and> (\<forall>i<13. knows mac s' i) \<and> transit 2 mac s' a b d \<and> dgs s' = dgs s"
proof -
  let ?m = "arp_request mac a b"
  let ?f = "arp_frame ETHERNET_BROADCAST (mac a) ?m"
  have ab: "a < 13" "b < 13" "a \<noteq> b" using peers_bound[OF p] by auto
  have la: "length (mac a) = 6" and lb: "length (mac b) = 6" using m ab by (simp_all add: macs_ok_def)
  have v: "arp_valid ?m" using request_valid[OF la] by (simp add: arp_request_def)
  have fr: "frm s = (\<lambda>_. [])(a := [?f])" and pn: "pnd s = (\<lambda>_. Map.empty)(a := [station_ip b \<mapsto> ([d], ARP_PENDING_TTL)])"
    using tr by (simp_all add: transit.simps)
  have kb: "ni_ethernet_address (ai_interface (s b)) = mac b" "ni_ip_address (ai_interface (s b)) = ipv4_address (station_ip b) 0"
    using k ab by (auto simp: knows_def)
  have fb: "ni_frames_out (ai_interface (s b)) = []" "ni_frames_cannot_find_arp (ai_interface (s b)) = Map.empty"
    using fun_cong[OF fr, of b] fun_cong[OF pn, of b] ab by (simp_all add: frm_def pnd_def)
  obtain nb where nb: "NetworkInterface_recv_frame (ai_interface (s b)) (in_one_piece ?f) = Inr (None, nb)"
    "ni_ethernet_address nb = mac b" "ni_ip_address nb = ipv4_address (station_ip b) 0" "ni_frames_cannot_find_arp nb = Map.empty"
    "ni_arp_cache nb = (ni_arp_cache (ai_interface (s b)))(station_ip a \<mapsto> \<lparr>ae_eth_addr = mac a, ae_ttl = ARP_CACHE_TTL\<rparr>)"
    "ni_frames_out nb = [arp_frame (mac a) (mac b) (arp_reply mac b a)]"
    using request_arrives[OF kb(2) _ la arp_buffer[OF v], of "station_ip a" "mac a"] lb kb fb
    unfolding one_piece_arp by (auto simp: arp_request_def arp_reply_def arp_frame_def)
  let ?x = "(s b)\<lparr>ai_interface := nb\<rparr>"
  obtain t where t: "summary (in_one_piece ?f) = Inr t" using summary_arp[OF v] by blast
  have rb: "AsyncNetworkInterface_recv_frame (s b) (in_one_piece ?f) = Inr ?x"
    using nb(1) by (simp add: AsyncNetworkInterface_recv_frame_def)
  have rj: "AsyncNetworkInterface_recv_frame (s j) (in_one_piece ?f) = Inr (s j)" if j: "peers a j" "j \<noteq> b" for j
  proof (rule other_request_ignored[OF v])
    have "j < 13" using peers_bound[OF j(1)] by simp
    then show "ni_ip_address (ai_interface (s j)) = ipv4_address (station_ip j) 0" "arp_target_ip_address ?m \<noteq> station_ip j"
      using k j ab station_ip_inj[of b j] by (auto simp: knows_def arp_request_def)
  qed
  let ?s = "s(a := sent (s a), b := ?x)"
  have "knows mac ?s i" if "i < 13" for i
  proof (cases "i = b")
    case True
    have "\<exists>j. peers b j \<and> c = station_ip j \<and> ae_eth_addr e = mac j" if "ni_arp_cache nb c = Some e" for c e
      using that k ab peers_sym[OF p] unfolding nb(5) knows_def by (fastforce split: if_splits)
    then show ?thesis using True nb(2,3) by (simp add: knows_def)
  next
    case False
    then show ?thesis using k that by (simp add: knows_other knows_sent)
  qed
  moreover have "transit 2 mac ?s a b d" using fr pn nb(4,6) ab fb by (auto simp: transit.simps fun_eq_iff pnd_def)
  moreover have "dgs ?s = dgs s" by (auto simp: dgs_def fun_eq_iff)
  ultimately show ?thesis using crosses_to[OF p fr t rb rj] by blast
qed

lemma step_reply:
  assumes m: "macs_ok mac" and p: "peers a b" and k: "\<forall>i<13. knows mac s i" and d: "dgram_valid d" and tr: "transit 2 mac s a b d"
  shows "\<exists>s'. exchange_links links s = Inr s' \<and> (\<forall>i<13. knows mac s' i) \<and> transit 1 mac s' a b d \<and> dgs s' = dgs s"
proof -
  let ?m = "arp_reply mac b a"
  let ?f = "arp_frame (mac a) (mac b) ?m"
  have ab: "a < 13" "b < 13" "a \<noteq> b" using peers_bound[OF p] by auto
  have la: "length (mac a) = 6" and lb: "length (mac b) = 6" and na: "mac a \<noteq> ETHERNET_BROADCAST" using m ab by (simp_all add: macs_ok_def)
  have v: "arp_valid ?m" using reply_valid[OF lb la] by (simp add: arp_reply_def)
  have fr: "frm s = (\<lambda>_. [])(b := [?f])" and pn: "pnd s = (\<lambda>_. Map.empty)(a := [station_ip b \<mapsto> ([d], ARP_PENDING_TTL)])"
    using tr by (simp_all add: transit.simps)
  have ka: "ni_ethernet_address (ai_interface (s a)) = mac a" "ni_ip_address (ai_interface (s a)) = ipv4_address (station_ip a) 0"
    using k ab by (auto simp: knows_def)
  have fa: "ni_frames_out (ai_interface (s a)) = []"
    and pa: "ni_frames_cannot_find_arp (ai_interface (s a)) = [station_ip b \<mapsto> ([d], ARP_PENDING_TTL)]"
    using fun_cong[OF fr, of a] fun_cong[OF pn, of a] ab by (simp_all add: frm_def pnd_def)
  obtain na' where na': "NetworkInterface_recv_frame (ai_interface (s a)) (in_one_piece ?f) = Inr (None, na')"
    "ni_ethernet_address na' = mac a" "ni_ip_address na' = ipv4_address (station_ip a) 0" "ni_frames_cannot_find_arp na' = Map.empty"
    "ni_arp_cache na' = (ni_arp_cache (ai_interface (s a)))(station_ip b \<mapsto> \<lparr>ae_eth_addr = mac b, ae_ttl = ARP_CACHE_TTL\<rparr>)"
    "ni_frames_out na' = [dgram_frame (mac b) (mac a) d]"
    using reply_arrives[OF ka(2) _ lb arp_buffer[OF v], of "station_ip b" "[d]" ARP_PENDING_TTL "mac b"] la ka fa pa d
    unfolding one_piece_arp by (auto simp: arp_reply_def)
  let ?x = "(s a)\<lparr>ai_interface := na'\<rparr>"
  obtain t where t: "summary (in_one_piece ?f) = Inr t" using summary_arp[OF v] by blast
  have ra: "AsyncNetworkInterface_recv_frame (s a) (in_one_piece ?f) = Inr ?x"
    using na'(1) by (simp add: AsyncNetworkInterface_recv_frame_def)
  have rj: "AsyncNetworkInterface_recv_frame (s j) (in_one_piece ?f) = Inr (s j)" if j: "peers b j" "j \<noteq> a" for j
    unfolding one_piece_arp using third_mac[OF m peers_sym[OF p] j] k peers_bound[OF j(1)]
    by (intro other_mac_ignored[OF na]) (simp add: knows_def)
  let ?s = "s(b := sent (s b), a := ?x)"
  have "knows mac ?s i" if "i < 13" for i
  proof (cases "i = a")
    case True
    have "\<exists>j. peers a j \<and> c = station_ip j \<and> ae_eth_addr e = mac j" if "ni_arp_cache na' c = Some e" for c e
      using that k ab p unfolding na'(5) knows_def by (fastforce split: if_splits)
    then show ?thesis using True na'(2,3) by (simp add: knows_def)
  next
    case False
    then show ?thesis using k that by (simp add: knows_other knows_sent)
  qed
  moreover have "transit 1 mac ?s a b d" using fr pn na'(4,6) ab by (auto simp: transit.simps fun_eq_iff pnd_def)
  moreover have "dgs ?s = dgs s" by (auto simp: dgs_def fun_eq_iff)
  ultimately show ?thesis using crosses_to[OF peers_sym[OF p] fr t ra rj] by blast
qed

lemma step_dgram:
  assumes m: "macs_ok mac" and p: "peers a b" and k: "\<forall>i<13. knows mac s i" and d: "dgram_valid d" and tr: "transit 1 mac s a b d"
  shows "\<exists>s' d'. exchange_links links s = Inr s' \<and> (\<forall>i<13. knows mac s' i) \<and> settled s' \<and> same_dgram d d' \<and>
    dgs s' = (dgs s)(b := dgs s b @ [d'])"
proof -
  let ?f = "dgram_frame (mac b) (mac a) d"
  have ab: "a < 13" "b < 13" "a \<noteq> b" using peers_bound[OF p] by auto
  have nb: "mac b \<noteq> ETHERNET_BROADCAST" using m ab by (simp add: macs_ok_def)
  have fr: "frm s = (\<lambda>_. [])(a := [?f])" and pn: "pnd s = (\<lambda>_. Map.empty)" using tr by (simp_all add: transit.simps)
  have kb: "ni_ethernet_address (ai_interface (s b)) = mac b" using k ab by (auto simp: knows_def)
  obtain d' where d': "NetworkInterface_recv_frame (ai_interface (s b)) (in_one_piece ?f) = Inr (Some d', ai_interface (s b))" "same_dgram d d'"
    using dgram_arrives[OF d, of "Buffer_of (bl_bytes (dgram_bytes d))" "ai_interface (s b)" "mac a"] dgram_bytes_wf[OF d] kb
    unfolding one_piece_dgram same_dgram_def by auto
  let ?x = "(s b)\<lparr>ai_datagrams_out := ai_datagrams_out (s b) @ [d']\<rparr>"
  obtain t where t: "summary (in_one_piece ?f) = Inr t" using summary_dgram[OF d] by blast
  have rb: "AsyncNetworkInterface_recv_frame (s b) (in_one_piece ?f) = Inr ?x"
    using d'(1) by (simp add: AsyncNetworkInterface_recv_frame_def)
  have rj: "AsyncNetworkInterface_recv_frame (s j) (in_one_piece ?f) = Inr (s j)" if j: "peers a j" "j \<noteq> b" for j
    unfolding one_piece_dgram using third_mac[OF m p j] k peers_bound[OF j(1)]
    by (intro other_mac_ignored[OF nb]) (simp add: knows_def)
  let ?s = "s(a := sent (s a), b := ?x)"
  have "knows mac ?s i" if "i < 13" for i
    using k that by (cases "i = b") (simp_all add: knows_other knows_sent, simp add: knows_def)
  moreover have "settled ?s" using fr pn ab by (auto simp: settled_def fun_eq_iff frm_def pnd_def split: if_splits)
  moreover have "dgs ?s = (dgs s)(b := dgs s b @ [d'])" by (auto simp: dgs_def fun_eq_iff)
  ultimately show ?thesis using crosses_to[OF p fr t rb rj] d'(2) by blast
qed

text \<open>Sending to a neighbour starts a transit of one or three exchanges.\<close>

lemma send_starts_transit:
  assumes m: "macs_ok mac" and p: "peers a b" and k: "\<forall>i<13. knows mac s i" and d: "dgram_valid d" and st: "settled s"
  shows "\<exists>ni n. NetworkInterface_send_datagram (ai_interface (s a)) d (ipv4_address (station_ip b) port) = Inr ni \<and> n \<in> {1, 3} \<and>
    (let s' = s(a := (s a)\<lparr>ai_interface := ni\<rparr>) in (\<forall>i<13. knows mac s' i) \<and> transit n mac s' a b d \<and> dgs s' = dgs s)"
proof -
  have ab: "a < 13" "b < 13" "a \<noteq> b" using peers_bound[OF p] by auto
  have la: "length (mac a) = 6" using m ab by (simp add: macs_ok_def)
  have ka: "ni_ethernet_address (ai_interface (s a)) = mac a" "ni_ip_address (ai_interface (s a)) = ipv4_address (station_ip a) 0"
    "\<And>c e. ni_arp_cache (ai_interface (s a)) c = Some e \<Longrightarrow> \<exists>j. peers a j \<and> c = station_ip j \<and> ae_eth_addr e = mac j"
    using k ab by (auto simp: knows_def)
  have q: "frm s = (\<lambda>_. [])" "pnd s = (\<lambda>_. Map.empty)" using st by (simp_all add: settled_def)
  have fa: "ni_frames_out (ai_interface (s a)) = []" "ni_frames_cannot_find_arp (ai_interface (s a)) = Map.empty"
    using fun_cong[OF q(1), of a] fun_cong[OF q(2), of a] by (simp_all add: frm_def pnd_def)
  have others: "knows mac (s(a := (s a)\<lparr>ai_interface := ni\<rparr>)) i"
    if "i < 13" "ni_ethernet_address ni = mac a" "ni_ip_address ni = ipv4_address (station_ip a) 0"
      "ni_arp_cache ni = ni_arp_cache (ai_interface (s a))" for ni i
    using that k ka(3) by (cases "i = a") (auto simp: knows_other, simp add: knows_def)
  have dg: "dgs (s(a := (s a)\<lparr>ai_interface := ni\<rparr>)) = dgs s" for ni by (auto simp: dgs_def)
  show ?thesis
  proof (cases "ni_arp_cache (ai_interface (s a)) (station_ip b)")
    case (Some e)
    then obtain j where j: "peers a j" "station_ip b = station_ip j" "ae_eth_addr e = mac j" using ka(3) by blast
    then have "j = b" using station_ip_inj[of b j] peers_bound[OF j(1)] ab by simp
    then have e: "ae_eth_addr e = mac b" using j by simp
    let ?ni = "NetworkInterface_push (ai_interface (s a)) (mac b) TYPE_IPv4 (dgram_bytes d)"
    have "NetworkInterface_send_datagram (ai_interface (s a)) d (ipv4_address (station_ip b) port) = Inr ?ni"
      using Some e serialize_dgram_bytes[OF d] by (simp add: NetworkInterface_send_datagram_def)
    moreover have "transit 1 mac (s(a := (s a)\<lparr>ai_interface := ?ni\<rparr>)) a b d"
      using q fa ka(1) by (simp add: transit.simps dgram_frame_def fun_upd_idem)
    ultimately show ?thesis using others[of _ ?ni] ka dg unfolding Let_def by (intro exI[of _ ?ni] exI[of _ 1]) auto
  next
    case None
    let ?ni = "(NetworkInterface_push (ai_interface (s a)) ETHERNET_BROADCAST TYPE_ARP
        (BufferList_of_string (arp_bytes (arp_request mac a b))))\<lparr>ni_frames_cannot_find_arp := [station_ip b \<mapsto> ([d], ARP_PENDING_TTL)]\<rparr>"
    have "NetworkInterface_send_datagram (ai_interface (s a)) d (ipv4_address (station_ip b) port) = Inr ?ni"
      using None fa ka serialize_arp[OF request_valid[OF la]]
      by (simp add: NetworkInterface_send_datagram_def Let_def arp_request_def)
    moreover have "transit 3 mac (s(a := (s a)\<lparr>ai_interface := ?ni\<rparr>)) a b d"
      using q fa ka(1) by (simp add: transit.simps arp_frame_def)
    ultimately show ?thesis using others[of _ ?ni] ka dg unfolding Let_def by (intro exI[of _ ?ni] exI[of _ 3]) auto
  qed
qed

section \<open>Rounds\<close>

lemma transit_step:
  assumes m: "macs_ok mac" and p: "peers a b" and k: "\<forall>i<13. knows mac s i" and d: "dgram_valid d" and tr: "transit (Suc n) mac s a b d"
  shows "\<exists>s'. exchange_links links s = Inr s' \<and> (\<forall>i<13. knows mac s' i) \<and>
    (if n = 0 then settled s' \<and> (\<exists>d'. same_dgram d d' \<and> dgs s' = (dgs s)(b := dgs s b @ [d']))
     else transit n mac s' a b d \<and> dgs s' = dgs s)"
proof -
  have "n = 0 \<or> n = 1 \<or> n = 2" using tr by (auto simp: transit.simps split: if_splits)
  then show ?thesis
    using step_request[OF m p k] step_reply[OF m p k d] step_dgram[OF m p k d] tr by (auto simp: numeral_eq_Suc)
qed

lemma route_from_none: "\<forall>i\<in>set is. ai_datagrams_out (ro_interfaces r ! i) = [] \<Longrightarrow> Router_route_from ub is r = Inr r"
  by (induction "is") simp_all

lemma route_from_append: "Router_route_from ub (xs @ ys) r = rbind (Router_route_from ub xs r) (\<lambda>r. Router_route_from ub ys r)"
  by (induction xs arbitrary: r) (simp_all add: rbind_rbind cong: rbind_cong)

lemma router_of_fields [simp]: "length (ro_interfaces (router_of s)) = 7" "i < 7 \<Longrightarrow> ro_interfaces (router_of s) ! i = s i"
  "ro_route_table (router_of s) = sim_table"
  by (simp_all add: router_of_def)

lemma route_quiet: "\<forall>i<7. dgs s i = [] \<Longrightarrow> Router_route ub (router_of s) = Inr (router_of s)"
  unfolding Router_route_def by (rule route_from_none) (simp add: dgs_def)

lemma route_single:
  assumes "i < 7" "dgs s i = [d]" "\<forall>j<7. j \<noteq> i \<longrightarrow> dgs s j = []" "Router_route_one_datagram ub (router_of s) d = Inr (router_of s1)"
    and "\<forall>j<7. dgs s1 j = dgs s j"
  shows "Router_route ub (router_of s) = Inr (router_of (s1(i := (s1 i)\<lparr>ai_datagrams_out := []\<rparr>)))"
proof -
  have upt: "[0..<7] = [0..<i] @ i # [Suc i..<7]" using assms(1) by (metis upt_add_eq_append le0 upt_conv_Cons less_imp_le_nat le_add_diff_inverse)
  have "Router_route_from ub [0..<i] (router_of s) = Inr (router_of s)"
    by (rule route_from_none) (use assms(1,3) in \<open>auto simp: dgs_def\<close>)
  moreover have q: "Router_set_queue (router_of s1) i [] = router_of (s1(i := (s1 i)\<lparr>ai_datagrams_out := []\<rparr>))"
    using assms(1) router_of_update[OF assms(1), of s1] by (simp add: Router_set_queue_def)
  moreover have "Router_route_from ub [Suc i..<7] (Router_set_queue (router_of s1) i []) = Inr (Router_set_queue (router_of s1) i [])"
    unfolding q by (rule route_from_none) (use assms(1,3,5) in \<open>auto simp: dgs_def\<close>)
  ultimately show ?thesis
    using assms(1,2,4) by (simp add: Router_route_def upt route_from_append dgs_def del: upt_Suc)
qed

lemma round_of:
  assumes "Router_route ub (router_of s) = Inr (router_of s1)" "\<forall>i\<ge>7. s1 i = s i"
  shows "simulate_round ub (net_of s ex) = rbind (exchange_links links s1) (\<lambda>s. Inr (net_of s ex))"
proof -
  have "hosts_of s1 ex = hosts_of s ex" using assms(2) by (simp add: hosts_of_def)
  then have "(net_of s ex)\<lparr>ne_router := router_of s1\<rparr> = net_of s1 ex" by (simp add: net_of_def)
  then show ?thesis using assms(1) physical_connections_of by (simp add: simulate_round_def)
qed

lemma idle_round: "settled s \<Longrightarrow> \<forall>i<7. dgs s i = [] \<Longrightarrow> simulate_round ub (net_of s ex) = Inr (net_of s ex)"
  using round_of[OF route_quiet, of s ub ex] links_other[of links s] by (simp add: settled_def)

lemma idle_rounds: "settled s \<Longrightarrow> \<forall>i<7. dgs s i = [] \<Longrightarrow> simulate_rounds ub n (net_of s ex) = Inr (net_of s ex)"
  by (induction n) (simp_all add: idle_round)

lemma rounds_add: "simulate_rounds ub (m + n) net = rbind (simulate_rounds ub m net) (\<lambda>net. simulate_rounds ub n net)"
  by (induction m arbitrary: net) (simp_all add: rbind_rbind cong: rbind_cong)

lemma transit_rounds:
  assumes m: "macs_ok mac" and p: "peers a b" and d: "dgram_valid d"
  shows "transit n mac s a b d \<Longrightarrow> \<forall>i<13. knows mac s i \<Longrightarrow> \<forall>i<7. dgs s i = [] \<Longrightarrow>
    \<exists>s' d'. simulate_rounds ub n (net_of s ex) = Inr (net_of s' ex) \<and> (\<forall>i<13. knows mac s' i) \<and> settled s' \<and>
      same_dgram d d' \<and> dgs s' = (dgs s)(b := dgs s b @ [d'])"
proof (induction n arbitrary: s)
  case 0
  then show ?case by (simp add: transit.simps)
next
  case (Suc n)
  from transit_step[OF m p Suc.prems(2) d Suc.prems(1)] obtain s1 where s1: "exchange_links links s = Inr s1" "\<forall>i<13. knows mac s1 i"
    "if n = 0 then settled s1 \<and> (\<exists>d'. same_dgram d d' \<and> dgs s1 = (dgs s)(b := dgs s b @ [d'])) else transit n mac s1 a b d \<and> dgs s1 = dgs s"
    by blast
  have r: "simulate_round ub (net_of s ex) = Inr (net_of s1 ex)"
    using round_of[OF route_quiet[OF Suc.prems(3)], of ub ex] s1(1) by simp
  show ?case
  proof (cases "n = 0")
    case True
    then have "settled s1 \<and> (\<exists>d'. same_dgram d d' \<and> dgs s1 = (dgs s)(b := dgs s b @ [d']))" using s1(3) by simp
    moreover have "simulate_rounds ub (Suc n) (net_of s ex) = Inr (net_of s1 ex)" using r True by simp
    ultimately show ?thesis using s1(2) by blast
  next
    case False
    then have "transit n mac s1 a b d" "dgs s1 = dgs s" using s1(3) by simp_all
    from Suc.IH[OF this(1) s1(2)] this(2) Suc.prems(3) show ?thesis using r by simp
  qed
qed

text \<open>Where the router sends a datagram: the interface, and the host that is the next hop.\<close>

definition routes_to :: "(u8 \<Rightarrow> u32) \<Rightarrow> u32 \<Rightarrow> nat \<Rightarrow> nat \<Rightarrow> bool" where
  "routes_to ub dst k b \<longleftrightarrow> k < 7 \<and> 7 \<le> b \<and> peers k b \<and>
     (case Router_search ub dst sim_table (hd sim_table) 0 False of (best, found) \<Rightarrow> found \<and> re_interface_num best = k \<and>
       (case re_next_hop best of Some a \<Rightarrow> a = ipv4_address (station_ip b) 0 | None \<Rightarrow> dst = station_ip b))"

lemma forward_one:
  assumes "1 < ip_ttl (dg_header d)" "routes_to ub (ip_dst (dg_header d)) k b"
    and "NetworkInterface_send_datagram (ai_interface (s k)) (forwarded d) (ipv4_address (station_ip b) 0) = Inr ni"
  shows "Router_route_one_datagram ub (router_of s) d = Inr (router_of (s(k := (s k)\<lparr>ai_interface := ni\<rparr>)))"
proof -
  obtain best where s: "Router_search ub (ip_dst (dg_header d)) sim_table (hd sim_table) 0 False = (best, True)"
      "re_interface_num best = k" "case re_next_hop best of Some a \<Rightarrow> a = ipv4_address (station_ip b) 0 | None \<Rightarrow> ip_dst (dg_header d) = station_ip b"
    and k: "k < 7" using assms(2) by (auto simp: routes_to_def)
  have tab: "sim_table = hd sim_table # tl sim_table" by (simp add: sim_table_def)
  have hop: "route_hop best d = ipv4_address (station_ip b) 0" using s(3) by (cases "re_next_hop best") (simp_all add: route_hop_def)
  have "ro_route_table (router_of s) = hd sim_table # tl sim_table" using tab by simp
  from route_one_eq[OF assms(1) this, folded tab, OF s(1)] show ?thesis
    using k assms(3) hop s(2) router_interface_of[OF k, of s] router_of_update[OF k, of s] by simp
qed

lemma forward_rounds:
  assumes m: "macs_ok mac" and k: "\<forall>i<13. knows mac s i" and st: "settled s" and i: "i < 7" and q: "dgs s = (\<lambda>_. [])(i := [d])"
    and d: "dgram_valid d" "1 < ip_ttl (dg_header d)" and r: "routes_to ub (ip_dst (dg_header d)) j b"
  shows "\<exists>n s' d'. n \<le> 3 \<and> simulate_rounds ub n (net_of s ex) = Inr (net_of s' ex) \<and> (\<forall>i<13. knows mac s' i) \<and> settled s' \<and>
    same_dgram (forwarded d) d' \<and> dgs s' = (\<lambda>_. [])(b := [d'])"
proof -
  have p: "peers j b" and j: "j < 7" and b: "7 \<le> b" using r by (simp_all add: routes_to_def)
  have fd: "dgram_valid (forwarded d)" using forwarded_valid[OF d(1)] .
  obtain ni n where ni: "NetworkInterface_send_datagram (ai_interface (s j)) (forwarded d) (ipv4_address (station_ip b) 0) = Inr ni"
      "n = 1 \<or> n = 3" and s1: "\<forall>i<13. knows mac (s(j := (s j)\<lparr>ai_interface := ni\<rparr>)) i"
      "transit n mac (s(j := (s j)\<lparr>ai_interface := ni\<rparr>)) j b (forwarded d)" "dgs (s(j := (s j)\<lparr>ai_interface := ni\<rparr>)) = dgs s"
    using send_starts_transit[OF m p k fd st, of 0] unfolding Let_def by blast
  let ?s1 = "s(j := (s j)\<lparr>ai_interface := ni\<rparr>)"
  let ?s2 = "?s1(i := (?s1 i)\<lparr>ai_datagrams_out := []\<rparr>)"
  have rt: "Router_route ub (router_of s) = Inr (router_of ?s2)"
    by (rule route_single[OF i _ _ forward_one[where s = s, OF d(2) r ni(1)]]) (use q s1(3) in simp_all)
  have k2: "\<forall>i<13. knows mac ?s2 i" using s1(1) by (simp only: set_queue_views)
  have t2: "transit n mac ?s2 j b (forwarded d)" using s1(2) unfolding transit.simps by (simp only: set_queue_views)
  have q2: "dgs ?s2 = (\<lambda>_. [])" using s1(3) q by auto
  obtain n' where n': "n = Suc n'" using ni(2) by (cases n) auto
  have e: "\<forall>l<7. dgs ?s2 l = []" unfolding q2 by simp
  have "\<forall>l\<ge>7. ?s2 l = s l" using i j by simp
  from round_of[OF rt this, of ex] round_of[OF route_quiet[OF e], of ub ex]
  have "simulate_round ub (net_of s ex) = simulate_round ub (net_of ?s2 ex)" by (simp only: simp_thms)
  then have same: "simulate_rounds ub n (net_of s ex) = simulate_rounds ub n (net_of ?s2 ex)" by (simp add: n')
  from transit_rounds[OF m p fd t2 k2 e, of ub ex] obtain s' d' where s': "simulate_rounds ub n (net_of ?s2 ex) = Inr (net_of s' ex)"
    "\<forall>i<13. knows mac s' i" "settled s'" "same_dgram (forwarded d) d'" "dgs s' = (dgs ?s2)(b := dgs ?s2 b @ [d'])" by blast
  have "dgs s' = (\<lambda>_. [])(b := [d'])" using s'(5) unfolding q2 by simp
  then show ?thesis using same ni(2) s'(1-4) by (intro exI[of _ n] exI[of _ s'] exI[of _ d']) auto
qed

lemma expire_round:
  assumes k: "\<forall>i<13. knows mac s i" and st: "settled s" and i: "i < 7" and q: "dgs s = (\<lambda>_. [])(i := [d])" and ttl: "ip_ttl (dg_header d) \<le> 1"
  shows "\<exists>s'. simulate_rounds ub 1 (net_of s ex) = Inr (net_of s' ex) \<and> (\<forall>i<13. knows mac s' i) \<and> settled s' \<and> dgs s' = (\<lambda>_. [])"
proof -
  let ?s = "s(i := (s i)\<lparr>ai_datagrams_out := []\<rparr>)"
  have rt: "Router_route ub (router_of s) = Inr (router_of ?s)"
    by (rule route_single[OF i _ _ route_one_dropped[OF ttl]]) (use q in simp_all)
  have st': "settled ?s" using st unfolding settled_def by (simp only: set_queue_views)
  have quiet: "exchange_links links ?s = Inr ?s" by (rule links_other) (use st' in \<open>simp add: settled_def del: views_update\<close>)
  have "simulate_round ub (net_of s ex) = Inr (net_of ?s ex)"
    using round_of[OF rt, of ex] quiet i by simp
  moreover have "\<forall>i<13. knows mac ?s i" using k by (simp only: set_queue_views)
  moreover have "dgs ?s = (\<lambda>_. [])" using q by (simp add: fun_upd_idem)
  ultimately show ?thesis using st' by auto
qed

section \<open>Checks\<close>

lemma same_serialization_same:
  assumes "dgram_valid x" "same_dgram x y" shows "same_serialization x y = Inr True"
proof -
  have y: "dgram_valid y" and h: "dg_header y = (dg_header x)\<lparr>ip_cksum := ip_cksum (dg_header y)\<rparr>"
    and p: "bl_bytes (dg_payload y) = bl_bytes (dg_payload x)" using assms(2) by (simp_all add: same_dgram_def)
  have "ipv4_checksum (dg_header y) = ipv4_checksum (dg_header x)" unfolding ipv4_checksum_def by (subst h) simp
  moreover have "(dg_header y)\<lparr>ip_cksum := c\<rparr> = (dg_header x)\<lparr>ip_cksum := c\<rparr>" for c by (subst h) simp
  ultimately show ?thesis
    using p serialize_dgram_bytes[OF assms(1)] serialize_dgram_bytes[OF y] by (simp add: same_serialization_def dgram_bytes_def)
qed

lemma same_dgram_forwarded:
  assumes "same_dgram d d1" "same_dgram (forwarded d1) d2" shows "same_dgram (forwarded d) d2"
proof -
  obtain c1 c2 where "dg_header d1 = (dg_header d)\<lparr>ip_cksum := c1\<rparr>" "dg_header d2 = (dg_header (forwarded d1))\<lparr>ip_cksum := c2\<rparr>"
    using assms by (auto simp: same_dgram_def)
  then have "dg_header d2 = (dg_header (forwarded d))\<lparr>ip_cksum := c2\<rparr>" by (simp add: forwarded_def)
  then show ?thesis using assms by (simp add: same_dgram_def forwarded_def)
qed

definition unloaded :: "async_interface \<Rightarrow> async_interface" where
  "unloaded x = x\<lparr>ai_datagrams_out := []\<rparr>"

definition checks :: "nat \<Rightarrow> async_interface \<Rightarrow> ipv4_datagram list \<Rightarrow> bool" where
  "checks i x ex \<longleftrightarrow> Host_check (host_of i x ex) = Inr (host_of i (unloaded x) [])"

lemma checks_none: "ai_datagrams_out x = [] \<Longrightarrow> checks i x []"
  by (simp add: checks_def Host_check_def host_of_def unloaded_def)

lemma checks_one: "ai_datagrams_out x = [d] \<Longrightarrow> same_serialization e d = Inr True \<Longrightarrow> checks i x [e]"
  by (simp add: checks_def Host_check_def host_of_def unloaded_def)

lemma check_hosts_of:
  assumes "\<forall>i. 7 \<le> i \<and> i < 13 \<longrightarrow> checks i (s i) (ex i)"
  shows "check_hosts names (net_of s ex) =
    Inr (net_of (\<lambda>i. if 7 \<le> i \<and> i < 13 \<and> host_name i \<in> set names then unloaded (s i) else s i)
                (\<lambda>i. if 7 \<le> i \<and> i < 13 \<and> host_name i \<in> set names then [] else ex i))"
  using assms
proof (induction names arbitrary: s ex)
  case (Cons n names)
  show ?case
  proof (cases "\<exists>j. 7 \<le> j \<and> j < 13 \<and> n = host_name j")
    case True
    then obtain j where j: "7 \<le> j" "j < 13" "n = host_name j" by blast
    let ?s = "s(j := unloaded (s j))" and ?e = "ex(j := [])"
    have h: "ne_hosts (net_of s ex) n = Some (host_of j (s j) (ex j))" using hosts_of_name[OF j(1,2)] j(3) by (simp add: net_of_def)
    have "\<forall>i. 7 \<le> i \<and> i < 13 \<longrightarrow> checks i (?s i) (?e i)"
      using Cons.prems checks_none[of "unloaded (s j)" j] by (simp add: unloaded_def)
    note ih = Cons.IH[OF this]
    have eq: "host_name i = n \<longleftrightarrow> i = j" if "7 \<le> i" "i < 13" for i using inj_onD[OF host_name_inj, of i j] j that by auto
    have "check_hosts (n # names) (net_of s ex) = check_hosts names (net_of ?s ?e)"
      using h Cons.prems j set_host_of[OF j(1,2)] by (simp add: checks_def)
    moreover have "(\<lambda>i. if 7 \<le> i \<and> i < 13 \<and> host_name i \<in> set names then unloaded (?s i) else ?s i) =
        (\<lambda>i. if 7 \<le> i \<and> i < 13 \<and> host_name i \<in> set (n # names) then unloaded (s i) else s i)"
      using eq j by (auto simp: fun_eq_iff unloaded_def)
    moreover have "(\<lambda>i. if 7 \<le> i \<and> i < 13 \<and> host_name i \<in> set names then [] else ?e i) =
        (\<lambda>i. if 7 \<le> i \<and> i < 13 \<and> host_name i \<in> set (n # names) then [] else ex i)"
      using eq j by (auto simp: fun_eq_iff)
    ultimately show ?thesis using ih by (simp only:)
  next
    case False
    then have "ne_hosts (net_of s ex) n = None" using hosts_of_dom[of s ex n] by (auto simp: net_of_def)
    moreover have "7 \<le> i \<and> i < 13 \<and> host_name i \<in> set (n # names) \<longleftrightarrow> 7 \<le> i \<and> i < 13 \<and> host_name i \<in> set names" for i
      using False by auto
    ultimately show ?thesis using Cons.IH[OF Cons.prems] by (simp only: check_hosts.simps option.case)
  qed
qed simp

lemma host_name_mem: "7 \<le> i \<Longrightarrow> i < 13 \<Longrightarrow> host_name i \<in> set host_names"
  by (simp add: host_name_def host_names_def nth_Cons')

lemma check_all:
  assumes "\<forall>i. 7 \<le> i \<and> i < 13 \<longrightarrow> checks i (s i) (ex i)" "set order = set host_names" "\<forall>i. \<not> (7 \<le> i \<and> i < 13) \<longrightarrow> dgs s i = [] \<and> ex i = []"
    and "\<forall>i<13. knows mac s i" "settled s"
  shows "\<exists>s'. check_hosts order (net_of s ex) = Inr (net_of s' (\<lambda>_. [])) \<and> (\<forall>i<13. knows mac s' i) \<and> settled s' \<and> dgs s' = (\<lambda>_. [])"
proof -
  let ?s = "\<lambda>i. if 7 \<le> i \<and> i < 13 \<and> host_name i \<in> set order then unloaded (s i) else s i"
  have n: "7 \<le> i \<and> i < 13 \<and> host_name i \<in> set order \<longleftrightarrow> 7 \<le> i \<and> i < 13" for i using host_name_mem assms(2) by blast
  have "check_hosts order (net_of s ex) = Inr (net_of ?s (\<lambda>_. []))"
    unfolding check_hosts_of[OF assms(1)] n using assms(3) by (auto intro!: arg_cong2[where f = net_of] simp: fun_eq_iff)
  moreover have "frm ?s = frm s" "pnd ?s = pnd s" by (auto simp: frm_def pnd_def unloaded_def fun_eq_iff)
  moreover have "knows mac ?s i = knows mac s i" for i by (simp add: knows_def unloaded_def)
  moreover have "dgs ?s = (\<lambda>_. [])" unfolding n using assms(3) by (auto simp: dgs_def unloaded_def fun_eq_iff)
  ultimately show ?thesis using assms(4,5) by (intro exI[of _ ?s]) (simp add: settled_def)
qed

section \<open>Journeys\<close>

lemma host_bound: "peers k b \<Longrightarrow> b < 13"
  by (simp add: peers_bound)

lemma journey_rounds:
  assumes m: "macs_ok mac" and p: "peers a i" and i: "i < 7" and k: "\<forall>i<13. knows mac s i" and q: "dgs s = (\<lambda>_. [])"
    and d: "dgram_valid d" "1 < ip_ttl (dg_header d)" and tr: "transit n mac s a i d" and r: "routes_to ub (ip_dst (dg_header d)) j b"
  shows "\<exists>s' d'. simulate_rounds ub 256 (net_of s ex) = Inr (net_of s' ex) \<and> (\<forall>i<13. knows mac s' i) \<and> settled s' \<and>
    same_dgram (forwarded d) d' \<and> dgs s' = (\<lambda>_. [])(b := [d'])"
proof -
  have n: "n \<le> 3" using tr by (auto simp: transit.simps split: if_splits)
  have "\<forall>i<7. dgs s i = []" using q by simp
  from transit_rounds[OF m p d(1) tr k this, of ub ex] obtain s1 d1 where s1: "simulate_rounds ub n (net_of s ex) = Inr (net_of s1 ex)"
    "\<forall>i<13. knows mac s1 i" "settled s1" "same_dgram d d1" "dgs s1 = (\<lambda>_. [])(i := [d1])" unfolding q by auto
  have d1: "dgram_valid d1" "1 < ip_ttl (dg_header d1)" "ip_dst (dg_header d1) = ip_dst (dg_header d)"
  proof -
    obtain c where "dg_header d1 = (dg_header d)\<lparr>ip_cksum := c\<rparr>" using s1(4) by (auto simp: same_dgram_def)
    then show "dgram_valid d1" "1 < ip_ttl (dg_header d1)" "ip_dst (dg_header d1) = ip_dst (dg_header d)"
      using s1(4) d(2) by (simp_all add: same_dgram_def)
  qed
  obtain n2 s2 d2 where s2: "n2 \<le> 3" "simulate_rounds ub n2 (net_of s1 ex) = Inr (net_of s2 ex)" "\<forall>i<13. knows mac s2 i" "settled s2"
    "same_dgram (forwarded d1) d2" "dgs s2 = (\<lambda>_. [])(b := [d2])"
    using forward_rounds[OF m s1(2,3) i s1(5) d1(1,2) r[folded d1(3)], of ex] by blast
  have b: "7 \<le> b" using r by (simp add: routes_to_def)
  have "\<forall>i<7. dgs s2 i = []" using s2(6) b by simp
  note idle = idle_rounds[OF s2(4) this, of ub "256 - (n + n2)" ex]
  have "simulate_rounds ub (n + (n2 + (256 - (n + n2)))) (net_of s ex) = Inr (net_of s2 ex)"
    unfolding rounds_add using s1(1) s2(2) idle by simp
  then have "simulate_rounds ub 256 (net_of s ex) = Inr (net_of s2 ex)" using n s2(1) by simp
  then show ?thesis using s2(3-6) same_dgram_forwarded[OF s1(4) s2(5)] by blast
qed

lemma expiry_rounds:
  assumes m: "macs_ok mac" and p: "peers a i" and i: "i < 7" and k: "\<forall>i<13. knows mac s i" and q: "dgs s = (\<lambda>_. [])"
    and d: "dgram_valid d" "ip_ttl (dg_header d) \<le> 1" and tr: "transit n mac s a i d"
  shows "\<exists>s'. simulate_rounds ub 256 (net_of s ex) = Inr (net_of s' ex) \<and> (\<forall>i<13. knows mac s' i) \<and> settled s' \<and> dgs s' = (\<lambda>_. [])"
proof -
  have n: "n \<le> 3" using tr by (auto simp: transit.simps split: if_splits)
  have "\<forall>i<7. dgs s i = []" using q by simp
  from transit_rounds[OF m p d(1) tr k this, of ub ex] obtain s1 d1 where s1: "simulate_rounds ub n (net_of s ex) = Inr (net_of s1 ex)"
    "\<forall>i<13. knows mac s1 i" "settled s1" "same_dgram d d1" "dgs s1 = (\<lambda>_. [])(i := [d1])" unfolding q by auto
  obtain c where "dg_header d1 = (dg_header d)\<lparr>ip_cksum := c\<rparr>" using s1(4) by (auto simp: same_dgram_def)
  then have "ip_ttl (dg_header d1) \<le> 1" using d(2) by simp
  from expire_round[OF s1(2,3) i s1(5) this, of ub ex] obtain s2 where s2: "simulate_rounds ub 1 (net_of s1 ex) = Inr (net_of s2 ex)"
    "\<forall>i<13. knows mac s2 i" "settled s2" "dgs s2 = (\<lambda>_. [])" by blast
  have "\<forall>i<7. dgs s2 i = []" using s2(4) by simp
  note idle = idle_rounds[OF s2(3) this, of ub "256 - (n + 1)" ex]
  have "simulate_rounds ub (n + (1 + (256 - (n + 1)))) (net_of s ex) = Inr (net_of s2 ex)"
    unfolding rounds_add using s1(1) s2(1) idle by simp
  then have "simulate_rounds ub 256 (net_of s ex) = Inr (net_of s2 ex)" using n by simp
  then show ?thesis using s2(2-4) by blast
qed

section \<open>Scenarios\<close>

definition quiet_network :: "(nat \<Rightarrow> ethernet_address) \<Rightarrow> stations \<Rightarrow> bool" where
  "quiet_network mac s \<longleftrightarrow> (\<forall>i<13. knows mac s i) \<and> settled s \<and> dgs s = (\<lambda>_. [])"

definition sim_payload :: "u32 \<Rightarrow> byte list" where
  "sim_payload r = bytes_of_string (''random payload: {'' @ dec_string (unat r) @ ''}'')"

definition sim_dgram :: "nat \<Rightarrow> u32 \<Rightarrow> u8 \<Rightarrow> u32 \<Rightarrow> ipv4_datagram" where
  "sim_dgram a dst ttl r = \<lparr>dg_header = IPv4Header_default\<lparr>ip_src := station_ip a, ip_dst := dst,
     ip_len := of_nat (20 + length (sim_payload r)), ip_ttl := ttl\<rparr>, dg_payload = BufferList_of_string (sim_payload r)\<rparr>"

lemma sim_payload_length: "length (sim_payload r) \<le> 28"
proof -
  have "unat r < 10 ^ 10" using word_bounds(3)[of r] by simp
  from digits_length[OF _ this] show ?thesis by (simp add: sim_payload_def bytes_of_string_def dec_string_def)
qed

lemma sim_dgram_valid: "dgram_valid (sim_dgram a dst ttl r)"
proof -
  have l: "20 + length (sim_payload r) < 65536" using sim_payload_length[of r] by simp
  then have "unat (of_nat (20 + length (sim_payload r)) :: u16) = 20 + length (sim_payload r)"
    by (subst unat_of_nat) (simp add: take_bit_nat_eq_self)
  then show ?thesis
    using l by (simp add: dgram_valid_def sim_dgram_def ipv4_header_valid_def IPv4Header_default_def)
qed

lemma sim_dgram_fields [simp]: "ip_ttl (dg_header (sim_dgram a dst ttl r)) = ttl" "ip_dst (dg_header (sim_dgram a dst ttl r)) = dst"
  by (simp_all add: sim_dgram_def)

lemma Host_send_to_of:
  "Host_send_to (host_of a x e) (ipv4_address dst p) ttl g =
     rbind (NetworkInterface_send_datagram (ai_interface x) (sim_dgram a dst ttl (g 0)) (ipv4_address (next_hop_ip a) 0)) (\<lambda>ni.
       Inr (sim_dgram a dst ttl (g 0), host_of a (x\<lparr>ai_interface := ni\<rparr>) e, \<lambda>n. g (n + 1)))"
proof -
  have "length (sim_payload (g 0)) < two64" using sim_payload_length[of "g 0"] by simp
  then have sz: "BufferList_size (BufferList_of_string (sim_payload (g 0))) = length (sim_payload (g 0))" by simp
  have ip: "Address_ip (ipv4_address c 0) = Inr (inet_ntoa_string c)" for c
    by (simp add: Address_ip_def Address_ip_port_def ipv4_address_def)
  show ?thesis
    unfolding Host_send_to_def Let_def rd_def prod.case sim_payload_def[symmetric]
    using sz by (simp add: host_of_def ip sim_dgram_def IPv4Datagram_default_def IPv4Header_default_def)
qed

lemma host_sends_of:
  assumes m: "macs_ok mac" and q: "quiet_network mac s" and a: "7 \<le> a" "a < 13" and p: "peers a i" and hop: "next_hop_ip a = station_ip i"
  shows "\<exists>s' n. host_sends (host_name a) (ipv4_address dst port) ttl (net_of s ex, g) =
      Inr (sim_dgram a dst ttl (g 0), net_of s' ex, \<lambda>n. g (n + 1)) \<and>
    (\<forall>i<13. knows mac s' i) \<and> transit n mac s' a i (sim_dgram a dst ttl (g 0)) \<and> dgs s' = (\<lambda>_. [])"
proof -
  have k: "\<forall>i<13. knows mac s i" and st: "settled s" and dg: "dgs s = (\<lambda>_. [])" using q by (simp_all add: quiet_network_def)
  obtain ni n where ni: "NetworkInterface_send_datagram (ai_interface (s a)) (sim_dgram a dst ttl (g 0)) (ipv4_address (station_ip i) 0) = Inr ni"
    "\<forall>j<13. knows mac (s(a := (s a)\<lparr>ai_interface := ni\<rparr>)) j"
    "transit n mac (s(a := (s a)\<lparr>ai_interface := ni\<rparr>)) a i (sim_dgram a dst ttl (g 0))"
    "dgs (s(a := (s a)\<lparr>ai_interface := ni\<rparr>)) = dgs s"
    using send_starts_transit[OF m p k sim_dgram_valid[of a dst ttl "g 0"] st, of 0] unfolding Let_def by blast
  let ?s = "s(a := (s a)\<lparr>ai_interface := ni\<rparr>)"
  have "host_sends (host_name a) (ipv4_address dst port) ttl (net_of s ex, g) = Inr (sim_dgram a dst ttl (g 0), net_of ?s ex, \<lambda>n. g (n + 1))"
    using ni(1) a hop set_host_of[OF a, of s ex _ "ex a"] by (simp add: host_sends_def Host_send_to_of)
  then show ?thesis using ni(2-4) dg by metis
qed

lemma traffic_of:
  assumes m: "macs_ok mac" and q: "quiet_network mac s" and a: "7 \<le> a" "a < 13" and p: "peers a i" and hop: "next_hop_ip a = station_ip i"
    and i: "i < 7" and r: "routes_to ub dst j b" and o: "set order = set host_names"
  shows "\<exists>s' g'. traffic ub order (host_name a) (ipv4_address dst port) (host_name b) (net_of s (\<lambda>_. []), g) =
    Inr (net_of s' (\<lambda>_. []), g') \<and> quiet_network mac s'"
proof -
  let ?d = "sim_dgram a dst 64 (g 0)" and ?ex = "(\<lambda>_. [])(b := [forwarded (sim_dgram a dst 64 (g 0))])"
  have b: "7 \<le> b" "b < 13" using r peers_bound[of j b] by (simp_all add: routes_to_def)
  obtain s1 n where s1: "host_sends (host_name a) (ipv4_address dst port) 64 (net_of s (\<lambda>_. []), g) = Inr (?d, net_of s1 (\<lambda>_. []), \<lambda>n. g (n + 1))"
    "\<forall>i<13. knows mac s1 i" "transit n mac s1 a i ?d" "dgs s1 = (\<lambda>_. [])"
    using host_sends_of[OF m q a p hop, of dst port 64 "\<lambda>_. []" g] by blast
  have ttl: "1 < ip_ttl (dg_header ?d)" by simp
  have rd: "routes_to ub (ip_dst (dg_header ?d)) j b" using r by simp
  obtain s2 d2 where s2: "simulate_rounds ub 256 (net_of s1 ?ex) = Inr (net_of s2 ?ex)" "\<forall>i<13. knows mac s2 i" "settled s2"
    "same_dgram (forwarded ?d) d2" "dgs s2 = (\<lambda>_. [])(b := [d2])"
    using journey_rounds[OF m p i s1(2,4) sim_dgram_valid ttl s1(3) rd] by blast
  have "same_serialization (forwarded ?d) d2 = Inr True" using same_serialization_same[OF forwarded_valid[OF sim_dgram_valid] s2(4)] .
  then have "checks i (s2 i) (?ex i)" for i
    using s2(5) by (cases "i = b") (auto simp: dgs_def fun_eq_iff intro!: checks_one checks_none)
  then have c: "\<forall>i. 7 \<le> i \<and> i < 13 \<longrightarrow> checks i (s2 i) (?ex i)" by blast
  have rest: "\<forall>i. \<not> (7 \<le> i \<and> i < 13) \<longrightarrow> dgs s2 i = [] \<and> ?ex i = []" using s2(5) b by auto
  obtain s3 where s3: "check_hosts order (net_of s2 ?ex) = Inr (net_of s3 (\<lambda>_. []))" "quiet_network mac s3"
    using check_all[OF c o rest s2(2,3)] unfolding quiet_network_def by blast
  have e: "Network_set_host (net_of s1 (\<lambda>_. [])) (host_name b) (Host_expect (host_of b (s1 b) []) (decrement_ttl ?d)) = net_of s1 ?ex"
  proof -
    have "Host_expect (host_of b (s1 b) []) (decrement_ttl ?d) = host_of b (s1 b) [forwarded ?d]"
      by (simp add: Host_expect_def host_of_def decrement_ttl_def forwarded_def)
    then show ?thesis using set_host_of[OF b, of s1 "\<lambda>_. []" "s1 b"] by simp
  qed
  show ?thesis using s1(1) s2(1) s3 b e by (auto simp: traffic_def simulate_def)
qed

lemma expiring_traffic_of:
  assumes m: "macs_ok mac" and q: "quiet_network mac s" and a: "7 \<le> a" "a < 13" and p: "peers a i" and hop: "next_hop_ip a = station_ip i"
    and i: "i < 7" and ttl: "ttl \<le> 1" and o: "set order = set host_names"
    and adr: "Address_of_ip_port getaddrinfo str 0 = Inr (ipv4_address dst port)"
  shows "\<exists>s' g'. expiring_traffic getaddrinfo ub order (host_name a) str ttl (net_of s (\<lambda>_. []), g) =
    Inr (net_of s' (\<lambda>_. []), g') \<and> quiet_network mac s'"
proof -
  let ?d = "sim_dgram a dst ttl (g 0)"
  obtain s1 n where s1: "host_sends (host_name a) (ipv4_address dst port) ttl (net_of s (\<lambda>_. []), g) = Inr (?d, net_of s1 (\<lambda>_. []), \<lambda>n. g (n + 1))"
    "\<forall>i<13. knows mac s1 i" "transit n mac s1 a i ?d" "dgs s1 = (\<lambda>_. [])"
    using host_sends_of[OF m q a p hop, of dst port ttl "\<lambda>_. []" g] by blast
  have t: "ip_ttl (dg_header ?d) \<le> 1" using ttl by simp
  obtain s2 where s2: "simulate_rounds ub 256 (net_of s1 (\<lambda>_. [])) = Inr (net_of s2 (\<lambda>_. []))" "\<forall>i<13. knows mac s2 i" "settled s2" "dgs s2 = (\<lambda>_. [])"
    using expiry_rounds[OF m p i s1(2,4) sim_dgram_valid t s1(3)] by metis
  have c: "\<forall>i. 7 \<le> i \<and> i < 13 \<longrightarrow> checks i (s2 i) []" using s2(4) by (auto simp: dgs_def fun_eq_iff intro!: checks_none)
  have rest: "\<forall>i. \<not> (7 \<le> i \<and> i < 13) \<longrightarrow> dgs s2 i = [] \<and> [] = []" using s2(4) by simp
  obtain s3 where s3: "check_hosts order (net_of s2 (\<lambda>_. [])) = Inr (net_of s3 (\<lambda>_. []))" "quiet_network mac s3"
    using check_all[OF c o rest s2(2,3)] unfolding quiet_network_def by blast
  show ?thesis using s1(1) s2(1) s3 adr by (auto simp: expiring_traffic_def simulate_def)
qed

section \<open>The network as built\<close>

text \<open>
  What the program relies on of the resolver: with numeric hints, each address it writes resolves to the
  number it denotes; a plain \<open>0\<close> is the address of all zeros.
\<close>

definition sim_addresses :: "(string \<times> u32) list" where
  "sim_addresses = [(''171.67.76.46'', quad 171 67 76 46), (''10.0.0.1'', quad 10 0 0 1), (''172.16.0.1'', quad 172 16 0 1),
     (''192.168.0.1'', quad 192 168 0 1), (''198.178.229.1'', quad 198 178 229 1), (''143.195.0.2'', quad 143 195 0 2),
     (''128.30.76.255'', quad 128 30 76 255), (''10.0.0.2'', quad 10 0 0 2), (''171.67.76.1'', quad 171 67 76 1), (''0'', 0),
     (''192.168.0.2'', quad 192 168 0 2), (''143.195.0.1'', quad 143 195 0 1), (''198.178.229.42'', quad 198 178 229 42),
     (''198.178.229.43'', quad 198 178 229 43), (''0.0.0.0'', 0), (''10.0.0.0'', quad 10 0 0 0), (''172.16.0.0'', quad 172 16 0 0),
     (''192.168.0.0'', quad 192 168 0 0), (''198.178.229.0'', quad 198 178 229 0), (''143.195.0.0'', quad 143 195 0 0),
     (''143.195.128.0'', quad 143 195 128 0), (''143.195.192.0'', quad 143 195 192 0), (''128.30.0.1'', quad 128 30 0 1),
     (''1.2.3.4'', quad 1 2 3 4), (''143.195.131.17'', quad 143 195 131 17), (''143.195.193.52'', quad 143 195 193 52),
     (''143.195.223.255'', quad 143 195 223 255), (''143.195.224.0'', quad 143 195 224 0)]"

definition numeric_host :: "resolver \<Rightarrow> string \<Rightarrow> u32 \<Rightarrow> bool" where
  "numeric_host getaddrinfo str a \<longleftrightarrow>
     (case getaddrinfo str ''0'' (make_hints AI_NUMERICHOST_NUMERICSERV AF_INET) of
        Inr (x # _) \<Rightarrow> x = ipv4_address a 0 | _ \<Rightarrow> False)"

definition numeric_resolver :: "resolver \<Rightarrow> bool" where
  "numeric_resolver getaddrinfo \<longleftrightarrow> list_all (\<lambda>(str, a). numeric_host getaddrinfo str a) sim_addresses"

lemma numeric_host_address: "numeric_host getaddrinfo str a \<Longrightarrow> Address_of_ip_port getaddrinfo str 0 = Inr (ipv4_address a 0)"
proof -
  have z: "dec_string 0 = ''0''" by code_simp
  show "numeric_host getaddrinfo str a \<Longrightarrow> ?thesis"
    by (auto simp: numeric_host_def z Address_of_ip_port_def Address_resolve_def Address_of_sockaddr_def ipv4_address_def
        sizeof_sockaddr_in_def sizeof_sockaddr_storage_def split: sum.splits list.splits)
qed

lemma resolver_addresses: "numeric_resolver getaddrinfo \<Longrightarrow> list_all (\<lambda>(str, a). Address_of_ip_port getaddrinfo str 0 = Inr (ipv4_address a 0)) sim_addresses"
  unfolding numeric_resolver_def by (auto intro: list.pred_mono_strong simp: numeric_host_address)

definition router_mac :: "random \<Rightarrow> ethernet_address" where
  "router_mac g = [2, 0, 0, ucast (g 3), ucast (g 4), ucast (g 5)]"

definition host_mac :: "random \<Rightarrow> ethernet_address" where
  "host_mac g = [and (or (ucast (g 0)) 2) 0xfe, ucast (g 1), ucast (g 2), ucast (g 3), ucast (g 4), ucast (g 5)]"

definition after :: "nat \<Rightarrow> random \<Rightarrow> random" where
  "after n g = (\<lambda>k. g (n + k))"

lemma after_after: "after m (after n g) = after (n + m) g"
  by (simp add: after_def add.assoc)

lemma random_macs: "random_router_ethernet_address g = (router_mac g, after 6 g)" "random_host_ethernet_address g = (host_mac g, after 6 g)"
proof -
  have "rd_bytes 6 g = ([ucast (g 0), ucast (g 1), ucast (g 2), ucast (g 3), ucast (g 4), ucast (g 5)], after 6 g)"
    by (simp add: numeral_eq_Suc rd_def after_def)
  then show "random_router_ethernet_address g = (router_mac g, after 6 g)" "random_host_ethernet_address g = (host_mac g, after 6 g)"
    by (simp_all add: random_router_ethernet_address_def random_host_ethernet_address_def router_mac_def host_mac_def Let_def numeral_eq_Suc)
qed

text \<open>The hosts are made in the order of the program: \<open>applesauce\<close> before \<open>default_router\<close>.\<close>

definition sim_mac :: "random \<Rightarrow> nat \<Rightarrow> ethernet_address" where
  "sim_mac g i = (if i < 7 then router_mac (after (6 * i) g)
     else if i = 7 then host_mac (after 48 g) else if i = 8 then host_mac (after 42 g) else host_mac (after (6 * i) g))"

definition sim_start :: "random \<Rightarrow> stations" where
  "sim_start g i = AsyncNetworkInterface_new (NetworkInterface_new (sim_mac g i) (ipv4_address (station_ip i) 0))"

lemma add_random_interface_of:
  "Address_of_ip_port getaddrinfo str 0 = Inr a \<Longrightarrow> length xs < 7 \<Longrightarrow>
   add_random_interface getaddrinfo str (\<lparr>ro_interfaces = xs, ro_route_table = t\<rparr>, g) =
     Inr (length xs, \<lparr>ro_interfaces = xs @ [AsyncNetworkInterface_new (NetworkInterface_new (router_mac g) a)], ro_route_table = t\<rparr>, after 6 g)"
  by (simp add: add_random_interface_def random_macs Router_add_interface_def sub64_def)

lemma insert_host_of:
  "Address_of_ip_port getaddrinfo my 0 = Inr a \<Longrightarrow> Address_of_ip_port getaddrinfo hop 0 = Inr b \<Longrightarrow> ne_hosts net name = None \<Longrightarrow>
   insert_host getaddrinfo name my hop (net, g) =
     Inr (net\<lparr>ne_hosts := (ne_hosts net)(name \<mapsto> \<lparr>ho_name = name, ho_my_address = a,
        ho_interface = AsyncNetworkInterface_new (NetworkInterface_new (host_mac g) a), ho_next_hop = b, ho_expecting_to_receive = []\<rparr>)\<rparr>, after 6 g)"
  by (simp add: insert_host_def Host_new_def random_macs Network_set_host_def)

lemma add_net_route_of:
  "Address_of_ip_port getaddrinfo str 0 = Inr (ipv4_address a 0) \<Longrightarrow>
   add_net_route getaddrinfo str len hop i net = Inr (net\<lparr>ne_router := Router_add_route (ne_router net) a len hop i\<rparr>)"
  by (simp add: add_net_route_def ip_def)

lemma routes_of:
  assumes "numeric_resolver getaddrinfo"
  shows "Network_routes getaddrinfo ((net_of s ex)\<lparr>ne_router := \<lparr>ro_interfaces = map s [0..<7], ro_route_table = []\<rparr>\<rparr>) = Inr (net_of s ex)"
proof -
  have h: "Network_host (net\<lparr>ne_router := r\<rparr>) n = Network_host net n" for net r n by (simp add: Network_host_def)
  have d: "Network_host (net_of s ex) ''default_router'' = Inr (host_of 7 (s 7) (ex 7))" using Network_host_of[of 7 s ex] by simp
  have hs: "Network_host (net_of s ex) ''hs_router'' = Inr (host_of 10 (s 10) (ex 10))" using Network_host_of[of 10 s ex] by simp
  note a = resolver_addresses[OF assms, unfolded sim_addresses_def list.pred_inject prod.case]
  note r = add_net_route_of[of getaddrinfo]
  have m: "ho_my_address (host_of i x e) = ipv4_address (station_ip i) 0" for i x e by (simp add: host_of_def)
  show ?thesis
    unfolding Network_routes_def using a
    by (simp add: h d hs r m Router_add_route_def) (simp add: net_of_def router_of_def sim_table_def)
qed

lemma Network_new_of:
  assumes "numeric_resolver getaddrinfo"
  shows "Network_new getaddrinfo g = Inr (net_of (sim_start g) (\<lambda>_. []), after 78 g)"
proof -
  note a = resolver_addresses[OF assms, unfolded sim_addresses_def list.pred_inject prod.case]
  let ?r = "\<lparr>ro_interfaces = map (sim_start g) [0..<7], ro_route_table = []\<rparr>"
  let ?s = "sim_start g"
  have z: "after 0 g = g" by (simp add: after_def)
  have net: "(net_of ?s (\<lambda>_. []))\<lparr>ne_router := ?r\<rparr> = \<lparr>ne_router = ?r, ne_default_id = 0, ne_eth0_id = 1, ne_eth1_id = 2, ne_eth2_id = 3,
      ne_uun3_id = 4, ne_hs4_id = 5, ne_mit5_id = 6, ne_hosts = [''applesauce'' \<mapsto> host_of 8 (?s 8) [], ''default_router'' \<mapsto> host_of 7 (?s 7) [],
      ''cherrypie'' \<mapsto> host_of 9 (?s 9) [], ''hs_router'' \<mapsto> host_of 10 (?s 10) [], ''dm42'' \<mapsto> host_of 11 (?s 11) [], ''dm43'' \<mapsto> host_of 12 (?s 12) []]\<rparr>"
    by (auto simp: net_of_def hosts_of_def upt_stations)
  note f = host_of_def sim_start_def sim_mac_def station_ip_def next_hop_ip_def after_after z numeral_2_eq_2[symmetric]
  have "Network_new getaddrinfo g =
      rbind (Network_routes getaddrinfo ((net_of ?s (\<lambda>_. []))\<lparr>ne_router := ?r\<rparr>)) (\<lambda>net. Inr (net, after 78 g))"
    unfolding Network_new_def Router_new_def net using a
    by (simp add: add_random_interface_of insert_host_of Let_def f upt_stations)
  then show ?thesis using routes_of[OF assms, of ?s "\<lambda>_. []"] by simp
qed

lemma start_quiet: "quiet_network (sim_mac g) (sim_start g)"
  by (simp add: quiet_network_def knows_def settled_def sim_start_def AsyncNetworkInterface_new_def NetworkInterface_new_def
      frm_def pnd_def dgs_def fun_eq_iff)

lemma sim_macs_ok: "distinct [sim_mac g 4, sim_mac g 11, sim_mac g 12] \<Longrightarrow> macs_ok (sim_mac g)"
proof -
  have "and (or x 2) 0xfe \<noteq> (0xff :: byte)" for x
  proof
    assume "and (or x 2) 0xfe = (0xff :: byte)"
    then have "bit (and (or x 2) 0xfe) 0 = bit (0xff :: byte) 0" by (rule arg_cong)
    then show False by (simp add: bit_0 even_and_iff)
  qed
  then have "host_mac h \<noteq> ETHERNET_BROADCAST" "router_mac h \<noteq> ETHERNET_BROADCAST" for h
    by (simp_all add: host_mac_def router_mac_def ETHERNET_BROADCAST_def)
  moreover have "length (host_mac h) = 6" "length (router_mac h) = 6" for h by (simp_all add: host_mac_def router_mac_def)
  ultimately show "distinct [sim_mac g 4, sim_mac g 11, sim_mac g 12] \<Longrightarrow> ?thesis" by (simp add: macs_ok_def sim_mac_def)
qed

lemmas route_eval = routes_to_def sim_table_def route_matches_def route_mask_def quad_def station_ip_def peers_def links_def

lemma sim_routes:
  "routes_to ub (station_ip 9) 3 9" "routes_to ub (station_ip 8) 1 8" "routes_to ub (quad 1 2 3 4) 0 7"
  "routes_to ub (quad 143 195 131 17) 5 10" "routes_to ub (quad 143 195 193 52) 5 10" "routes_to ub (quad 143 195 223 255) 5 10"
  "routes_to ub (quad 143 195 224 0) 0 7" "routes_to ub (station_ip 12) 4 12"
  by (simp_all add: route_eval)

lemma sim_hops: "peers 8 1" "peers 9 3" "peers 11 4" "next_hop_ip 8 = station_ip 1" "next_hop_ip 9 = station_ip 3" "next_hop_ip 11 = station_ip 4"
  by (simp_all add: peers_def links_def next_hop_ip_def station_ip_def)

text \<open>A scenario takes the quiet network to a quiet network, and scenarios follow one another.\<close>

definition runs :: "(nat \<Rightarrow> ethernet_address) \<Rightarrow> (network \<times> random \<Rightarrow> (network \<times> random) result) \<Rightarrow> bool" where
  "runs mac f \<longleftrightarrow> (\<forall>s g. quiet_network mac s \<longrightarrow> (\<exists>s' g'. f (net_of s (\<lambda>_. []), g) = Inr (net_of s' (\<lambda>_. []), g') \<and> quiet_network mac s'))"

lemma runs_then: "runs mac f \<Longrightarrow> runs mac k \<Longrightarrow> runs mac (\<lambda>s. rbind (f s) k)"
  unfolding runs_def by (metis rbind_simps(2))

lemma traffic_between_runs:
  assumes "macs_ok mac" "set order = set host_names" "7 \<le> a" "a < 13" "peers a i" "next_hop_ip a = station_ip i" "i < 7"
    "routes_to ub (station_ip b) j b"
  shows "runs mac (traffic_between ub order (host_name a) (host_name b))"
proof -
  have b: "7 \<le> b" "b < 13" using assms(8) peers_bound[of j b] by (simp_all add: routes_to_def)
  have "ho_my_address (host_of b x e) = ipv4_address (station_ip b) 0" for x e by (simp add: host_of_def)
  then show ?thesis using traffic_of[OF assms(1) _ assms(3-8) assms(2), where port = 0] b by (simp add: traffic_between_def runs_def)
qed

lemma traffic_to_runs:
  assumes "macs_ok mac" "set order = set host_names" "Address_of_ip_port getaddrinfo str 0 = Inr (ipv4_address dst 0)"
    "7 \<le> a" "a < 13" "peers a i" "next_hop_ip a = station_ip i" "i < 7" "routes_to ub dst j b"
  shows "runs mac (traffic_to getaddrinfo ub order (host_name a) str (host_name b))"
  using traffic_of[OF assms(1) _ assms(4-9) assms(2), where port = 0] assms(3) by (simp add: traffic_to_def runs_def)

lemma expiring_traffic_runs:
  assumes "macs_ok mac" "set order = set host_names" "Address_of_ip_port getaddrinfo str 0 = Inr (ipv4_address dst 0)"
    "7 \<le> a" "a < 13" "peers a i" "next_hop_ip a = station_ip i" "i < 7" "ttl \<le> 1"
  shows "runs mac (expiring_traffic getaddrinfo ub order (host_name a) str ttl)"
  using expiring_traffic_of[OF assms(1) _ assms(4-9) assms(2,3)] by (simp add: runs_def)

section \<open>Properties\<close>

text \<open>C34: the network simulator never fails: whatever random values it draws, as long as the three stations
  that share a link have different Ethernet addresses, every datagram of its ten scenarios reaches
  the host that expects it with its lifetime counted down by one, the datagrams whose lifetime runs out reach nobody,
  and the program exits with status 0.\<close>

theorem network_simulator_succeeds:
  assumes "numeric_resolver getaddrinfo" and "set order = set host_names"
    and "distinct [sim_mac g 4, sim_mac g 11, sim_mac g 12]"
  shows "(\<exists>net g'. network_simulator getaddrinfo ub order g = Inr (net, g') \<and>
      (\<forall>name h. ne_hosts net name = Some h \<longrightarrow> ai_datagrams_out (ho_interface h) = [] \<and> ho_expecting_to_receive h = [])) \<and>
    main_exit getaddrinfo ub order g = 0"
proof -
  note m = sim_macs_ok[OF assms(3)]
  note adr = resolver_addresses[OF assms(1), unfolded sim_addresses_def list.pred_inject prod.case]
  note b = traffic_between_runs[OF m assms(2)] and t = traffic_to_runs[OF m assms(2)] and e = expiring_traffic_runs[OF m assms(2)]
  have "runs (sim_mac g) (\<lambda>s. rbind (traffic_between ub order ''applesauce'' ''cherrypie'' s) (\<lambda>s.
     rbind (traffic_between ub order ''cherrypie'' ''applesauce'' s) (\<lambda>s.
     rbind (traffic_to getaddrinfo ub order ''applesauce'' ''1.2.3.4'' ''default_router'' s) (\<lambda>s.
     rbind (traffic_to getaddrinfo ub order ''applesauce'' ''143.195.131.17'' ''hs_router'' s) (\<lambda>s.
     rbind (traffic_to getaddrinfo ub order ''cherrypie'' ''143.195.193.52'' ''hs_router'' s) (\<lambda>s.
     rbind (traffic_to getaddrinfo ub order ''cherrypie'' ''143.195.223.255'' ''hs_router'' s) (\<lambda>s.
     rbind (traffic_to getaddrinfo ub order ''cherrypie'' ''143.195.224.0'' ''default_router'' s) (\<lambda>s.
     rbind (traffic_between ub order ''dm42'' ''dm43'' s) (\<lambda>s.
     rbind (expiring_traffic getaddrinfo ub order ''applesauce'' ''1.2.3.4'' 1 s) (\<lambda>s.
       expiring_traffic getaddrinfo ub order ''applesauce'' ''1.2.3.4'' 0 s))))))))))" (is "runs _ ?F")
  proof (intro runs_then)
    show "runs (sim_mac g) (traffic_between ub order ''applesauce'' ''cherrypie'')"
      using b[of 8 1 ub 9 3] sim_routes sim_hops by simp
    show "runs (sim_mac g) (traffic_between ub order ''cherrypie'' ''applesauce'')"
      using b[of 9 3 ub 8 1] sim_routes sim_hops by simp
    show "runs (sim_mac g) (traffic_to getaddrinfo ub order ''applesauce'' ''1.2.3.4'' ''default_router'')"
      using t[of getaddrinfo _ "quad 1 2 3 4" 8 1 ub 0 7] adr sim_routes sim_hops by simp
    show "runs (sim_mac g) (traffic_to getaddrinfo ub order ''applesauce'' ''143.195.131.17'' ''hs_router'')"
      using t[of getaddrinfo _ "quad 143 195 131 17" 8 1 ub 5 10] adr sim_routes sim_hops by simp
    show "runs (sim_mac g) (traffic_to getaddrinfo ub order ''cherrypie'' ''143.195.193.52'' ''hs_router'')"
      using t[of getaddrinfo _ "quad 143 195 193 52" 9 3 ub 5 10] adr sim_routes sim_hops by simp
    show "runs (sim_mac g) (traffic_to getaddrinfo ub order ''cherrypie'' ''143.195.223.255'' ''hs_router'')"
      using t[of getaddrinfo _ "quad 143 195 223 255" 9 3 ub 5 10] adr sim_routes sim_hops by simp
    show "runs (sim_mac g) (traffic_to getaddrinfo ub order ''cherrypie'' ''143.195.224.0'' ''default_router'')"
      using t[of getaddrinfo _ "quad 143 195 224 0" 9 3 ub 0 7] adr sim_routes sim_hops by simp
    show "runs (sim_mac g) (traffic_between ub order ''dm42'' ''dm43'')"
      using b[of 11 4 ub 12 4] sim_routes sim_hops by simp
    show "runs (sim_mac g) (expiring_traffic getaddrinfo ub order ''applesauce'' ''1.2.3.4'' 1)"
      "runs (sim_mac g) (expiring_traffic getaddrinfo ub order ''applesauce'' ''1.2.3.4'' 0)"
      using e[of getaddrinfo "''1.2.3.4''" "quad 1 2 3 4" 8 1 _ ub] adr sim_hops by simp_all
  qed
  moreover have new: "network_simulator getaddrinfo ub order g = ?F (net_of (sim_start g) (\<lambda>_. []), after 78 g)"
    unfolding network_simulator_def Network_new_of[OF assms(1)] rbind_simps by (rule refl)
  ultimately obtain s g' where s: "network_simulator getaddrinfo ub order g = Inr (net_of s (\<lambda>_. []), g')" "quiet_network (sim_mac g) s"
    using start_quiet[of g] new unfolding runs_def by metis
  have "ai_datagrams_out (ho_interface h) = [] \<and> ho_expecting_to_receive h = []" if h: "ne_hosts (net_of s (\<lambda>_. [])) name = Some h" for name h
  proof -
    obtain i where i: "7 \<le> i" "i < 13" "name = host_name i" using h hosts_of_dom[of s "\<lambda>_. []" name] by (auto simp: net_of_def)
    then have "h = host_of i (s i) []" using h hosts_of_name[OF i(1,2), of s "\<lambda>_. []"] by (simp add: net_of_def)
    moreover have "dgs s i = []" using s(2) by (simp add: quiet_network_def)
    ultimately show ?thesis by (simp add: host_of_def dgs_def)
  qed
  then show ?thesis using s(1) by (simp add: main_exit_def)
qed

definition table_resolver :: resolver where
  "table_resolver node service hints = (case map_of sim_addresses node of None \<Rightarrow> Inl ''not numeric'' | Some a \<Rightarrow> Inr [ipv4_address a 0])"

theorem network_simulator_succeeds_witness:
  "main_exit table_resolver (\<lambda>_. 0) host_names (\<lambda>n. of_nat n) = 0"
proof -
  have "numeric_resolver table_resolver"
    by code_simp
  moreover have "distinct [sim_mac (\<lambda>n. of_nat n) 4, sim_mac (\<lambda>n. of_nat n) 11, sim_mac (\<lambda>n. of_nat n) 12]"
    by (simp add: sim_mac_def router_mac_def host_mac_def after_def)
  ultimately show ?thesis using network_simulator_succeeds[of table_resolver host_names "\<lambda>n. of_nat n" "\<lambda>_. 0"] by simp
qed

text \<open>The route to the last interface has address bits after its prefix, so that it never matches.\<close>

lemma mit_route_never_matches: "\<not> route_matches ub dst (sim_table ! 8)"
proof
  assume "route_matches ub dst (sim_table ! 8)"
  then have "and dst (- 65536) = 0x801e4cff" by (simp add: route_matches_def route_mask_def sim_table_def quad_def)
  then have "and (and dst (- 65536)) 1 = (1 :: u32)" by simp
  then show False by (simp add: and.assoc)
qed

end
