(* ===== verification/Command_Line.thy ===== *)
theory Command_Line
  imports Adapters TCP_Sender
begin

text \<open>
  The command lines of the programs (\<open>apps/tcp_ipv4.cc\<close>, \<open>tcp_udp.cc\<close>, \<open>tcp_ip_ethernet.cc\<close>, \<open>udp_tcpdump.cc\<close>): usage
  texts, options and positional arguments.  A program either goes on with a value or exits with a status and what
  it printed.  \<open>argv\<close> is the list of its arguments; reading past it is undefined.  \<open>getaddrinfo\<close>, the random
  source port and \<open>strtof\<close> are arguments.
\<close>

section \<open>Exits and arguments\<close>

datatype 'a outcome = Returns 'a | Exits int string

definition obind :: "'a outcome result \<Rightarrow> ('a \<Rightarrow> 'b outcome result) \<Rightarrow> 'b outcome result" where
  "obind m f = rbind m (\<lambda>r. case r of Exits status out \<Rightarrow> Inr (Exits status out) | Returns x \<Rightarrow> f x)"

definition arg :: "string list \<Rightarrow> nat \<Rightarrow> string result" where
  "arg argv i = (if i < length argv then Inr (argv ! i) else Inl (Undefined_behaviour ''read past argv''))"

text \<open>\<open>strncmp\<close> compares at most \<open>n\<close> characters, up to and including the terminating zero.\<close>

definition strncmp_eq :: "string \<Rightarrow> string \<Rightarrow> nat \<Rightarrow> bool" where
  "strncmp_eq a b n \<longleftrightarrow> take n (a @ [CHR 0x00]) = take n (b @ [CHR 0x00])"

section \<open>strtol and loss rates\<close>

definition isspace :: "char \<Rightarrow> bool" where
  "isspace c \<longleftrightarrow> c \<in> {CHR 0x20, CHR 0x09, CHR 0x0A, CHR 0x0B, CHR 0x0C, CHR 0x0D}"

definition digit_value :: "char \<Rightarrow> nat" where
  "digit_value c = (let n = of_char c :: nat in
     if 48 \<le> n \<and> n \<le> 57 then n - 48 else if 97 \<le> n \<and> n \<le> 122 then n - 87 else if 65 \<le> n \<and> n \<le> 90 then n - 55 else 36)"

definition digits_value :: "nat \<Rightarrow> string \<Rightarrow> nat" where
  "digits_value base s = foldl (\<lambda>v c. v * base + digit_value c) 0 (takeWhile (\<lambda>c. digit_value c < base) s)"

text \<open>With base 0 the prefix selects hexadecimal or octal; a value out of range is the nearest \<open>long\<close>.\<close>

definition unsigned_value :: "string \<Rightarrow> nat" where
  "unsigned_value s =
     (case s of
        c # x # d # r \<Rightarrow>
          if c = CHR ''0'' \<and> x \<in> {CHR ''x'', CHR ''X''} \<and> digit_value d < 16 then digits_value 16 (d # r)
          else if c = CHR ''0'' then digits_value 8 s else digits_value 10 s
      | c # r \<Rightarrow> if c = CHR ''0'' then digits_value 8 s else digits_value 10 s
      | [] \<Rightarrow> 0)"

definition strtol :: "string \<Rightarrow> int" where
  "strtol str =
     (let s = dropWhile isspace str;
          v = (case s of
                 c # r \<Rightarrow> if c = CHR ''-'' then - int (unsigned_value r)
                          else if c = CHR ''+'' then int (unsigned_value r) else int (unsigned_value s)
               | [] \<Rightarrow> 0)
      in if v > 2 ^ 63 - 1 then 2 ^ 63 - 1 else if v < - (2 ^ 63) then - (2 ^ 63) else v)"

text \<open>
  A finite \<open>float\<close> is a mantissa and an exponent of two; \<open>None\<close> is an infinity or not a number.  A product is
  rounded to 24 bits, ties to even.  Converting a value that does not fit \<open>uint16_t\<close> is undefined.
\<close>

type_synonym float_value = "(int \<times> int) option"

fun bit_length :: "nat \<Rightarrow> nat" where
  "bit_length n = (if n = 0 then 0 else 1 + bit_length (n div 2))"

declare bit_length.simps [simp del]

definition round_float :: "int \<times> int \<Rightarrow> int \<times> int" where
  "round_float = (\<lambda>(m, e).
     let a = nat (abs m); s = bit_length a - 24; q = a div 2 ^ s; r = a mod 2 ^ s;
         q = (if 2 * r > 2 ^ s \<or> 2 * r = 2 ^ s \<and> odd q then q + 1 else q)
     in (sgn m * int q, e + int s))"

definition float_mul :: "float_value \<Rightarrow> float_value \<Rightarrow> float_value" where
  "float_mul x y = (case (x, y) of (Some (m, e), Some (n, f)) \<Rightarrow> Some (round_float (m * n, e + f)) | _ \<Rightarrow> None)"

definition truncate_float :: "int \<times> int \<Rightarrow> int" where
  "truncate_float = (\<lambda>(m, e). if 0 \<le> e then m * 2 ^ nat e else sgn m * (abs m div 2 ^ nat (- e)))"

definition loss_rate :: "(string \<Rightarrow> float_value) \<Rightarrow> string \<Rightarrow> u16 result" where
  "loss_rate strtof s =
     (case float_mul (Some (65535, 0)) (strtof s) of
        None \<Rightarrow> Inl (Undefined_behaviour ''conversion out of range'')
      | Some v \<Rightarrow> let t = truncate_float v
                  in if 0 \<le> t \<and> t < 65536 then Inr (of_int t)
                     else Inl (Undefined_behaviour ''conversion out of range''))"

text \<open>What the options store: \<open>long\<close> to \<open>size_t\<close> and \<open>long\<close> to \<open>uint16_t\<close>.\<close>

definition set_window :: "string \<Rightarrow> tcp_config \<Rightarrow> tcp_config" where
  "set_window s c = c\<lparr>recv_capacity := nat (strtol s mod 2 ^ 64)\<rparr>"

definition set_timeout :: "string \<Rightarrow> tcp_config \<Rightarrow> tcp_config" where
  "set_timeout s c = c\<lparr>rt_timeout := of_int (strtol s)\<rparr>"

definition source_port_of :: "u32 \<Rightarrow> string" where
  "source_port_of r = dec_string (unat (ucast r :: u16))"

section \<open>The loop over the options\<close>

text \<open>
  \<open>while (argc - curr > 2)\<close>: one option per turn, which uses one or two arguments.
\<close>

datatype consumed = One_arg | Two_args

fun consumed_count :: "consumed \<Rightarrow> nat" where
  "consumed_count One_arg = 1"
| "consumed_count Two_args = 2"

function options_loop ::
  "(string list \<Rightarrow> nat \<Rightarrow> 's \<Rightarrow> (consumed \<times> 's) outcome result) \<Rightarrow> string list \<Rightarrow> nat \<Rightarrow> 's \<Rightarrow> (nat \<times> 's) outcome result" where
  "options_loop step argv cur s =
     (if cur + 2 < length argv then
        obind (step argv cur s) (\<lambda>(used, s). options_loop step argv (cur + consumed_count used) s)
      else Inr (Returns (cur, s)))"
  by pat_completeness auto

termination options_loop
proof (relation "measure (\<lambda>(step, argv, cur, s). length argv - cur)")
  fix step :: "string list \<Rightarrow> nat \<Rightarrow> 's \<Rightarrow> (consumed \<times> 's) outcome result" and argv cur s z used s'
  assume "cur + 2 < length argv"
  then show "((step, argv, cur + consumed_count used, s'), step, argv, cur, s) \<in> measure (\<lambda>(step, argv, cur, s). length argv - cur)"
    by (cases used) auto
qed simp

declare options_loop.simps [simp del]

definition with_msg :: "string \<Rightarrow> string option \<Rightarrow> string" where
  "with_msg text msg = text @ (case msg of None \<Rightarrow> [] | Some m \<Rightarrow> m) @ newline"

definition exits_with :: "(string \<Rightarrow> string option \<Rightarrow> string) \<Rightarrow> string list \<Rightarrow> int \<Rightarrow> string option \<Rightarrow> 'a outcome result" where
  "exits_with usage argv status msg = rbind (arg argv 0) (\<lambda>argv0. Inr (Exits status (usage argv0 msg)))"

definition check_argc :: "(string \<Rightarrow> string option \<Rightarrow> string) \<Rightarrow> string list \<Rightarrow> nat \<Rightarrow> string \<Rightarrow> unit outcome result" where
  "check_argc usage argv cur err =
     (if cur + 3 \<ge> length argv then exits_with usage argv 1 (Some err) else Inr (Returns ()))"

text \<open>An option with an argument.\<close>

definition with_argument ::
  "(string \<Rightarrow> string option \<Rightarrow> string) \<Rightarrow> string list \<Rightarrow> nat \<Rightarrow> string \<Rightarrow> (string \<Rightarrow> 's result) \<Rightarrow> (consumed \<times> 's) outcome result" where
  "with_argument usage argv cur err store =
     obind (check_argc usage argv cur err) (\<lambda>_.
     rbind (arg argv (cur + 1)) (\<lambda>a. rbind (store a) (\<lambda>s. Inr (Returns (Two_args, s)))))"

section \<open>tcp_ipv4\<close>

definition TUN_DFLT :: string where
  "TUN_DFLT = ''tun144''"

definition IPV4_LOCAL_ADDRESS_DFLT :: string where
  "IPV4_LOCAL_ADDRESS_DFLT = ''169.254.144.9''"

definition ipv4_usage :: "string \<Rightarrow> string option \<Rightarrow> string" where
  "ipv4_usage argv0 msg = with_msg (
     ''Usage: '' @ argv0 @ '' [options] <host> <port>'' @ newline @ newline @
     ''   Option                                                          Default'' @ newline @
     ''   --                                                              --'' @ newline @ newline @
     ''   -l              Server (listen) mode.                           (client mode)'' @ newline @
     ''                   In server mode, <host>:<port> is the address to bind.'' @ newline @ newline @
     ''   -a <addr>       Set source address (client mode only)           '' @ IPV4_LOCAL_ADDRESS_DFLT @ newline @
     ''   -s <port>       Set source port (client mode only)              (random)'' @ newline @ newline @
     ''   -w <winsz>      Use a window of <winsz> bytes                   '' @ dec_string MAX_PAYLOAD_SIZE @
     newline @ newline @ ''   -t <tmout>      Set rt_timeout to tmout                         '' @
     dec_string (unat TIMEOUT_DFLT) @ newline @ newline @
     ''   -d <tundev>     Connect to tun <tundev>                         '' @ TUN_DFLT @ newline @ newline @
     ''   -Lu <loss>      Set uplink loss to <rate> (float in 0..1)       (no loss)'' @ newline @
     ''   -Ld <loss>      Set downlink loss to <rate> (float in 0..1)     (no loss)'' @ newline @ newline @
     ''   -h              Show this message.'' @ newline @ newline) msg"

record ipv4_options =
  io_fsm :: tcp_config
  io_filt :: fd_adapter_config
  io_tundev :: "string option"
  io_listen :: bool
  io_source_address :: string
  io_source_port :: string

definition ipv4_option ::
  "(string \<Rightarrow> float_value) \<Rightarrow> string list \<Rightarrow> nat \<Rightarrow> ipv4_options \<Rightarrow> (consumed \<times> ipv4_options) outcome result" where
  "ipv4_option strtof argv cur s =
     rbind (arg argv cur) (\<lambda>opt.
       if strncmp_eq ''-l'' opt 3 then Inr (Returns (One_arg, s\<lparr>io_listen := True\<rparr>))
       else if strncmp_eq ''-a'' opt 3 then
         with_argument ipv4_usage argv cur ''ERROR: -a requires one argument.'' (\<lambda>a. Inr (s\<lparr>io_source_address := a\<rparr>))
       else if strncmp_eq ''-s'' opt 3 then
         with_argument ipv4_usage argv cur ''ERROR: -s requires one argument.'' (\<lambda>a. Inr (s\<lparr>io_source_port := a\<rparr>))
       else if strncmp_eq ''-w'' opt 3 then
         with_argument ipv4_usage argv cur ''ERROR: -w requires one argument.'' (\<lambda>a. Inr (s\<lparr>io_fsm := set_window a (io_fsm s)\<rparr>))
       else if strncmp_eq ''-t'' opt 3 then
         with_argument ipv4_usage argv cur ''ERROR: -t requires one argument.'' (\<lambda>a. Inr (s\<lparr>io_fsm := set_timeout a (io_fsm s)\<rparr>))
       else if strncmp_eq ''-d'' opt 3 then
         with_argument ipv4_usage argv cur ''ERROR: -t requires one argument.'' (\<lambda>a. Inr (s\<lparr>io_tundev := Some a\<rparr>))
       else if strncmp_eq ''-Lu'' opt 3 then
         with_argument ipv4_usage argv cur ''ERROR: -Lu requires one argument.''
           (\<lambda>a. rbind (loss_rate strtof a) (\<lambda>r. Inr (s\<lparr>io_filt := (io_filt s)\<lparr>cfg_loss_rate_up := r\<rparr>\<rparr>)))
       else if strncmp_eq ''-Ld'' opt 3 then
         with_argument ipv4_usage argv cur ''ERROR: -Lu requires one argument.''
           (\<lambda>a. rbind (loss_rate strtof a) (\<lambda>r. Inr (s\<lparr>io_filt := (io_filt s)\<lparr>cfg_loss_rate_dn := r\<rparr>\<rparr>)))
       else if strncmp_eq ''-h'' opt 3 then exits_with ipv4_usage argv 0 None
       else exits_with ipv4_usage argv 1 (Some (''ERROR: unrecognized option '' @ opt)))"

definition ipv4_positional ::
  "resolver \<Rightarrow> string list \<Rightarrow> nat \<Rightarrow> ipv4_options \<Rightarrow> (tcp_config \<times> fd_adapter_config \<times> bool \<times> string option) outcome result" where
  "ipv4_positional getaddrinfo argv cur s =
     (if io_listen s then
        rbind (arg argv (cur + 1)) (\<lambda>service.
        rbind (Address_of_host getaddrinfo ''0'' service) (\<lambda>source.
        rbind (Address_port source) (\<lambda>port.
          if port = 0 then exits_with ipv4_usage argv 1 (Some ''ERROR: listen port cannot be zero in server mode.'')
          else Inr (Returns (io_fsm s, (io_filt s)\<lparr>cfg_source := source\<rparr>, True, io_tundev s)))))
      else
        rbind (arg argv cur) (\<lambda>node.
        rbind (arg argv (cur + 1)) (\<lambda>service.
        rbind (Address_of_host getaddrinfo node service) (\<lambda>destination.
        rbind (Address_of_host getaddrinfo (io_source_address s) (io_source_port s)) (\<lambda>source.
          Inr (Returns (io_fsm s, (io_filt s)\<lparr>cfg_destination := destination, cfg_source := source\<rparr>, False, io_tundev s)))))))"

definition ipv4_get_config ::
  "resolver \<Rightarrow> (string \<Rightarrow> float_value) \<Rightarrow> u32 \<Rightarrow> string list \<Rightarrow>
   (tcp_config \<times> fd_adapter_config \<times> bool \<times> string option) outcome result" where
  "ipv4_get_config getaddrinfo strtof random_value argv =
     rbind (FdAdapterConfig_default getaddrinfo) (\<lambda>c_filt.
     obind (options_loop (ipv4_option strtof) argv 1
              \<lparr>io_fsm = TCPConfig_default, io_filt = c_filt, io_tundev = None, io_listen = False,
               io_source_address = IPV4_LOCAL_ADDRESS_DFLT, io_source_port = source_port_of random_value\<rparr>)
       (\<lambda>(cur, s). ipv4_positional getaddrinfo argv cur s))"

section \<open>tcp_udp\<close>

definition udp_usage :: "string \<Rightarrow> string option \<Rightarrow> string" where
  "udp_usage argv0 msg = with_msg (
     ''Usage: '' @ argv0 @ '' [options] <host> <port>'' @ newline @ newline @
     ''   Option                                                          Default'' @ newline @
     ''   --                                                              --'' @ newline @ newline @
     ''   -l              Server (listen) mode.                           (client mode)'' @ newline @
     ''                   In server mode, <host>:<port> is the address to bind.'' @ newline @ newline @
     ''   -w <winsz>      Use a window of <winsz> bytes                   '' @ dec_string MAX_PAYLOAD_SIZE @
     newline @ newline @ ''   -t <tmout>      Set rt_timeout to tmout                         '' @
     dec_string (unat TIMEOUT_DFLT) @ newline @ newline @
     ''   -Lu <loss>      Set uplink loss to <rate> (float in 0..1)       (no loss)'' @ newline @
     ''   -Ld <loss>      Set downlink loss to <rate> (float in 0..1)     (no loss)'' @ newline @ newline @
     ''   -h              Show this message and quit.'' @ newline @ newline) msg"

record udp_options =
  uo_fsm :: tcp_config
  uo_filt :: fd_adapter_config
  uo_listen :: bool

definition udp_option ::
  "(string \<Rightarrow> float_value) \<Rightarrow> string list \<Rightarrow> nat \<Rightarrow> udp_options \<Rightarrow> (consumed \<times> udp_options) outcome result" where
  "udp_option strtof argv cur s =
     rbind (arg argv cur) (\<lambda>opt.
       if strncmp_eq ''-l'' opt 3 then Inr (Returns (One_arg, s\<lparr>uo_listen := True\<rparr>))
       else if strncmp_eq ''-w'' opt 3 then
         with_argument udp_usage argv cur ''ERROR: -w requires one argument.'' (\<lambda>a. Inr (s\<lparr>uo_fsm := set_window a (uo_fsm s)\<rparr>))
       else if strncmp_eq ''-t'' opt 3 then
         with_argument udp_usage argv cur ''ERROR: -t requires one argument.'' (\<lambda>a. Inr (s\<lparr>uo_fsm := set_timeout a (uo_fsm s)\<rparr>))
       else if strncmp_eq ''-Lu'' opt 3 then
         with_argument udp_usage argv cur ''ERROR: -Lu requires one argument.''
           (\<lambda>a. rbind (loss_rate strtof a) (\<lambda>r. Inr (s\<lparr>uo_filt := (uo_filt s)\<lparr>cfg_loss_rate_up := r\<rparr>\<rparr>)))
       else if strncmp_eq ''-Ld'' opt 3 then
         with_argument udp_usage argv cur ''ERROR: -Lu requires one argument.''
           (\<lambda>a. rbind (loss_rate strtof a) (\<lambda>r. Inr (s\<lparr>uo_filt := (uo_filt s)\<lparr>cfg_loss_rate_dn := r\<rparr>\<rparr>)))
       else if strncmp_eq ''-h'' opt 3 then exits_with udp_usage argv 0 None
       else exits_with udp_usage argv 1 (Some (''ERROR: unrecognized option '' @ opt)))"

definition udp_positional ::
  "resolver \<Rightarrow> string list \<Rightarrow> udp_options \<Rightarrow> (tcp_config \<times> fd_adapter_config \<times> bool) outcome result" where
  "udp_positional getaddrinfo argv s =
     (if length argv < 2 then Inl (Undefined_behaviour ''read before argv'')
      else if uo_listen s then
        rbind (arg argv (length argv - 1)) (\<lambda>service.
        rbind (Address_of_host getaddrinfo ''0'' service) (\<lambda>source.
          Inr (Returns (uo_fsm s, (uo_filt s)\<lparr>cfg_source := source\<rparr>, True))))
      else
        rbind (arg argv (length argv - 2)) (\<lambda>node.
        rbind (arg argv (length argv - 1)) (\<lambda>service.
        rbind (Address_of_host getaddrinfo node service) (\<lambda>destination.
          Inr (Returns (uo_fsm s, (uo_filt s)\<lparr>cfg_destination := destination\<rparr>, False))))))"

definition udp_get_config ::
  "resolver \<Rightarrow> (string \<Rightarrow> float_value) \<Rightarrow> string list \<Rightarrow> (tcp_config \<times> fd_adapter_config \<times> bool) outcome result" where
  "udp_get_config getaddrinfo strtof argv =
     rbind (FdAdapterConfig_default getaddrinfo) (\<lambda>c_filt.
     obind (options_loop (udp_option strtof) argv 1 \<lparr>uo_fsm = TCPConfig_default, uo_filt = c_filt, uo_listen = False\<rparr>)
       (\<lambda>(cur, s). udp_positional getaddrinfo argv s))"

section \<open>tcp_ip_ethernet\<close>

definition TAP_DFLT :: string where
  "TAP_DFLT = ''tap10''"

definition ETHERNET_LOCAL_ADDRESS_DFLT :: string where
  "ETHERNET_LOCAL_ADDRESS_DFLT = ''169.254.10.9''"

definition GATEWAY_DFLT :: string where
  "GATEWAY_DFLT = ''169.254.10.1''"

definition ethernet_usage :: "string \<Rightarrow> string option \<Rightarrow> string" where
  "ethernet_usage argv0 msg = with_msg (
     ''Usage: '' @ argv0 @ '' [options] <host> <port>'' @ newline @ newline @
     ''   Option                                                          Default'' @ newline @
     ''   --                                                              --'' @ newline @ newline @
     ''   -a <addr>       Set IP source address (client mode only)        '' @ ETHERNET_LOCAL_ADDRESS_DFLT @
     newline @
     ''   -s <port>       Set TCP source port (client mode only)          (random)'' @ newline @ newline @
     ''   -n <addr>       Set IP next-hop address                         '' @ GATEWAY_DFLT @ newline @
     ''   -w <winsz>      Use a window of <winsz> bytes                   '' @ dec_string MAX_PAYLOAD_SIZE @
     newline @ newline @ ''   -t <tmout>      Set rt_timeout to tmout                         '' @
     dec_string (unat TIMEOUT_DFLT) @ newline @ newline @
     ''   -d <tapdev>     Connect to tap <tapdev>                         '' @ TAP_DFLT @ newline @ newline @
     ''   -h              Show this message.'' @ newline @ newline) msg"

record ethernet_options =
  eo_fsm :: tcp_config
  eo_filt :: fd_adapter_config
  eo_tapdev :: string
  eo_source_address :: string
  eo_source_port :: string
  eo_next_hop_address :: string

definition ethernet_option ::
  "string list \<Rightarrow> nat \<Rightarrow> ethernet_options \<Rightarrow> (consumed \<times> ethernet_options) outcome result" where
  "ethernet_option argv cur s =
     rbind (arg argv cur) (\<lambda>opt.
       if strncmp_eq ''-a'' opt 3 then
         with_argument ethernet_usage argv cur ''ERROR: -a requires one argument.'' (\<lambda>a. Inr (s\<lparr>eo_source_address := a\<rparr>))
       else if strncmp_eq ''-s'' opt 3 then
         with_argument ethernet_usage argv cur ''ERROR: -s requires one argument.'' (\<lambda>a. Inr (s\<lparr>eo_source_port := a\<rparr>))
       else if strncmp_eq ''-n'' opt 3 then
         with_argument ethernet_usage argv cur ''ERROR: -n requires one argument.'' (\<lambda>a. Inr (s\<lparr>eo_next_hop_address := a\<rparr>))
       else if strncmp_eq ''-w'' opt 3 then
         with_argument ethernet_usage argv cur ''ERROR: -w requires one argument.'' (\<lambda>a. Inr (s\<lparr>eo_fsm := set_window a (eo_fsm s)\<rparr>))
       else if strncmp_eq ''-t'' opt 3 then
         with_argument ethernet_usage argv cur ''ERROR: -t requires one argument.'' (\<lambda>a. Inr (s\<lparr>eo_fsm := set_timeout a (eo_fsm s)\<rparr>))
       else if strncmp_eq ''-d'' opt 3 then
         with_argument ethernet_usage argv cur ''ERROR: -t requires one argument.'' (\<lambda>a. Inr (s\<lparr>eo_tapdev := a\<rparr>))
       else if strncmp_eq ''-h'' opt 3 then exits_with ethernet_usage argv 0 None
       else exits_with ethernet_usage argv 1 (Some (''ERROR: unrecognized option '' @ opt)))"

definition ethernet_positional ::
  "resolver \<Rightarrow> string list \<Rightarrow> nat \<Rightarrow> ethernet_options \<Rightarrow> (tcp_config \<times> fd_adapter_config \<times> address \<times> string) outcome result" where
  "ethernet_positional getaddrinfo argv cur s =
     rbind (arg argv cur) (\<lambda>node.
     rbind (arg argv (cur + 1)) (\<lambda>service.
     rbind (Address_of_host getaddrinfo node service) (\<lambda>destination.
     rbind (Address_of_host getaddrinfo (eo_source_address s) (eo_source_port s)) (\<lambda>source.
     rbind (Address_of_host getaddrinfo (eo_next_hop_address s) ''0'') (\<lambda>next_hop.
       Inr (Returns (eo_fsm s, (eo_filt s)\<lparr>cfg_destination := destination, cfg_source := source\<rparr>, next_hop, eo_tapdev s)))))))"

definition ethernet_get_config ::
  "resolver \<Rightarrow> u32 \<Rightarrow> string list \<Rightarrow> (tcp_config \<times> fd_adapter_config \<times> address \<times> string) outcome result" where
  "ethernet_get_config getaddrinfo random_value argv =
     rbind (FdAdapterConfig_default getaddrinfo) (\<lambda>c_filt.
     obind (options_loop ethernet_option argv 1
              \<lparr>eo_fsm = TCPConfig_default, eo_filt = c_filt, eo_tapdev = TAP_DFLT,
               eo_source_address = ETHERNET_LOCAL_ADDRESS_DFLT, eo_source_port = source_port_of random_value,
               eo_next_hop_address = GATEWAY_DFLT\<rparr>)
       (\<lambda>(cur, s). ethernet_positional getaddrinfo argv cur s))"

section \<open>main\<close>

text \<open>
  The socket runs in two threads, so its operations are arguments here: opening it on a device,
  \<open>listen_and_accept\<close>, \<open>connect\<close>, \<open>bidirectional_stream_copy\<close> and \<open>wait_until_closed\<close>.  An exception gives status
  1, and so do missing arguments.
\<close>

record 's socket_calls =
  sc_listen_and_accept :: "'s \<Rightarrow> tcp_config \<Rightarrow> fd_adapter_config \<Rightarrow> 's result"
  sc_connect :: "'s \<Rightarrow> tcp_config \<Rightarrow> fd_adapter_config \<Rightarrow> 's result"
  sc_copy :: "'s \<Rightarrow> 's result"
  sc_wait_until_closed :: "'s \<Rightarrow> 's result"

definition socket_session ::
  "'s socket_calls \<Rightarrow> 's result \<Rightarrow> bool \<Rightarrow> tcp_config \<Rightarrow> fd_adapter_config \<Rightarrow> 's result" where
  "socket_session calls tcp_socket listen c_fsm c_filt =
     rbind tcp_socket (\<lambda>s.
     rbind (if listen then sc_listen_and_accept calls s c_fsm c_filt else sc_connect calls s c_fsm c_filt) (\<lambda>s.
     rbind (sc_copy calls s) (sc_wait_until_closed calls)))"

definition main_status :: "string list \<Rightarrow> 'c outcome result \<Rightarrow> ('c \<Rightarrow> 's result) \<Rightarrow> int" where
  "main_status argv config session =
     (if length argv < 3 then 1
      else case config of
        Inl e \<Rightarrow> 1
      | Inr (Exits status out) \<Rightarrow> status
      | Inr (Returns c) \<Rightarrow> (case session c of Inl e \<Rightarrow> 1 | Inr _ \<Rightarrow> 0))"

definition ipv4_main :: "resolver \<Rightarrow> (string \<Rightarrow> float_value) \<Rightarrow> u32 \<Rightarrow> (string \<Rightarrow> 's result) \<Rightarrow> 's socket_calls \<Rightarrow>
  string list \<Rightarrow> int" where
  "ipv4_main getaddrinfo strtof random_value tun_socket calls argv =
     main_status argv (ipv4_get_config getaddrinfo strtof random_value argv)
       (\<lambda>(c_fsm, c_filt, listen, tun_dev_name).
          socket_session calls (tun_socket (case tun_dev_name of None \<Rightarrow> TUN_DFLT | Some d \<Rightarrow> d)) listen c_fsm c_filt)"

text \<open>The UDP socket is bound in server mode only.\<close>

definition udp_main :: "resolver \<Rightarrow> (string \<Rightarrow> float_value) \<Rightarrow> (address option \<Rightarrow> 's result) \<Rightarrow> 's socket_calls \<Rightarrow>
  string list \<Rightarrow> int" where
  "udp_main getaddrinfo strtof udp_socket calls argv =
     main_status argv (udp_get_config getaddrinfo strtof argv)
       (\<lambda>(c_fsm, c_filt, listen).
          socket_session calls (udp_socket (if listen then Some (cfg_source c_filt) else None)) listen c_fsm c_filt)"

definition private_ethernet_address :: "(nat \<Rightarrow> u32) \<Rightarrow> ethernet_address" where
  "private_ethernet_address random_values =
     (let addr = map (\<lambda>i. ucast (random_values i)) [0..<6];
          addr = addr[0 := or (addr ! 0) 0x02]
      in addr[0 := and (addr ! 0) 0xfe])"

text \<open>Six random values make the Ethernet address, the next one the source port.\<close>

definition ethernet_main :: "resolver \<Rightarrow> (nat \<Rightarrow> u32) \<Rightarrow>
  (string \<Rightarrow> ethernet_address \<Rightarrow> address \<Rightarrow> address \<Rightarrow> 's result) \<Rightarrow> 's socket_calls \<Rightarrow> string list \<Rightarrow> int" where
  "ethernet_main getaddrinfo random_values tap_socket calls argv =
     (let local_ethernet_address = private_ethernet_address random_values
      in main_status argv (ethernet_get_config getaddrinfo (random_values 6) argv)
           (\<lambda>(c_fsm, c_filt, next_hop, tap_dev_name).
              socket_session calls (tap_socket tap_dev_name local_ethernet_address (cfg_source c_filt) next_hop)
                False c_fsm c_filt))"

section \<open>udp_tcpdump\<close>

definition dump_usage :: "string \<Rightarrow> string option \<Rightarrow> string" where
  "dump_usage argv0 msg =
     ''Usage: '' @ argv0 @ '' [-i <intf>] [-F <file>] [-h|--help] <expression>'' @ newline @ newline @
     ''  -i <intf>    only capture packets from <intf> (default: all)'' @ newline @ newline @
     ''  -F <file>    reads in a filter expression from <file>'' @ newline @
     ''               <expression> is ignored if -F is supplied.'' @ newline @ newline @
     ''  -h, --help   show this message'' @ newline @ newline @
     ''  <expression> a filter expression in pcap-filter(7) syntax'' @ newline @
     (case msg of None \<Rightarrow> [] | Some m \<Rightarrow> newline @ m) @ newline"

definition check_arg :: "string list \<Rightarrow> nat \<Rightarrow> string \<Rightarrow> unit outcome result" where
  "check_arg argv cur errmsg = (if cur + 1 \<ge> length argv then exits_with dump_usage argv 1 (Some errmsg) else Inr (Returns ()))"

text \<open>The device, and where the filter expression starts.\<close>

function parse_arguments :: "string list \<Rightarrow> nat \<Rightarrow> string option \<Rightarrow> (nat \<times> string option) outcome result" where
  "parse_arguments argv cur dev =
     (if cur < length argv then
        rbind (arg argv cur) (\<lambda>opt.
          if strncmp_eq ''-i'' opt 3 then
            obind (check_arg argv cur ''ERROR: -i requires an argument'') (\<lambda>_.
            rbind (arg argv (cur + 1)) (\<lambda>d. parse_arguments argv (cur + 2) (Some d)))
          else if strncmp_eq ''-h'' opt 3 \<or> strncmp_eq ''--help'' opt 7 then exits_with dump_usage argv 0 None
          else Inr (Returns (cur, dev)))
      else Inr (Returns (cur, dev)))"
  by pat_completeness auto

termination parse_arguments
  by (relation "measure (\<lambda>(argv, cur, dev). length argv - cur)") auto

declare parse_arguments.simps [simp del]

text \<open>The filter expression: the other arguments, each followed by a space.\<close>

definition filter_expression :: "string list \<Rightarrow> nat \<Rightarrow> string" where
  "filter_expression argv exp_start = concat (map (\<lambda>a. a @ '' '') (drop exp_start argv))"

section \<open>Lemmas\<close>

lemma obind_Inr [simp]: "obind (Inr (Returns x)) f = f x" "obind (Inr (Exits n t)) f = Inr (Exits n t)" "obind (Inl e) f = Inl e"
  by (simp_all add: obind_def)

lemma obind_Returns: "obind m f = Inr (Returns y) \<longleftrightarrow> (\<exists>x. m = Inr (Returns x) \<and> f x = Inr (Returns y))"
proof (cases m)
  case (Inr r) then show ?thesis by (cases r) simp_all
qed simp

lemma obind_Inl: "obind m f = Inl e \<longleftrightarrow> m = Inl e \<or> (\<exists>x. m = Inr (Returns x) \<and> f x = Inl e)"
proof (cases m)
  case (Inr r) then show ?thesis by (cases r) simp_all
qed simp

text \<open>An option that takes an argument leaves two more; the only failure is that of its conversion.\<close>

lemma with_argument_two:
  "with_argument usage argv cur err store = Inr (Returns (used, s')) \<Longrightarrow> used = Two_args \<and> cur + 3 < length argv"
  by (auto simp: with_argument_def check_argc_def exits_with_def arg_def rbind_Inr_conv split: if_splits)

lemma with_argument_error:
  "cur + 2 < length argv \<Longrightarrow> with_argument usage argv cur err store = Inl e \<Longrightarrow> \<exists>a. store a = Inl e"
  by (cases "store (argv ! Suc cur)") (auto simp: with_argument_def check_argc_def exits_with_def arg_def split: if_splits)

lemma exits_with_exits: "argv \<noteq> [] \<Longrightarrow> exits_with usage argv status msg = Inr (Exits status (usage (argv ! 0) msg))"
  by (simp add: exits_with_def arg_def)

lemma loss_rate_error: "loss_rate strtof a = Inl e \<Longrightarrow> e = Undefined_behaviour ''conversion out of range''"
  by (auto simp: loss_rate_def Let_def split: option.splits if_splits)

text \<open>
  The contract between one option and the loop: an option that uses two arguments leaves at least two, and
  nothing but a conversion fails.
\<close>

locale option_program =
  fixes step :: "string list \<Rightarrow> nat \<Rightarrow> 's \<Rightarrow> (consumed \<times> 's) outcome result"
  assumes step_two: "cur + 2 < length argv \<Longrightarrow> step argv cur s = Inr (Returns (Two_args, s')) \<Longrightarrow> cur + 3 < length argv"
    and step_error: "cur + 2 < length argv \<Longrightarrow> step argv cur s = Inl e \<Longrightarrow> e = Undefined_behaviour ''conversion out of range''"
begin

lemma step_leaves_two:
  assumes "cur + 2 < length argv" "step argv cur s = Inr (Returns (used, s'))" shows "cur + consumed_count used + 2 \<le> length argv"
  using step_two[OF assms(1), of s s'] assms by (cases used) auto

lemma loop_leaves_two:
  "cur + 2 \<le> length argv \<Longrightarrow> options_loop step argv cur s = Inr (Returns (cur', s')) \<Longrightarrow> cur' + 2 = length argv"
proof (induction "length argv - cur" arbitrary: cur s rule: less_induct)
  case less
  show ?case
  proof (cases "cur + 2 < length argv")
    case True
    then obtain used s1 where st: "step argv cur s = Inr (Returns (used, s1))"
        and r: "options_loop step argv (cur + consumed_count used) s1 = Inr (Returns (cur', s'))"
      using less.prems(2) unfolding options_loop.simps[of step argv cur s]
      by (auto simp: obind_Returns)
    have "length argv - (cur + consumed_count used) < length argv - cur" using True by (cases used) auto
    from less.hyps[OF this step_leaves_two[OF True st] r] show ?thesis .
  next
    case False
    then show ?thesis using less.prems unfolding options_loop.simps[of step argv cur s] by simp
  qed
qed

lemma loop_error:
  "cur + 2 \<le> length argv \<Longrightarrow> options_loop step argv cur s = Inl e \<Longrightarrow> e = Undefined_behaviour ''conversion out of range''"
proof (induction "length argv - cur" arbitrary: cur s rule: less_induct)
  case less
  have lt: "cur + 2 < length argv" using less.prems(2) unfolding options_loop.simps[of step argv cur s] by (auto split: if_splits)
  then consider "step argv cur s = Inl e"
    | used s1 where "step argv cur s = Inr (Returns (used, s1))" "options_loop step argv (cur + consumed_count used) s1 = Inl e"
    using less.prems(2) unfolding options_loop.simps[of step argv cur s]
    by (auto simp: obind_Inl)
  then show ?case
  proof cases
    case 1 then show ?thesis using step_error[OF lt] by blast
  next
    case 2
    have "length argv - (cur + consumed_count used) < length argv - cur" using lt by (cases used) auto
    from less.hyps[OF this step_leaves_two[OF lt 2(1)] 2(2)] show ?thesis .
  qed
qed

end

interpretation ipv4_program: option_program "ipv4_option strtof" for strtof
proof
  fix cur :: nat and argv :: "string list" and s s' :: ipv4_options and e
  assume c: "cur + 2 < length argv"
  then have a: "arg argv cur = Inr (argv ! cur)" "argv \<noteq> []" by (auto simp: arg_def)
  show "ipv4_option strtof argv cur s = Inr (Returns (Two_args, s')) \<Longrightarrow> cur + 3 < length argv"
    by (auto simp: ipv4_option_def a exits_with_exits dest: with_argument_two split: if_splits)
  show "ipv4_option strtof argv cur s = Inl e \<Longrightarrow> e = Undefined_behaviour ''conversion out of range''"
    by (auto simp: ipv4_option_def a exits_with_exits rbind_def dest!: with_argument_error[OF c] loss_rate_error split: if_splits sum.splits)
qed

interpretation udp_program: option_program "udp_option strtof" for strtof
proof
  fix cur :: nat and argv :: "string list" and s s' :: udp_options and e
  assume c: "cur + 2 < length argv"
  then have a: "arg argv cur = Inr (argv ! cur)" "argv \<noteq> []" by (auto simp: arg_def)
  show "udp_option strtof argv cur s = Inr (Returns (Two_args, s')) \<Longrightarrow> cur + 3 < length argv"
    by (auto simp: udp_option_def a exits_with_exits dest: with_argument_two split: if_splits)
  show "udp_option strtof argv cur s = Inl e \<Longrightarrow> e = Undefined_behaviour ''conversion out of range''"
    by (auto simp: udp_option_def a exits_with_exits rbind_def dest!: with_argument_error[OF c] loss_rate_error split: if_splits sum.splits)
qed

interpretation ethernet_program: option_program ethernet_option
proof
  fix cur :: nat and argv :: "string list" and s s' :: ethernet_options and e
  assume c: "cur + 2 < length argv"
  then have a: "arg argv cur = Inr (argv ! cur)" "argv \<noteq> []" by (auto simp: arg_def)
  show "ethernet_option argv cur s = Inr (Returns (Two_args, s')) \<Longrightarrow> cur + 3 < length argv"
    by (auto simp: ethernet_option_def a exits_with_exits dest: with_argument_two split: if_splits)
  show "ethernet_option argv cur s = Inl e \<Longrightarrow> e = Undefined_behaviour ''conversion out of range''"
    by (auto simp: ethernet_option_def a exits_with_exits rbind_def dest!: with_argument_error[OF c] loss_rate_error split: if_splits sum.splits)
qed

text \<open>What else may fail is the resolver.\<close>

lemma Address_of_host_error: "Address_of_host getaddrinfo node service = Inl e \<Longrightarrow> \<exists>m. e = Runtime_error m"
  by (auto simp: Address_of_host_def Address_resolve_def Address_of_sockaddr_def split: sum.splits list.splits if_splits)

lemma FdAdapterConfig_error: "FdAdapterConfig_default getaddrinfo = Inl e \<Longrightarrow> \<exists>m. e = Runtime_error m"
  by (auto simp: FdAdapterConfig_default_def Address_of_ip_port_def Address_resolve_def Address_of_sockaddr_def rbind_def
      split: sum.splits list.splits if_splits)

lemma Address_port_error: "Address_port a = Inl e \<Longrightarrow> \<exists>m. e = Runtime_error m"
  by (auto simp: Address_port_def Address_ip_port_def rbind_def split: sum.splits if_splits)

definition reads_inside :: "'a result \<Rightarrow> bool" where
  "reads_inside m \<longleftrightarrow> (\<forall>e. m = Inl e \<longrightarrow> (\<exists>msg. e = Runtime_error msg) \<or> e = Undefined_behaviour ''conversion out of range'')"

lemmas address_errors = Address_of_host_error FdAdapterConfig_error Address_port_error

lemma ipv4_positional_ok:
  assumes "cur + 2 = length argv"
  shows "reads_inside (ipv4_positional getaddrinfo argv cur s)" and
    "ipv4_positional getaddrinfo argv cur s = Inr (Returns (fsm, filt, False, dev)) \<Longrightarrow>
     Address_of_host getaddrinfo (argv ! (length argv - 2)) (argv ! (length argv - 1)) = Inr (cfg_destination filt)"
proof -
  have a: "arg argv cur = Inr (argv ! (length argv - 2))" "arg argv (cur + 1) = Inr (argv ! (length argv - 1))"
    using assms by (auto simp: arg_def simp flip: assms)
  have ne: "argv \<noteq> []" using assms by auto
  show "reads_inside (ipv4_positional getaddrinfo argv cur s)"
    unfolding ipv4_positional_def a reads_inside_def
    by (auto simp: a exits_with_exits[OF ne] rbind_def split: sum.splits if_splits dest!: address_errors)
  show "ipv4_positional getaddrinfo argv cur s = Inr (Returns (fsm, filt, False, dev)) \<Longrightarrow>
     Address_of_host getaddrinfo (argv ! (length argv - 2)) (argv ! (length argv - 1)) = Inr (cfg_destination filt)"
    unfolding ipv4_positional_def a by (auto simp: a exits_with_exits[OF ne] rbind_Inr_conv split: if_splits)
qed

lemma ethernet_positional_ok:
  assumes "cur + 2 = length argv"
  shows "reads_inside (ethernet_positional getaddrinfo argv cur s)" and
    "ethernet_positional getaddrinfo argv cur s = Inr (Returns (fsm, filt, hop, dev)) \<Longrightarrow>
     Address_of_host getaddrinfo (argv ! (length argv - 2)) (argv ! (length argv - 1)) = Inr (cfg_destination filt)"
proof -
  have a: "arg argv cur = Inr (argv ! (length argv - 2))" "arg argv (cur + 1) = Inr (argv ! (length argv - 1))"
    using assms by (auto simp: arg_def simp flip: assms)
  show "reads_inside (ethernet_positional getaddrinfo argv cur s)"
    unfolding ethernet_positional_def a reads_inside_def by (auto simp: rbind_def split: sum.splits dest!: address_errors)
  show "ethernet_positional getaddrinfo argv cur s = Inr (Returns (fsm, filt, hop, dev)) \<Longrightarrow>
     Address_of_host getaddrinfo (argv ! (length argv - 2)) (argv ! (length argv - 1)) = Inr (cfg_destination filt)"
    unfolding ethernet_positional_def a by (auto simp: rbind_Inr_conv)
qed

lemma udp_positional_ok:
  assumes "2 \<le> length argv"
  shows "reads_inside (udp_positional getaddrinfo argv s)" and
    "udp_positional getaddrinfo argv s = Inr (Returns (fsm, filt, False)) \<Longrightarrow>
     Address_of_host getaddrinfo (argv ! (length argv - 2)) (argv ! (length argv - 1)) = Inr (cfg_destination filt)"
proof -
  have a: "arg argv (length argv - 2) = Inr (argv ! (length argv - 2))" "arg argv (length argv - 1) = Inr (argv ! (length argv - 1))"
    using assms by (auto simp: arg_def)
  show "reads_inside (udp_positional getaddrinfo argv s)"
    unfolding udp_positional_def a reads_inside_def using assms by (auto simp: rbind_def split: sum.splits dest!: address_errors)
  show "udp_positional getaddrinfo argv s = Inr (Returns (fsm, filt, False)) \<Longrightarrow>
     Address_of_host getaddrinfo (argv ! (length argv - 2)) (argv ! (length argv - 1)) = Inr (cfg_destination filt)"
    unfolding udp_positional_def a using assms by (auto simp: rbind_Inr_conv split: if_splits)
qed

section \<open>Properties\<close>

text \<open>C40: given at least two arguments, the three TCP programs read only the arguments they were given: nothing
  fails but the resolver and a loss rate out of range; and in client mode the last two arguments are the host and
  port connected to, whatever options precede them.\<close>

theorem command_lines_read_inside:
  assumes "3 \<le> length argv"
  shows "reads_inside (ipv4_get_config getaddrinfo strtof r argv) \<and> reads_inside (udp_get_config getaddrinfo strtof argv) \<and>
    reads_inside (ethernet_get_config getaddrinfo r argv) \<and>
    (\<forall>fsm filt dev hop tap.
       ipv4_get_config getaddrinfo strtof r argv = Inr (Returns (fsm, filt, False, dev)) \<or>
       udp_get_config getaddrinfo strtof argv = Inr (Returns (fsm, filt, False)) \<or>
       ethernet_get_config getaddrinfo r argv = Inr (Returns (fsm, filt, hop, tap)) \<longrightarrow>
       Address_of_host getaddrinfo (argv ! (length argv - 2)) (argv ! (length argv - 1)) = Inr (cfg_destination filt))"
proof (intro conjI allI impI)
  have c: "1 + 2 \<le> length argv" using assms by simp
  have i: "reads_inside (obind (options_loop step argv 1 s) k)"
    if "\<And>cur s'. options_loop step argv 1 s = Inr (Returns (cur, s')) \<Longrightarrow> reads_inside (k (cur, s'))"
      "\<And>e. options_loop step argv 1 s = Inl e \<Longrightarrow> e = Undefined_behaviour ''conversion out of range''"
    for step and s :: 's and k :: "nat \<times> 's \<Rightarrow> 'c outcome result"
    using that unfolding reads_inside_def by (auto simp: obind_Inl)
  have f: "reads_inside (rbind (FdAdapterConfig_default getaddrinfo) k)" if "\<And>filt. reads_inside (k filt)" for k :: "_ \<Rightarrow> 'c outcome result"
    using that unfolding reads_inside_def rbind_def by (auto split: sum.splits dest: FdAdapterConfig_error)
  show "reads_inside (ipv4_get_config getaddrinfo strtof r argv)"
    unfolding ipv4_get_config_def
    by (intro f i) (auto intro: ipv4_positional_ok(1) dest: ipv4_program.loop_leaves_two[OF c] ipv4_program.loop_error[OF c] simp del: One_nat_def)
  show "reads_inside (udp_get_config getaddrinfo strtof argv)"
    unfolding udp_get_config_def using assms
    by (intro f i) (auto intro: udp_positional_ok(1) dest: udp_program.loop_error[OF c] simp del: One_nat_def)
  show "reads_inside (ethernet_get_config getaddrinfo r argv)"
    unfolding ethernet_get_config_def
    by (intro f i) (auto intro: ethernet_positional_ok(1) dest: ethernet_program.loop_leaves_two[OF c] ethernet_program.loop_error[OF c] simp del: One_nat_def)
  fix fsm filt dev hop tap
  assume "ipv4_get_config getaddrinfo strtof r argv = Inr (Returns (fsm, filt, False, dev)) \<or>
       udp_get_config getaddrinfo strtof argv = Inr (Returns (fsm, filt, False)) \<or>
       ethernet_get_config getaddrinfo r argv = Inr (Returns (fsm, filt, hop, tap))"
  then show "Address_of_host getaddrinfo (argv ! (length argv - 2)) (argv ! (length argv - 1)) = Inr (cfg_destination filt)"
    unfolding ipv4_get_config_def udp_get_config_def ethernet_get_config_def using assms
    by (auto simp: rbind_Inr_conv obind_Returns simp del: One_nat_def
        dest!: ipv4_program.loop_leaves_two[OF c] ethernet_program.loop_leaves_two[OF c]
        dest: ipv4_positional_ok(2) ethernet_positional_ok(2) udp_positional_ok(2)[rotated])
qed

theorem command_lines_read_inside_witness:
  "reads_inside (ipv4_get_config (\<lambda>_ _ _. Inr [ipv4_address 7 80]) (\<lambda>_. None) 5 [''tcp_ipv4'', ''-w'', ''100'', ''host'', ''80''])"
  using command_lines_read_inside[of "[''tcp_ipv4'', ''-w'', ''100'', ''host'', ''80'']"] by simp

text \<open>The comparison of \<open>-Lu\<close> stops before the terminating zero, so it accepts longer words.\<close>

lemma loss_option_prefix:
  "udp_option (\<lambda>_. Some (0, 0)) [''tcp_udp'', ''-Lunatic'', ''0'', ''host'', ''80''] 1 s =
     Inr (Returns (Two_args, s\<lparr>uo_filt := (uo_filt s)\<lparr>cfg_loss_rate_up := 0\<rparr>\<rparr>))"
  by (simp add: udp_option_def strncmp_eq_def arg_def with_argument_def check_argc_def loss_rate_def float_mul_def round_float_def
      truncate_float_def Let_def)

text \<open>A timeout is cut to sixteen bits, and the default window is not the one that the usage text shows.\<close>

lemma timeout_wraps: "rt_timeout (set_timeout ''65536'' c) = 0"
proof -
  have "strtol ''65536'' = 65536" by code_simp
  then show ?thesis by (simp add: set_timeout_def)
qed

lemma shown_window_differs: "recv_capacity TCPConfig_default \<noteq> MAX_PAYLOAD_SIZE"
  by (simp add: TCPConfig_default_def DEFAULT_CAPACITY_def MAX_PAYLOAD_SIZE_def)

text \<open>A loss rate above one is converted although it does not fit.\<close>

lemma loss_rate_above_one: "loss_rate (\<lambda>_. Some (3, - 1)) s = Inl (Undefined_behaviour ''conversion out of range'')"
  by code_simp

text \<open>The random address of the Ethernet program is a private unicast address.\<close>

lemma private_ethernet_address_ok:
  "length (private_ethernet_address g) = 6 \<and> bit (private_ethernet_address g ! 0) 1 \<and> \<not> bit (private_ethernet_address g ! 0) 0"
  by (simp add: private_ethernet_address_def Let_def upt_rec bit_and_iff bit_or_iff)

text \<open>A program whose session succeeds ends with status 0 in either mode; one without arguments, or whose session fails, with status 1.\<close>

lemma main_status_cases:
  "length argv < 3 \<Longrightarrow> main_status argv config session = 1"
  "3 \<le> length argv \<Longrightarrow> config = Inr (Returns c) \<Longrightarrow> main_status argv config session = (if isl (session c) then 1 else 0)"
  by (auto simp: main_status_def split: sum.splits)

end
