(* ===== verification/Web_Get.thy ===== *)
theory Web_Get
  imports Stream_Copy Command_Line
begin

text \<open>
  The two programs over the kernel's own TCP sockets: \<open>apps/webget.cc\<close>, which asks a web server for a page, and
  \<open>apps/tcp_native.cc\<close>, which copies between a socket and the terminal.  The kernel is a record of functions, and
  \<open>getaddrinfo\<close> is an argument.
\<close>

section \<open>webget\<close>

record 'k web_kernel =
  wk_socket :: "int \<Rightarrow> int \<Rightarrow> sys_ret"
  wk_connect :: "int \<Rightarrow> address \<Rightarrow> sys_ret"
  wk_writev :: "'k \<Rightarrow> byte list list \<Rightarrow> sys_ret \<times> 'k"
  wk_read :: "'k \<Rightarrow> u64 \<Rightarrow> (sys_ret \<times> byte list) \<times> 'k"
  wk_shutdown :: "int \<Rightarrow> int \<Rightarrow> sys_ret"

text \<open>\<open>std::string::find\<close> gives the first position of a substring, or \<open>npos\<close>, the greatest number of its type.\<close>

fun find_substring :: "byte list \<Rightarrow> byte list \<Rightarrow> nat option" where
  "find_substring pat [] = (if pat = [] then Some 0 else None)"
| "find_substring pat (b # bs) =
     (if take (length pat) (b # bs) = pat then Some 0 else map_option Suc (find_substring pat bs))"

definition string_find :: "byte list \<Rightarrow> byte list \<Rightarrow> u64" where
  "string_find s pat = (case find_substring pat s of None \<Rightarrow> SIZE_MAX | Some i \<Rightarrow> i)"

definition crlf2 :: "byte list" where
  "crlf2 = [0x0D, 0x0A, 0x0D, 0x0A]"

text \<open>\<open>erase(0, n)\<close> removes the first \<open>n\<close> bytes, or all when there are fewer; the sum with 4 wraps.\<close>

definition erase_header :: "byte list \<Rightarrow> byte list" where
  "erase_header rawContent = drop (add64 (string_find rawContent crlf2) 4) rawContent"

definition http_request :: "string \<Rightarrow> string \<Rightarrow> byte list" where
  "http_request host path =
     bytes_of_string (''GET '' @ path @ '' HTTP/1.1'') @ [0x0D, 0x0A] @ bytes_of_string (''Host: '' @ host) @ crlf2"

definition web_request ::
  "resolver \<Rightarrow> 'k web_kernel \<Rightarrow> string \<Rightarrow> string \<Rightarrow> 'k \<Rightarrow> (fd_wrapper \<times> 'k) result" where
  "web_request getaddrinfo wk host path k =
     rbind (Socket_new (wk_socket wk) (int AF_INET) SOCK_STREAM) (\<lambda>w.
     rbind (Address_of_host getaddrinfo host ''http'') (\<lambda>address.
     rbind (Socket_connect w address (wk_connect wk)) (\<lambda>w.
     rbind (FileDescriptor_write (wk_writev wk) w k (BufferViewList_of_string (http_request host path)) True) (\<lambda>(n, w, k).
       Inr (w, k)))))"

text \<open>The loop leaves its body with \<open>break\<close>.  What was printed stays printed when \<open>shutdown\<close> fails.\<close>

definition web_response :: "'k web_kernel \<Rightarrow> fd_wrapper \<times> 'k \<Rightarrow> byte list \<times> (fd_wrapper \<times> 'k) result" where
  "web_response wk wk_state =
     (case wk_state of (w, k) \<Rightarrow>
        if fd_eof w then ([], Inr (w, k))
        else case FileDescriptor_read (wk_read wk) w SIZE_MAX k of
          Inl e \<Rightarrow> ([], Inl e)
        | Inr (rawContent, w, k) \<Rightarrow>
            (erase_header rawContent, rbind (Socket_shutdown w SHUT_RDWR (wk_shutdown wk)) (\<lambda>w. Inr (w, k))))"

definition get_URL ::
  "resolver \<Rightarrow> 'k web_kernel \<Rightarrow> string \<Rightarrow> string \<Rightarrow> 'k \<Rightarrow> byte list \<times> (fd_wrapper \<times> 'k) result" where
  "get_URL getaddrinfo wk host path k =
     (case web_request getaddrinfo wk host path k of
        Inl e \<Rightarrow> ([], Inl e)
      | Inr s \<Rightarrow> web_response wk s)"

text \<open>Without even a program name the program aborts, which is \<open>None\<close>; otherwise its output and its status.\<close>

definition webget_main :: "resolver \<Rightarrow> 'k web_kernel \<Rightarrow> string list \<Rightarrow> 'k \<Rightarrow> (byte list \<times> int) option" where
  "webget_main getaddrinfo wk argv k =
     (if argv = [] then None
      else if length argv \<noteq> 3 then Some ([], 1)
      else case get_URL getaddrinfo wk (argv ! 1) (argv ! 2) k of
        (output, Inl e) \<Rightarrow> Some (output, 1)
      | (output, Inr _) \<Rightarrow> Some (output, 0))"

section \<open>tcp_native\<close>

record native_kernel =
  nk_socket :: "int \<Rightarrow> int \<Rightarrow> sys_ret"
  nk_connect :: "int \<Rightarrow> address \<Rightarrow> sys_ret"
  nk_setsockopt :: "int \<Rightarrow> int \<Rightarrow> int \<Rightarrow> int \<Rightarrow> sys_ret"
  nk_bind :: "int \<Rightarrow> address \<Rightarrow> sys_ret"
  nk_listen :: "int \<Rightarrow> int \<Rightarrow> sys_ret"
  nk_accept :: "int \<Rightarrow> sys_ret"
  nk_so_domain :: "sys_ret \<times> int \<times> nat"
  nk_so_type :: "sys_ret \<times> int \<times> nat"

definition DEFAULT_BACKLOG :: int where
  "DEFAULT_BACKLOG = 16"

definition native_server :: "resolver \<Rightarrow> native_kernel \<Rightarrow> string list \<Rightarrow> fd_wrapper result" where
  "native_server getaddrinfo nk argv =
     rbind (Socket_new (nk_socket nk) (int AF_INET) SOCK_STREAM) (\<lambda>listening.
     rbind (Socket_set_reuseaddr listening (nk_setsockopt nk)) (\<lambda>listening.
     rbind (arg argv 2) (\<lambda>node.
     rbind (arg argv 3) (\<lambda>service.
     rbind (Address_of_host getaddrinfo node service) (\<lambda>address.
     rbind (Socket_bind listening address (nk_bind nk)) (\<lambda>listening.
     rbind (TCPSocket_listen listening DEFAULT_BACKLOG (nk_listen nk)) (\<lambda>listening.
     rbind (TCPSocket_accept listening (nk_accept nk) (nk_so_domain nk) (nk_so_type nk)) (\<lambda>(socket, listening).
       Inr socket))))))))"

definition native_client :: "resolver \<Rightarrow> native_kernel \<Rightarrow> string list \<Rightarrow> fd_wrapper result" where
  "native_client getaddrinfo nk argv =
     rbind (Socket_new (nk_socket nk) (int AF_INET) SOCK_STREAM) (\<lambda>connecting.
     rbind (arg argv 1) (\<lambda>node.
     rbind (arg argv 2) (\<lambda>service.
     rbind (Address_of_host getaddrinfo node service) (\<lambda>address.
       Socket_connect connecting address (nk_connect nk)))))"

text \<open>The test for \<open>-l\<close> is made only when there are two arguments.\<close>

definition native_mode :: "string list \<Rightarrow> bool option" where
  "native_mode argv =
     (if length argv < 3 then None
      else let server_mode = strncmp_eq ''-l'' (argv ! 1) 3
           in if server_mode \<and> length argv < 4 then None else Some server_mode)"

definition native_usage :: "string \<Rightarrow> string" where
  "native_usage argv0 =
     ''Usage: '' @ argv0 @ '' [-l] <host> <port>'' @ newline @ newline @
     ''  -l specifies listen mode; <host>:<port> is the listening address.'' @ newline"

definition native_main ::
  "resolver \<Rightarrow> native_kernel \<Rightarrow> 'k copy_kernel \<Rightarrow> (int \<Rightarrow> sys_ret) \<Rightarrow> (int \<Rightarrow> u32 \<Rightarrow> sys_ret) \<Rightarrow> string list \<Rightarrow> 'k \<Rightarrow>
   'k copy_state outcome result" where
  "native_main getaddrinfo nk ck getfl setfl argv k =
     (case native_mode argv of
        None \<Rightarrow> rbind (arg argv 0) (\<lambda>argv0. Inr (Exits 1 (native_usage argv0)))
      | Some server_mode \<Rightarrow>
          rbind (if server_mode then native_server getaddrinfo nk argv else native_client getaddrinfo nk argv) (\<lambda>socket.
          rbind (bidirectional_stream_copy ck getfl setfl socket k) (\<lambda>s. Inr (Returns s))))"

text \<open>The exit status, or nothing when the copy never ends.\<close>

definition native_status :: "'c outcome result \<Rightarrow> int option" where
  "native_status r =
     (case r of
        Inl e \<Rightarrow> if e = Nontermination then None else Some 1
      | Inr (Exits status out) \<Rightarrow> Some status
      | Inr (Returns s) \<Rightarrow> Some 0)"

section \<open>Lemmas\<close>

lemma find_substring_Some:
  "find_substring pat s = Some i \<longleftrightarrow>
     i \<le> length s \<and> take (length pat) (drop i s) = pat \<and> (\<forall>j<i. take (length pat) (drop j s) \<noteq> pat)"
proof (induction s arbitrary: i)
  case (Cons b s)
  show ?case
  proof (cases "take (length pat) (b # s) = pat")
    case True
    then show ?thesis by (cases i) (auto intro: exI[of _ 0])
  next
    case False
    then show ?thesis by (cases i) (auto simp: Cons.IH less_Suc_eq_0_disj)
  qed
qed auto

lemma crlf2_length: "length crlf2 = 4"
  by (simp add: crlf2_def)

lemma erase_header_found:
  assumes "find_substring crlf2 s = Some i" "length s < 2 ^ 63"
  shows "erase_header s = drop (i + 4) s"
proof -
  have "i \<le> length s" using assms(1) by (simp add: find_substring_Some)
  then have "add64 i 4 = i + 4" using assms(2) by (simp add: add64_exact)
  then show ?thesis using assms(1) by (simp add: erase_header_def string_find_def)
qed

lemma erase_header_missing: "find_substring crlf2 s = None \<Longrightarrow> erase_header s = drop 3 s"
  by (simp add: erase_header_def string_find_def SIZE_MAX_def add64_def)

text \<open>The response splits at the first blank line, wherever it is.\<close>

lemma erase_header_body:
  assumes "\<forall>j<length head. take 4 (drop j (head @ crlf2 @ body)) \<noteq> crlf2" "length (head @ crlf2 @ body) < 2 ^ 63"
  shows "erase_header (head @ crlf2 @ body) = body"
proof -
  have "find_substring crlf2 (head @ crlf2 @ body) = Some (length head)"
    using assms(1) by (simp add: find_substring_Some crlf2_length)
  from erase_header_found[OF this assms(2)] show ?thesis by (simp add: crlf2_def)
qed

lemma Socket_connect_wrapper: "Socket_connect w a c = Inr w' \<Longrightarrow> w' = w"
  by (auto simp: Socket_connect_def rbind_Inr_conv)

lemma Socket_new_wrapper: "Socket_new s d t = Inr w \<Longrightarrow> \<not> fd_eof w"
  by (auto simp: Socket_new_def FDWrapper_new_def rbind_Inr_conv split: if_splits)

text \<open>
  On a kernel that takes what it is given the request is sent whole, and exactly once, whenever the socket and the
  address are to be had.
\<close>

lemma web_request_sends:
  assumes "takes_prefix (wk_writev wk) accepted" "Socket_new (wk_socket wk) (int AF_INET) SOCK_STREAM = Inr w0"
    "Address_of_host getaddrinfo host ''http'' = Inr a" "0 \<le> fst (wk_connect wk (fd_num w0) a)"
    "fst (wk_connect wk (fd_num w0) a) < 2 ^ 31" "length (http_request host path) < 2 ^ 63"
  shows "\<exists>w k'. web_request getaddrinfo wk host path k = Inr (w, k') \<and> \<not> fd_eof w \<and> fd_num w = fd_num w0 \<and>
    accepted k' = accepted k @ http_request host path"
proof -
  have c: "Socket_connect w0 a (wk_connect wk) = Inr w0"
    using assms(4,5) by (simp add: Socket_connect_def SystemCall_def to_int32_small)
  have b: "concat (BufferViewList_of_string (http_request host path)) = http_request host path"
    by (simp add: BufferViewList_of_string_def)
  obtain n w' k' where "FileDescriptor_write_loop (wk_writev wk) True w0 k (BufferViewList_of_string (http_request host path)) 0 =
      Inr (n, w', k')" "accepted k' = accepted k @ http_request host path" "fd_num w' = fd_num w0" "fd_eof w' = fd_eof w0"
    using write_loop_ok[OF assms(1), of 0 "BufferViewList_of_string (http_request host path)" True w0 k] assms(6) b by auto
  then show ?thesis using assms(2,3) c Socket_new_wrapper[OF assms(2)]
    by (simp add: web_request_def FileDescriptor_write_def)
qed

text \<open>What the server sends first is printed without its header, and the socket is shut in both directions.\<close>

lemma web_response_prints:
  assumes "\<not> fd_eof w" "wk_read wk k BUFFER_SIZE = (((int (length d), 0), d), k')" "length d \<le> BUFFER_SIZE"
    "0 \<le> fst (wk_shutdown wk (fd_num w) SHUT_RDWR)" "fst (wk_shutdown wk (fd_num w) SHUT_RDWR) < 2 ^ 31"
  shows "\<exists>w'. web_response wk (w, k) = (erase_header d, Inr (w', k')) \<and> fd_read_count w' = fd_read_count w + 2 \<and>
    fd_write_count w' = fd_write_count w + 1 \<and> fd_eof w' = (d = [])"
proof -
  have m: "min BUFFER_SIZE SIZE_MAX = BUFFER_SIZE" by (simp add: BUFFER_SIZE_def SIZE_MAX_def)
  have sc: "SystemCall ''read'' (int (length d), 0) 0 = Inr (int (length d))"
    using assms(3) by (simp add: SystemCall_def BUFFER_SIZE_def to_int32_small)
  have p: "0 < SIZE_MAX" by (simp add: SIZE_MAX_def)
  have r: "FileDescriptor_read (wk_read wk) w SIZE_MAX k =
      Inr (d, register_read (if d = [] then w\<lparr>fd_eof := True\<rparr> else w), k')"
    using assms(3) sc p by (simp add: FileDescriptor_read_def m assms(2) string_resize_def Let_def)
  have sd: "SystemCall ''shutdown'' (wk_shutdown wk (fd_num w) SHUT_RDWR) 0 = Inr (fst (wk_shutdown wk (fd_num w) SHUT_RDWR))"
    using assms(4,5) by (simp add: SystemCall_def to_int32_small)
  show ?thesis using assms(1) sd
    by (simp add: web_response_def r Socket_shutdown_def register_read_def register_write_def SHUT_RD_def SHUT_WR_def SHUT_RDWR_def)
qed

text \<open>
  The program reads once.  A page that arrives in two pieces is cut after the first, and a first piece without a
  blank line loses its first three bytes.
\<close>

lemma header_in_two_pieces: "erase_header (bytes_of_string ''HTTP/1.1 200'') = bytes_of_string ''P/1.1 200''"
  by code_simp

text \<open>\<open>tcp_native\<close> never reads past its arguments, and prints its usage exactly when one is missing.\<close>

lemma native_mode_arguments:
  "native_mode argv = Some True \<Longrightarrow> 4 \<le> length argv" "native_mode argv = Some False \<Longrightarrow> 3 \<le> length argv"
  by (auto simp: native_mode_def Let_def split: if_splits)

lemma SystemCall_error: "SystemCall what sr m = Inl e \<Longrightarrow> \<exists>n. e = Unix_error what n"
  by (auto simp: SystemCall_def Let_def split: if_splits)

lemma FDWrapper_new_error: "FDWrapper_new n = Inl e \<Longrightarrow> \<exists>m. e = Runtime_error m"
  by (auto simp: FDWrapper_new_def split: if_splits)

lemma Socket_check_error: "Socket_check what a v = Inl e \<Longrightarrow> (\<exists>m. e = Runtime_error m) \<or> (\<exists>m n. e = Unix_error m n)"
  by (auto simp: Socket_check_def rbind_def dest!: SystemCall_error split: prod.splits sum.splits if_splits)

lemmas socket_errors = SystemCall_error FDWrapper_new_error Socket_check_error address_errors

lemma native_client_error:
  assumes "3 \<le> length argv" "native_client getaddrinfo nk argv = Inl e"
  shows "(\<exists>m. e = Runtime_error m) \<or> (\<exists>m n. e = Unix_error m n)"
  using assms unfolding native_client_def arg_def Socket_new_def Socket_connect_def
  by (auto simp: rbind_def dest!: socket_errors split: sum.splits)

lemma native_server_error:
  assumes "4 \<le> length argv" "native_server getaddrinfo nk argv = Inl e"
  shows "(\<exists>m. e = Runtime_error m) \<or> (\<exists>m n. e = Unix_error m n)"
  using assms unfolding native_server_def arg_def Socket_new_def Socket_bind_def Socket_set_reuseaddr_def
    Socket_setsockopt_def TCPSocket_listen_def TCPSocket_accept_def Socket_of_fd_def
  by (auto simp: rbind_def Let_def dest!: socket_errors split: sum.splits)

end
