(* ===== verification/Benchmark.thy ===== *)
theory Benchmark
  imports End_To_End Net_Address
begin

text \<open>
  The benchmark (\<open>apps/tcp_benchmark.cc\<close>): two connections in one process, a string written to the first and read
  from the second, and segments moved between them in order or in reverse.  The random string and the random
  initial sequence numbers are arguments; the clock and what is printed are left out.
\<close>

section \<open>The program\<close>

definition len :: u64 where
  "len = 100 * 1024 * 1024"

fun receive_all :: "tcp_connection \<Rightarrow> tcp_segment list \<Rightarrow> tcp_connection result" where
  "receive_all y [] = Inr y"
| "receive_all y (seg # segs) = rbind (TCPConnection_segment_received y seg) (\<lambda>y. receive_all y segs)"

definition in_order :: "bool \<Rightarrow> 'a list \<Rightarrow> 'a list" where
  "in_order reorder segments = (if reorder then rev segments else segments)"

definition move_segments ::
  "tcp_connection \<Rightarrow> tcp_connection \<Rightarrow> tcp_segment list \<Rightarrow> bool \<Rightarrow> (tcp_connection \<times> tcp_connection \<times> tcp_segment list) result" where
  "move_segments x y segments reorder =
     (let segments = segments @ tc_segments_out x;
          x = x\<lparr>tc_segments_out := []\<rparr>
      in rbind (receive_all y (in_order reorder segments)) (\<lambda>y. Inr (x, y, [])))"

record benchmark =
  bm_x :: tcp_connection
  bm_y :: tcp_connection
  bm_bytes_to_send :: buffer
  bm_x_closed :: bool
  bm_string_received :: "byte list"

definition bench_start :: "tcp_config \<Rightarrow> u32 \<Rightarrow> u32 \<Rightarrow> byte list \<Rightarrow> benchmark result" where
  "bench_start config random_x random_y string_to_send =
     rbind (TCPConnection_connect (TCPConnection_new config random_x)) (\<lambda>x.
     rbind (TCPConnection_end_input_stream (TCPConnection_new config random_y)) (\<lambda>y.
       Inr \<lparr>bm_x = x, bm_y = y, bm_bytes_to_send = Buffer_of string_to_send, bm_x_closed = False, bm_string_received = []\<rparr>))"

text \<open>The loop that writes to \<open>x\<close>, lines 57 to 65.\<close>

partial_function (option) write_input :: "tcp_connection \<Rightarrow> buffer \<Rightarrow> (tcp_connection \<times> buffer) result option" where
  "write_input x bytes_to_send =
     (if Buffer_size bytes_to_send \<noteq> 0 \<and> TCPConnection_remaining_outbound_capacity x \<noteq> 0 then
        let want = min (TCPConnection_remaining_outbound_capacity x) (Buffer_size bytes_to_send)
        in case TCPConnection_write x (take want (Buffer_str bytes_to_send)) of
             Inl e \<Rightarrow> Some (Inl e)
           | Inr (written, x) \<Rightarrow>
               if want \<noteq> written then Some (Inl (Runtime_error (''want = '' @ dec_string want @ '', written = '' @ dec_string written)))
               else case Buffer_remove_prefix bytes_to_send written of
                      Inl e \<Rightarrow> Some (Inl e)
                    | Inr bytes_to_send \<Rightarrow> write_input x bytes_to_send
      else Some (Inr (x, bytes_to_send)))"

definition bench_close :: "benchmark \<Rightarrow> benchmark result" where
  "bench_close b =
     (if Buffer_size (bm_bytes_to_send b) = 0 \<and> \<not> bm_x_closed b
      then rbind (TCPConnection_end_input_stream (bm_x b)) (\<lambda>x. Inr (b\<lparr>bm_x := x, bm_x_closed := True\<rparr>))
      else Inr b)"

definition bench_exchange :: "bool \<Rightarrow> benchmark \<Rightarrow> benchmark result" where
  "bench_exchange reorder b =
     rbind (move_segments (bm_x b) (bm_y b) [] reorder) (\<lambda>(x, y, segments).
     rbind (move_segments y x segments False) (\<lambda>(y, x, segments).
       Inr (b\<lparr>bm_x := x, bm_y := y\<rparr>)))"

definition bench_read :: "benchmark \<Rightarrow> benchmark result" where
  "bench_read b =
     (let available_output = ByteStream_buffer_size (TCPConnection_inbound_stream (bm_y b))
      in if available_output > 0 then
           rbind (ByteStream_read (TCPConnection_inbound_stream (bm_y b)) available_output) (\<lambda>(d, bs).
             let r = tc_receiver (bm_y b)
             in Inr (b\<lparr>bm_y := (bm_y b)\<lparr>tc_receiver := r\<lparr>rcv_reassembler := (rcv_reassembler r)\<lparr>ra_output := bs\<rparr>\<rparr>\<rparr>,
                       bm_string_received := bm_string_received b @ d\<rparr>))
         else Inr b)"

definition bench_tick :: "benchmark \<Rightarrow> benchmark" where
  "bench_tick b = b\<lparr>bm_x := TCPConnection_tick (bm_x b) 1000, bm_y := TCPConnection_tick (bm_y b) 1000\<rparr>"

text \<open>The lambda \<open>loop\<close>: write and close, then the rest of the turn.\<close>

definition bench_write :: "benchmark \<Rightarrow> benchmark result option" where
  "bench_write b =
     (case write_input (bm_x b) (bm_bytes_to_send b) of
        None \<Rightarrow> None
      | Some r \<Rightarrow> Some (rbind r (\<lambda>(x, bytes). bench_close (b\<lparr>bm_x := x, bm_bytes_to_send := bytes\<rparr>))))"

definition bench_turn :: "bool \<Rightarrow> benchmark \<Rightarrow> benchmark result option" where
  "bench_turn reorder b =
     (case bench_write b of
        None \<Rightarrow> None
      | Some r \<Rightarrow> Some (rbind r (\<lambda>b. rbind (bench_exchange reorder b) (\<lambda>b. rbind (bench_read b) (\<lambda>b. Inr (bench_tick b))))))"

partial_function (option) bench_while :: "(benchmark \<Rightarrow> bool) \<Rightarrow> bool \<Rightarrow> benchmark \<Rightarrow> benchmark result option" where
  "bench_while cond reorder b =
     (if cond b then
        case bench_turn reorder b of
          None \<Rightarrow> None
        | Some (Inl e) \<Rightarrow> Some (Inl e)
        | Some (Inr b) \<Rightarrow> bench_while cond reorder b
      else Some (Inr b))"

definition not_eof :: "benchmark \<Rightarrow> bool" where
  "not_eof b \<longleftrightarrow> \<not> ByteStream_eof (TCPConnection_inbound_stream (bm_y b))"

definition some_active :: "benchmark \<Rightarrow> bool" where
  "some_active b \<longleftrightarrow> TCPConnection_active (bm_x b) \<or> TCPConnection_active (bm_y b)"

definition MISMATCH :: cpp_error where
  "MISMATCH = Runtime_error (''strings sent vs. received don'' @ [CHR 0x27] @ ''t match'')"

definition main_loop :: "tcp_config \<Rightarrow> u32 \<Rightarrow> u32 \<Rightarrow> byte list \<Rightarrow> bool \<Rightarrow> benchmark result option" where
  "main_loop config random_x random_y string_to_send reorder =
     (case bench_start config random_x random_y string_to_send of
        Inl e \<Rightarrow> Some (Inl e)
      | Inr b \<Rightarrow>
         (case bench_while not_eof reorder b of
            None \<Rightarrow> None
          | Some (Inl e) \<Rightarrow> Some (Inl e)
          | Some (Inr b) \<Rightarrow>
              if bm_string_received b \<noteq> string_to_send then Some (Inl MISMATCH)
              else bench_while some_active reorder b))"

text \<open>
  Two runs, each with its own string and sequence numbers.  The result is the exit status, or nothing when a run does
  not end.
\<close>

definition benchmark_main :: "u32 \<times> u32 \<times> byte list \<Rightarrow> u32 \<times> u32 \<times> byte list \<Rightarrow> int option" where
  "benchmark_main run1 run2 =
     (case (run1, run2) of ((x1, y1, s1), (x2, y2, s2)) \<Rightarrow>
        case main_loop TCPConfig_default x1 y1 s1 False of
          None \<Rightarrow> None
        | Some (Inl e) \<Rightarrow> Some 1
        | Some (Inr _) \<Rightarrow>
           (case main_loop TCPConfig_default x2 y2 s2 True of
              None \<Rightarrow> None
            | Some (Inl e) \<Rightarrow> Some 1
            | Some (Inr _) \<Rightarrow> Some 0))"

declare write_input.simps [code] bench_while.simps [code]

section \<open>What was fed to a sender\<close>

text \<open>Only \<open>write\<close> and \<open>end_input_stream\<close> change how much was written to a sender's stream and whether it ended.\<close>

definition fed :: "tcp_sender \<Rightarrow> u64 \<times> bool \<times> u64" where
  "fed s = (bs_num_write (snd_stream s), bs_if_end (snd_stream s), bs_capacity (snd_stream s))"

lemma read_fed:
  "ByteStream_read st n = Inr (d, st') \<Longrightarrow>
     bs_num_write st' = bs_num_write st \<and> bs_if_end st' = bs_if_end st \<and> bs_capacity st' = bs_capacity st"
  by (auto simp: ByteStream_read_def ByteStream_pop_output_def Let_def rbind_Inr_conv)

lemma make_segment_stream [simp]: "snd_stream (TCPSender_make_segment_and_send s seg) = snd_stream s"
  by (simp add: TCPSender_make_segment_and_send_def Let_def)

lemma fill_loop_fed:
  assumes "TCPSender_fill_loop w s = Some r" and "r = Inr s'"
  shows "fed s' = fed s"
proof -
  have "\<forall>s'. r = Inr s' \<longrightarrow> fed s' = fed s"
  proof (rule TCPSender_fill_loop.raw_induct[of "\<lambda>w s r. \<forall>s'. r = Inr s' \<longrightarrow> fed s' = fed s", OF _ assms(1)], intro allI impI)
    fix fill_loop :: "u16 \<Rightarrow> tcp_sender \<Rightarrow> tcp_sender result option" and w s r s'
    assume ih: "\<And>w s r. fill_loop w s = Some r \<Longrightarrow> \<forall>s'. r = Inr s' \<longrightarrow> fed s' = fed s"
      and body: "(if TCPSender_room w s = 0 then Some (Inr s)
      else if ByteStream_eof (snd_stream s) \<and> snd_fin_sent s then Some (Inr s)
      else
        (case ByteStream_read (snd_stream s) (min (TCPSender_room w s) MAX_PAYLOAD_SIZE) of
           Inl e \<Rightarrow> Some (Inl e)
         | Inr (d, st) \<Rightarrow>
             let s1 = s\<lparr>snd_stream := st\<rparr>;
                 add_fin = (ByteStream_eof st \<and> \<not> snd_fin_sent s1);
                 seg = TCPSegment_default\<lparr>ts_payload := Buffer_of d,
                                          ts_header := TCPHeader_default\<lparr>fin := add_fin\<rparr>\<rparr>;
                 s2 = (if add_fin then s1\<lparr>snd_fin_sent := True\<rparr> else s1)
             in if TCPSegment_length_in_sequence_space seg = 0 then Some (Inr s2)
                else fill_loop w ((TCPSender_make_segment_and_send s2 seg)\<lparr>snd_state := running\<rparr>))) = Some r"
      and r: "r = Inr s'"
    have ih': "fill_loop w t = Some (Inr s') \<Longrightarrow> fed t = fed s \<Longrightarrow> fed s' = fed s" for w t
      using ih by metis
    show "fed s' = fed s"
    proof (cases "ByteStream_read (snd_stream s) (min (TCPSender_room w s) MAX_PAYLOAD_SIZE)")
      case (Inl e)
      then show ?thesis using body r by (simp split: if_splits)
    next
      case (Inr dst)
      obtain d st where dst: "dst = (d, st)" by (cases dst)
      have rd: "ByteStream_read (snd_stream s) (min (TCPSender_room w s) MAX_PAYLOAD_SIZE) = Inr (d, st)" using Inr dst by simp
      have st: "fed (s\<lparr>snd_stream := st, snd_fin_sent := f\<rparr>) = fed s" "fed (s\<lparr>snd_stream := st\<rparr>) = fed s"
        "fed ((TCPSender_make_segment_and_send t seg)\<lparr>snd_state := running\<rparr>) = fed t" for f t seg
        using read_fed[OF rd] by (simp_all add: fed_def)
      show ?thesis using body r by (auto simp: rd Let_def st split: if_splits dest!: ih')
    qed
  qed
  then show ?thesis using assms(2) by blast
qed

lemma fill_window_fed: "TCPSender_fill_window s = Inr s' \<Longrightarrow> fed s' = fed s"
  using fill_loop_fed[OF _ refl]
  by (auto simp: TCPSender_fill_window_def Let_def split: if_splits option.splits) (simp add: fed_def)

lemma drain_loop_fed [simp]: "fed (tc_sender (TCPConnection_drain_loop segs c)) = fed (tc_sender c)"
  by (induction segs c rule: TCPConnection_drain_loop.induct) (simp_all add: TCPConnection_send_segment_def fed_def)

lemma drain_fed [simp]: "fed (tc_sender (TCPConnection_drain c)) = fed (tc_sender c)"
  by (simp add: TCPConnection_drain_def)

lemma pop_empty_fed: "TCPConnection_pop_empty c = Inr (seg, c') \<Longrightarrow> fed (tc_sender c') = fed (tc_sender c)"
  by (auto simp: TCPConnection_pop_empty_def TCPSender_send_empty_segment_def Let_def fed_def split: list.splits)

lemma set_errors_fed [simp]: "fed (tc_sender (TCPConnection_set_errors c)) = fed (tc_sender c)"
  by (simp add: TCPConnection_set_errors_def ByteStream_set_error_def fed_def)

lemma fed_updates [simp]:
  "fed (s\<lparr>snd_segments_out := q\<rparr>) = fed s" "fed (s\<lparr>snd_window_size := w\<rparr>) = fed s" "fed (s\<lparr>snd_old_syn_flag := f\<rparr>) = fed s"
  "fed (s\<lparr>snd_time := n\<rparr>) = fed s" "fed (s\<lparr>snd_consecutive_retransmissions := c\<rparr>) = fed s"
  "fed (s\<lparr>snd_retransmission_timeout := n\<rparr>) = fed s" "fed (s\<lparr>snd_state := t\<rparr>) = fed s"
  by (simp_all add: fed_def)

lemma rst_received_fed: "TCPConnection_rst_received c seg = Inr c' \<Longrightarrow> fed (tc_sender c') = fed (tc_sender c)"
  by (auto simp: TCPConnection_rst_received_def TCPConnection_send_reset_segment_def TCPConnection_send_segment_def
      rbind_Inr_conv dest!: pop_empty_fed split: if_splits)

lemma pop_acked_fed [simp]: "fed (TCPSender_pop_acked a segs s) = fed s"
  by (induction a segs s rule: TCPSender_pop_acked.induct) (simp_all add: Let_def fed_def)

lemma ack_received_fed:
  assumes "TCPSender_ack_received s a w = Inr (b, s')"
  shows "fed s' = fed s"
proof -
  let ?a = "unwrap a (snd_isn s) (snd_next_seqno s)"
  let ?s3 = "TCPSender_pop_acked ?a (snd_segments_outgoing s) (s\<lparr>snd_window_size := w, snd_old_syn_flag := True\<rparr>)"
  consider "snd_next_seqno s < ?a \<or> ?a \<le> snd_recv_ackno s" | "\<not> snd_next_seqno s < ?a" "\<not> ?a \<le> snd_recv_ackno s" by blast
  then show ?thesis
  proof cases
    case 1
    then show ?thesis using assms by (cases "snd_next_seqno s < ?a") (auto simp: TCPSender_ack_received_def Let_def)
  next
    case 2
    then have "rbind (TCPSender_fill_window ?s3) (\<lambda>s4.
        let s5 = s4\<lparr>snd_time := 0, snd_consecutive_retransmissions := 0,
                    snd_retransmission_timeout := unat (snd_initial_retransmission_timeout s4)\<rparr>;
            s6 = (if snd_segments_outgoing s5 = [] then s5\<lparr>snd_state := stop\<rparr> else s5)
        in Inr (True, s6)) = Inr (b, s')" using assms by (simp add: TCPSender_ack_received_def Let_def del: rbind_Inr_conv)
    then obtain s4 where "TCPSender_fill_window ?s3 = Inr s4" "fed s' = fed s4"
      by (cases "TCPSender_fill_window ?s3") (auto simp: Let_def)
    then show ?thesis using fill_window_fed by fastforce
  qed
qed

lemma ack_branch_fed: "TCPConnection_ack_branch c seg = Inr (go_on, c') \<Longrightarrow> fed (tc_sender c') = fed (tc_sender c)"
  by (auto simp: TCPConnection_ack_branch_def Let_def rbind_Inr_conv split: if_splits
      dest!: ack_received_fed fill_window_fed pop_empty_fed)

lemma reply_fed: "TCPConnection_reply c seg = Inr c' \<Longrightarrow> fed (tc_sender c') = fed (tc_sender c)"
  by (auto simp: TCPConnection_reply_def Let_def rbind_Inr_conv split: if_splits dest!: fill_window_fed pop_empty_fed)

lemma segment_received_fed: "TCPConnection_segment_received c seg = Inr c' \<Longrightarrow> fed (tc_sender c') = fed (tc_sender c)"
  by (auto simp: TCPConnection_segment_received_def TCPConnection_check_linger_def Let_def rbind_Inr_conv split: if_splits
      dest!: rst_received_fed ack_branch_fed reply_fed)

lemma receive_all_fed: "receive_all c segs = Inr c' \<Longrightarrow> fed (tc_sender c') = fed (tc_sender c)"
  by (induction segs arbitrary: c) (auto simp: rbind_Inr_conv dest!: segment_received_fed)

lemma sender_tick_fed [simp]: "fed (TCPSender_tick s ms) = fed s"
  by (simp add: TCPSender_tick_def Let_def split: list.splits)

lemma retransmit_fed [simp]: "fed (tc_sender (TCPConnection_retransmit c)) = fed (tc_sender c)"
  by (cases "snd_segments_out (tc_sender c)") (simp_all add: TCPConnection_retransmit_def Let_def)

lemma finish_sender [simp]: "tc_sender (TCPConnection_finish c) = tc_sender c"
  by (simp add: TCPConnection_finish_def Let_def)

lemma tick_fed [simp]: "fed (tc_sender (TCPConnection_tick c ms)) = fed (tc_sender c)"
  by (simp add: TCPConnection_tick_def)

lemma write_fed:
  assumes "TCPConnection_write c d = Inr (n, c')" and "bs_inv (snd_stream (tc_sender c))"
  shows "n = min (length d) (TCPConnection_remaining_outbound_capacity c) \<and>
    bs_num_write (snd_stream (tc_sender c')) = add64 (bs_num_write (snd_stream (tc_sender c))) n \<and>
    bs_if_end (snd_stream (tc_sender c')) = bs_if_end (snd_stream (tc_sender c))"
proof -
  from assms(1) obtain s where f: "TCPSender_fill_window ((tc_sender c)\<lparr>snd_stream := snd (ByteStream_write (snd_stream (tc_sender c)) d)\<rparr>) = Inr s"
    and c': "c' = TCPConnection_drain (c\<lparr>tc_sender := s\<rparr>)" and n: "n = fst (ByteStream_write (snd_stream (tc_sender c)) d)"
    by (auto simp: TCPConnection_write_def Let_def rbind_Inr_conv split: prod.splits)
  have "fed (tc_sender c') = fed ((tc_sender c)\<lparr>snd_stream := snd (ByteStream_write (snd_stream (tc_sender c)) d)\<rparr>)"
    using fill_window_fed[OF f] by (simp add: c')
  then show ?thesis
    by (simp add: n fed_def ByteStream_write_def Let_def TCPConnection_remaining_outbound_capacity_def ByteStream_remaining_capacity_def)
qed

lemma end_fed:
  assumes "TCPConnection_end_input_stream c = Inr c'"
  shows "bs_num_write (snd_stream (tc_sender c')) = bs_num_write (snd_stream (tc_sender c)) \<and> bs_if_end (snd_stream (tc_sender c'))"
proof -
  have "fed (tc_sender c') = fed ((tc_sender c)\<lparr>snd_stream := ByteStream_end_input (snd_stream (tc_sender c))\<rparr>)"
    using assms by (auto simp: TCPConnection_end_input_stream_def rbind_Inr_conv dest!: fill_window_fed)
  then show ?thesis by (simp add: fed_def ByteStream_end_input_def)
qed

lemma connect_fed: "TCPConnection_connect c = Inr c' \<Longrightarrow> fed (tc_sender c') = fed (tc_sender c)"
  by (auto simp: TCPConnection_connect_def rbind_Inr_conv dest!: fill_window_fed)

section \<open>Segments that arrive\<close>

text \<open>The segments with a FIN among those that a connection is given arrive as the receiver can take them.\<close>

fun fins_in_order :: "byte list \<Rightarrow> tcp_connection \<Rightarrow> tcp_segment list \<Rightarrow> bool" where
  "fins_in_order S y [] = True"
| "fins_in_order S y (seg # segs) =
     (fin_in_order S (tc_receiver y) seg \<and>
      (case TCPConnection_segment_received y seg of Inl _ \<Rightarrow> True | Inr y \<Rightarrow> fins_in_order S y segs))"

lemma receive_ok:
  assumes inv: "conn_inv P S isn (out, y)" and seg: "seg_ok S isn seg"
    and small: "length S < 2 ^ 31 - 2" "length P < 2 ^ 31 - 2" and fin: "fin_in_order S (tc_receiver y) seg"
  shows "\<exists>y'. TCPConnection_segment_received y seg = Inr y' \<and> conn_post P S isn (out, y) (out, y')"
proof -
  have acc: "seg_acceptable S isn (tc_receiver y) seg"
    using sent_acceptable[of "y\<lparr>tc_segments_out := [seg]\<rparr>" S isn 0 out "tc_receiver y"] seg small fin inv by (simp add: conn_inv_def)
  have "snd_next_seqno (tc_sender y) \<le> length P + 2" using inv by (intro snd_next_bound) (simp add: conn_inv_def)
  then have "conn_op_ok P S isn (out, y) (Conn_segment seg)" using acc small(2) by simp
  from conn_step_post[OF inv this] show ?thesis by (auto simp: rbind_Inr_conv)
qed

lemma receive_all_ok:
  assumes "conn_inv P S isn (out, y)" and "\<forall>seg\<in>set segs. seg_ok S isn seg"
    and small: "length S < 2 ^ 31 - 2" "length P < 2 ^ 31 - 2" and "fins_in_order S y segs"
  shows "\<exists>y'. receive_all y segs = Inr y' \<and> conn_inv P S isn (out, y') \<and> snd_isn (tc_sender y') = snd_isn (tc_sender y)"
  using assms(1,2,5)
proof (induction segs arbitrary: y)
  case (Cons seg segs)
  obtain y1 where y1: "TCPConnection_segment_received y seg = Inr y1" "conn_post P S isn (out, y) (out, y1)"
    using receive_ok[OF Cons.prems(1) _ small, of seg] Cons.prems(2,3) by auto
  then show ?case using Cons.IH[of y1] Cons.prems(2,3) by (auto simp: conn_post_def)
qed simp

text \<open>The second connection writes nothing, so its FIN is always in order.\<close>

lemma empty_fin_in_order:
  assumes "seg_ok [] isn seg" and "rcv_run_inv [] isn' (out, r)"
  shows "fin_in_order [] r seg"
proof -
  have fu: "ra_first_unassemble_byte (rcv_reassembler r) = 0"
    using assms(2) ra_inv_basic(5)[of "[]" "rcv_reassembler r"] by (simp add: rcv_run_inv_def rcv_inv_def)
  have "fin (ts_header seg) \<Longrightarrow> Buffer_str (ts_payload seg) = []"
    using assms(1) by (auto simp: seg_ok_def seg_bare_def snd_seg_at_def seg_syn_def seg_at_def piece_of_def split: if_splits)
  then show ?thesis by (simp add: fin_in_order_def eof_honest_def fu)
qed

lemma empty_fins_in_order:
  assumes "conn_inv S [] isn (out, y)" and "\<forall>seg\<in>set segs. seg_ok [] isn seg" and small: "length S < 2 ^ 31 - 2"
  shows "fins_in_order [] y segs"
  using assms(1,2)
proof (induction segs arbitrary: y)
  case (Cons seg segs)
  have f: "fin_in_order [] (tc_receiver y) seg"
    using Cons.prems by (intro empty_fin_in_order[of isn seg isn out]) (simp_all add: conn_inv_def)
  obtain y1 where "TCPConnection_segment_received y seg = Inr y1" "conn_post S [] isn (out, y) (out, y1)"
    using receive_ok[OF Cons.prems(1) _ _ small f] Cons.prems(2) by auto
  then show ?case using Cons.IH[of y1] Cons.prems(2) f by (simp add: conn_post_def)
qed simp

section \<open>A turn of the loop\<close>

text \<open>
  The first connection has been given the part of the string that was removed from the buffer; the second has handed out a
  prefix of the string.
\<close>

definition bench_inv :: "byte list \<Rightarrow> benchmark \<Rightarrow> bool" where
  "bench_inv S b \<longleftrightarrow>
     length S < 2 ^ 31 - 2 \<and>
     conn_inv S [] (snd_isn (tc_sender (bm_y b))) ([], bm_x b) \<and>
     conn_inv [] S (snd_isn (tc_sender (bm_x b))) (bm_string_received b, bm_y b) \<and>
     buffer_wf (bm_bytes_to_send b) \<and>
     bs_num_write (snd_stream (tc_sender (bm_x b))) \<le> length S \<and>
     Buffer_str (bm_bytes_to_send b) = drop (bs_num_write (snd_stream (tc_sender (bm_x b)))) S \<and>
     bs_if_end (snd_stream (tc_sender (bm_x b))) = bm_x_closed b \<and>
     (bm_x_closed b \<longrightarrow> bs_num_write (snd_stream (tc_sender (bm_x b))) = length S)"

lemma conn_inv_written:
  assumes "conn_inv S P isn (out, c)"
  shows "bs_num_write (snd_stream (tc_sender c)) = bs_num_read (snd_stream (tc_sender c)) + bs_size (snd_stream (tc_sender c))"
    and "bs_inv (snd_stream (tc_sender c))"
proof -
  have i: "snd_inv S (tc_sender c)" using assms by (simp add: conn_inv_def)
  note b = snd_inv_basic[OF i]
  show "bs_inv (snd_stream (tc_sender c))" by (rule b(1))
  show "bs_num_write (snd_stream (tc_sender c)) = bs_num_read (snd_stream (tc_sender c)) + bs_size (snd_stream (tc_sender c))"
    using b(1,2,3) by (simp add: bs_inv_def add64_exact)
qed

lemma write_input_ok:
  assumes "bench_inv S (b\<lparr>bm_x := x, bm_bytes_to_send := bytes\<rparr>)"
  shows "\<exists>x' bytes'. write_input x bytes = Some (Inr (x', bytes')) \<and> bench_inv S (b\<lparr>bm_x := x', bm_bytes_to_send := bytes'\<rparr>) \<and>
    (Buffer_str bytes' = [] \<or> TCPConnection_remaining_outbound_capacity x' = 0)"
  using assms
proof (induction "length (Buffer_str bytes)" arbitrary: x bytes rule: less_induct)
  case less
  note inv = less.prems[unfolded bench_inv_def]
  let ?st = "snd_stream (tc_sender x)"
  show ?case
  proof (cases "Buffer_size bytes \<noteq> 0 \<and> TCPConnection_remaining_outbound_capacity x \<noteq> 0")
    case False
    then show ?thesis using less.prems by (subst write_input.simps) (auto simp: Buffer_size_def)
  next
    case True
    define want where "want = min (TCPConnection_remaining_outbound_capacity x) (Buffer_size bytes)"
    have want: "0 < want" "want \<le> length (Buffer_str bytes)" using True by (auto simp: want_def Buffer_size_def)
    let ?d = "take want (Buffer_str bytes)"
    have ci: "conn_inv S [] (snd_isn (tc_sender (bm_y b))) ([], x)" using inv by simp
    note w = conn_inv_written[OF ci]
    have len: "bs_num_write ?st + want \<le> length S" using inv want by simp
    have op: "conn_op_ok S [] (snd_isn (tc_sender (bm_y b))) ([], x) (Conn_write ?d)"
      using inv want len w(1) by (auto simp: piece_of_def substr_def)
    obtain n x1 where wr: "TCPConnection_write x ?d = Inr (n, x1)"
      and post: "conn_post S [] (snd_isn (tc_sender (bm_y b))) ([], x) ([], x1)"
      using conn_step_post[OF ci op] by (auto simp: rbind_Inr_conv)
    note fed = write_fed[OF wr w(2)]
    have n: "n = want" using fed want by (simp add: want_def min_def split: if_splits)
    have nw: "bs_num_write (snd_stream (tc_sender x1)) = bs_num_write ?st + want"
      using fed n len inv by (simp add: add64_exact)
    obtain bytes1 where rm: "Buffer_remove_prefix bytes want = Inr bytes1" "buffer_wf bytes1" "Buffer_str bytes1 = drop want (Buffer_str bytes)"
      using Buffer_remove_prefix_Inr[of bytes want] inv want(2) by auto
    have lt: "length (Buffer_str bytes1) < length (Buffer_str bytes)" using rm(3) want by simp
    have i1: "bench_inv S (b\<lparr>bm_x := x1, bm_bytes_to_send := bytes1\<rparr>)"
      using inv post fed rm nw len by (auto simp: bench_inv_def conn_post_def add.commute)
    have "write_input x bytes = write_input x1 bytes1"
      using True wr rm(1) n by (subst write_input.simps) (simp add: want_def Let_def)
    then show ?thesis using less.hyps[OF lt i1] by simp
  qed
qed

lemma bench_write_ok:
  assumes "bench_inv S b"
  shows "\<exists>b'. bench_write b = Some (Inr b') \<and> bench_inv S b' \<and> bm_y b' = bm_y b \<and> bm_string_received b' = bm_string_received b"
proof -
  obtain x bytes where w: "write_input (bm_x b) (bm_bytes_to_send b) = Some (Inr (x, bytes))"
    and inv: "bench_inv S (b\<lparr>bm_x := x, bm_bytes_to_send := bytes\<rparr>)"
    using write_input_ok[where S = S and b = b and x = "bm_x b" and bytes = "bm_bytes_to_send b", simplified] assms by auto
  show ?thesis
  proof (cases "Buffer_size bytes = 0 \<and> \<not> bm_x_closed b")
    case False
    then show ?thesis using inv by (auto simp: bench_write_def w bench_close_def)
  next
    case True
    let ?isn = "snd_isn (tc_sender (bm_y b))"
    have ci: "conn_inv S [] ?isn ([], x)" using inv by (simp add: bench_inv_def)
    have nil: "Buffer_str bytes = []" using True by (simp add: Buffer_size_def)
    then have all: "bs_num_write (snd_stream (tc_sender x)) = length S" using inv by (simp add: bench_inv_def)
    have "conn_op_ok S [] ?isn ([], x) Conn_end" using all conn_inv_written(1)[OF ci] by simp
    from conn_step_post[OF ci this] obtain x1 where e: "TCPConnection_end_input_stream x = Inr x1"
      and post: "conn_post S [] ?isn ([], x) ([], x1)" by (auto simp: rbind_Inr_conv)
    have "bench_inv S (b\<lparr>bm_bytes_to_send := bytes, bm_x := x1, bm_x_closed := True\<rparr>)"
      using inv post end_fed[OF e] all by (simp add: bench_inv_def conn_post_def)
    then show ?thesis using True e by (simp add: bench_write_def w bench_close_def)
  qed
qed

lemma conn_inv_emptied: "conn_inv S P isn (out, c) \<Longrightarrow> conn_inv S P isn (out, c\<lparr>tc_segments_out := []\<rparr>)"
  by (simp add: conn_inv_def)

lemma set_in_order [simp]: "set (in_order reorder segs) = set segs"
  by (simp add: in_order_def)

lemma bench_exchange_ok:
  assumes inv: "bench_inv S b" and fins: "fins_in_order S (bm_y b) (in_order reorder (tc_segments_out (bm_x b)))"
  shows "\<exists>b'. bench_exchange reorder b = Inr b' \<and> bench_inv S b'"
proof -
  let ?ix = "snd_isn (tc_sender (bm_x b))" and ?iy = "snd_isn (tc_sender (bm_y b))" and ?x = "bm_x b\<lparr>tc_segments_out := []\<rparr>"
  note i = inv[unfolded bench_inv_def]
  have small: "length S < 2 ^ 31 - 2" "length ([] :: byte list) < 2 ^ 31 - 2" using i by simp_all
  have cx: "conn_inv S [] ?iy ([], ?x)" and cy: "conn_inv [] S ?ix (bm_string_received b, bm_y b)"
    using i conn_inv_emptied by blast+
  have sx: "\<forall>seg\<in>set (in_order reorder (tc_segments_out (bm_x b))). seg_ok S ?ix seg" using i by (simp add: conn_inv_def)
  obtain y where y: "receive_all (bm_y b) (in_order reorder (tc_segments_out (bm_x b))) = Inr y"
    "conn_inv [] S ?ix (bm_string_received b, y)" "snd_isn (tc_sender y) = ?iy"
    using receive_all_ok[OF cy sx small fins] by blast
  have sy: "\<forall>seg\<in>set (tc_segments_out y). seg_ok [] ?iy seg" using y by (simp add: conn_inv_def)
  obtain x where x: "receive_all ?x (tc_segments_out y) = Inr x" "conn_inv S [] ?iy ([], x)" "snd_isn (tc_sender x) = ?ix"
    using receive_all_ok[OF cx sy small(2,1) empty_fins_in_order[OF cx sy small(1)]] by auto
  have fx: "fed (tc_sender x) = fed (tc_sender (bm_x b))" using receive_all_fed[OF x(1)] by simp
  have "bench_inv S (b\<lparr>bm_x := x, bm_y := y\<lparr>tc_segments_out := []\<rparr>\<rparr>)"
    using i x(2,3) y(3) fx conn_inv_emptied[OF y(2)] by (simp add: bench_inv_def fed_def)
  then show ?thesis using x(1) y(1) by (simp add: bench_exchange_def move_segments_def Let_def in_order_def[of False])
qed

lemma bench_read_ok:
  assumes inv: "bench_inv S b"
  shows "\<exists>b'. bench_read b = Inr b' \<and> bench_inv S b'"
proof (cases "0 < ByteStream_buffer_size (TCPConnection_inbound_stream (bm_y b))")
  case False then show ?thesis using inv by (simp add: bench_read_def)
next
  case True
  let ?y = "bm_y b" and ?n = "ByteStream_buffer_size (TCPConnection_inbound_stream (bm_y b))"
  have cy: "conn_inv [] S (snd_isn (tc_sender (bm_x b))) (bm_string_received b, ?y)" using inv by (simp add: bench_inv_def)
  have "bs_inv (TCPConnection_inbound_stream ?y)" using cy ra_inv_basic(1)
    by (auto simp: conn_inv_def rcv_run_inv_def rcv_inv_def TCPConnection_inbound_stream_def TCPReceiver_stream_out_def StreamReassembler_stream_out_def)
  then have "?n < two64" by (simp add: bs_inv_def ByteStream_buffer_size_def)
  then have "conn_op_ok [] S (snd_isn (tc_sender (bm_x b))) (bm_string_received b, ?y) (Conn_read ?n)" by simp
  from conn_step_post[OF cy this] obtain s' where s': "conn_step (bm_string_received b, ?y) (Conn_read ?n) = Inr s'"
    "conn_post [] S (snd_isn (tc_sender (bm_x b))) (bm_string_received b, ?y) s'" by blast
  then obtain d bs where rd: "ByteStream_read (TCPConnection_inbound_stream ?y) ?n = Inr (d, bs)"
    and eq: "s' = (bm_string_received b @ d, ?y\<lparr>tc_receiver := (tc_receiver ?y)\<lparr>rcv_reassembler := (rcv_reassembler (tc_receiver ?y))\<lparr>ra_output := bs\<rparr>\<rparr>\<rparr>)"
    by (auto simp: rbind_Inr_conv TCPConnection_inbound_stream_def)
  show ?thesis using True rd inv s'(2) by (simp add: bench_read_def eq Let_def bench_inv_def conn_post_def)
qed

lemma bench_tick_ok:
  assumes "bench_inv S b"
  shows "bench_inv S (bench_tick b)"
proof -
  let ?x = "bm_x b" and ?y = "bm_y b"
  have cx: "conn_inv S [] (snd_isn (tc_sender ?y)) ([], ?x)"
    and cy: "conn_inv [] S (snd_isn (tc_sender ?x)) (bm_string_received b, ?y)" using assms by (simp_all add: bench_inv_def)
  have "conn_post S [] (snd_isn (tc_sender ?y)) ([], ?x) ([], TCPConnection_tick ?x 1000)"
    "conn_post [] S (snd_isn (tc_sender ?x)) (bm_string_received b, ?y) (bm_string_received b, TCPConnection_tick ?y 1000)"
    using conn_step_post[OF cx, of "Conn_tick 1000"] conn_step_post[OF cy, of "Conn_tick 1000"] by auto
  moreover have "fed (tc_sender (TCPConnection_tick ?x 1000)) = fed (tc_sender ?x)" by simp
  ultimately show ?thesis using assms by (simp add: bench_inv_def bench_tick_def conn_post_def fed_def del: tick_fed)
qed

section \<open>The whole run\<close>

text \<open>A turn delivers its FINs in order when the receiver can take them; a run does when each of its turns does.\<close>

definition turn_in_order :: "byte list \<Rightarrow> bool \<Rightarrow> benchmark \<Rightarrow> bool" where
  "turn_in_order S reorder b =
     (case bench_write b of
        Some (Inr b) \<Rightarrow> fins_in_order S (bm_y b) (in_order reorder (tc_segments_out (bm_x b)))
      | _ \<Rightarrow> True)"

fun bench_turns :: "bool \<Rightarrow> nat \<Rightarrow> benchmark \<Rightarrow> benchmark result option" where
  "bench_turns reorder 0 b = Some (Inr b)"
| "bench_turns reorder (Suc n) b =
     (case bench_turn reorder b of Some (Inr b) \<Rightarrow> bench_turns reorder n b | r \<Rightarrow> r)"

fun turns_in_order :: "byte list \<Rightarrow> bool \<Rightarrow> nat \<Rightarrow> benchmark \<Rightarrow> bool" where
  "turns_in_order S reorder 0 b = True"
| "turns_in_order S reorder (Suc n) b =
     (turn_in_order S reorder b \<and>
      (case bench_turn reorder b of Some (Inr b) \<Rightarrow> turns_in_order S reorder n b | _ \<Rightarrow> True))"

lemma bench_turn_ok:
  assumes "bench_inv S b" and "turn_in_order S reorder b"
  shows "\<exists>b'. bench_turn reorder b = Some (Inr b') \<and> bench_inv S b'"
proof -
  obtain b1 where b1: "bench_write b = Some (Inr b1)" "bench_inv S b1" using bench_write_ok[OF assms(1)] by blast
  then obtain b2 where b2: "bench_exchange reorder b1 = Inr b2" "bench_inv S b2"
    using bench_exchange_ok[OF b1(2)] assms(2) by (auto simp: turn_in_order_def)
  obtain b3 where "bench_read b2 = Inr b3" "bench_inv S b3" using bench_read_ok[OF b2(2)] by blast
  then show ?thesis using b1(1) b2(1) bench_tick_ok by (simp add: bench_turn_def)
qed

lemma bench_turns_ok:
  "bench_inv S b \<Longrightarrow> turns_in_order S reorder n b \<Longrightarrow> \<exists>b'. bench_turns reorder n b = Some (Inr b') \<and> bench_inv S b'"
proof (induction n arbitrary: b)
  case (Suc n)
  obtain b1 where "bench_turn reorder b = Some (Inr b1)" "bench_inv S b1" using bench_turn_ok[OF Suc.prems(1)] Suc.prems(2) by auto
  then show ?case using Suc.IH[of b1] Suc.prems(2) by simp
qed simp

lemma bench_start_ok:
  assumes "recv_capacity config < 2 ^ 32" "send_capacity config < 2 ^ 64" "length S < 2 ^ 31 - 2"
  shows "\<exists>b. bench_start config rx ry S = Inr b \<and> bench_inv S b"
proof -
  let ?x = "TCPConnection_new config rx" and ?y = "TCPConnection_new config ry"
  have cx: "conn_inv S [] (snd_isn (tc_sender ?y)) ([], ?x)" and cy: "conn_inv [] S (snd_isn (tc_sender ?x)) ([], ?y)"
    using assms by (intro conn_new_inv; simp)+
  obtain x where x: "TCPConnection_connect ?x = Inr x" "conn_post S [] (snd_isn (tc_sender ?y)) ([], ?x) ([], x)"
    using conn_step_post[OF cx, of Conn_connect] by (auto simp: rbind_Inr_conv)
  have "conn_op_ok [] S (snd_isn (tc_sender ?x)) ([], ?y) Conn_end" by (simp add: TCPConnection_new_def TCPSender_new_def ByteStream_new_def)
  from conn_step_post[OF cy this] obtain y where
    y: "TCPConnection_end_input_stream ?y = Inr y" "conn_post [] S (snd_isn (tc_sender ?x)) ([], ?y) ([], y)"
    by (auto simp: rbind_Inr_conv)
  have "fed (tc_sender x) = (0, False, send_capacity config)"
    using connect_fed[OF x(1)] by (simp add: fed_def TCPConnection_new_def TCPSender_new_def ByteStream_new_def)
  then show ?thesis using x y assms(3)
    by (simp add: bench_start_def bench_inv_def conn_post_def fed_def Buffer_str_def Buffer_of_def buffer_wf_def)
qed

lemma bench_received:
  assumes "bench_inv S b"
  shows "\<exists>n. bm_string_received b = take n S" "ByteStream_eof (TCPConnection_inbound_stream (bm_y b)) \<Longrightarrow> bm_string_received b = S"
proof -
  have cy: "conn_inv [] S (snd_isn (tc_sender (bm_x b))) (bm_string_received b, bm_y b)" using assms by (simp add: bench_inv_def)
  show "\<exists>n. bm_string_received b = take n S" using cy by (auto simp: conn_inv_def rcv_run_inv_def)
  assume e: "ByteStream_eof (TCPConnection_inbound_stream (bm_y b))"
  have "bs_inv (TCPConnection_inbound_stream (bm_y b))" using cy ra_inv_basic(1)
    by (auto simp: conn_inv_def rcv_run_inv_def rcv_inv_def TCPConnection_inbound_stream_def TCPReceiver_stream_out_def StreamReassembler_stream_out_def)
  then have "bs_bytes (TCPConnection_inbound_stream (bm_y b)) = []" using e by (simp add: bs_inv_def ByteStream_eof_def)
  then show "bm_string_received b = S" using end_delivered[OF cy] e by (simp add: ByteStream_eof_def ByteStream_input_ended_def)
qed

text \<open>The loop \<open>while\<close> of the program, as turns: when it ends, it has made a number of them.\<close>

lemma bench_while_turns:
  assumes "bench_while cond reorder b = Some r"
  shows "\<exists>n. bench_turns reorder n b = Some r \<and> (\<forall>b'. r = Inr b' \<longrightarrow> \<not> cond b')"
proof (rule bench_while.raw_induct[of "\<lambda>cond reorder b r. \<exists>n. bench_turns reorder n b = Some r \<and> (\<forall>b'. r = Inr b' \<longrightarrow> \<not> cond b')", OF _ assms])
  fix loop :: "(benchmark \<Rightarrow> bool) \<Rightarrow> bool \<Rightarrow> benchmark \<Rightarrow> benchmark result option" and cond reorder b r
  assume ih: "\<And>cond reorder b r. loop cond reorder b = Some r \<Longrightarrow> \<exists>n. bench_turns reorder n b = Some r \<and> (\<forall>b'. r = Inr b' \<longrightarrow> \<not> cond b')"
    and body: "(if cond b then
        case bench_turn reorder b of
          None \<Rightarrow> None
        | Some (Inl e) \<Rightarrow> Some (Inl e)
        | Some (Inr b) \<Rightarrow> loop cond reorder b
      else Some (Inr b)) = Some r"
  show "\<exists>n. bench_turns reorder n b = Some r \<and> (\<forall>b'. r = Inr b' \<longrightarrow> \<not> cond b')"
  proof (cases "cond b")
    case False
    then show ?thesis using body by (intro exI[of _ 0]) auto
  next
    case True
    then consider e where "bench_turn reorder b = Some (Inl e)" "r = Inl e"
      | b1 where "bench_turn reorder b = Some (Inr b1)" "loop cond reorder b1 = Some r"
      using body by (auto split: option.splits sum.splits)
    then show ?thesis
    proof cases
      case 1 then show ?thesis by (intro exI[of _ 1]) simp
    next
      case 2
      obtain n where "bench_turns reorder n b1 = Some r" "\<forall>b'. r = Inr b' \<longrightarrow> \<not> cond b'" using ih[OF 2(2)] by blast
      then show ?thesis using 2(1) by (intro exI[of _ "Suc n"]) simp
    qed
  qed
qed

lemma bench_turns_add:
  "bench_turns reorder m b = Some (Inr b') \<Longrightarrow> bench_turns reorder (m + n) b = bench_turns reorder n b'"
  by (induction m arbitrary: b) (auto split: option.splits sum.splits)

section \<open>Properties\<close>

text \<open>C38: the benchmark with any string below \<open>2 ^ 31 - 2\<close> bytes starts, every turn of its loop ends without an
  exception as long as FINs arrive when the receiver can take them, what was received is always a prefix of the string
  and is the string when the stream has ended; so a run in which every turn is of this kind throws neither of its
  errors.\<close>

theorem benchmark_delivers:
  assumes "recv_capacity config < 2 ^ 32" "send_capacity config < 2 ^ 64" "length S < 2 ^ 31 - 2"
  shows "\<exists>b0. bench_start config rx ry S = Inr b0 \<and>
    (\<forall>reorder n. turns_in_order S reorder n b0 \<longrightarrow>
       (\<exists>b m. bench_turns reorder n b0 = Some (Inr b) \<and> bm_string_received b = take m S \<and>
         (\<not> not_eof b \<longrightarrow> bm_string_received b = S))) \<and>
    (\<forall>reorder e. (\<forall>n. turns_in_order S reorder n b0) \<longrightarrow> main_loop config rx ry S reorder \<noteq> Some (Inl e))"
proof -
  obtain b0 where b0: "bench_start config rx ry S = Inr b0" "bench_inv S b0" using bench_start_ok[OF assms] by blast
  have run: "\<exists>b. bench_turns reorder n b0 = Some (Inr b) \<and> bench_inv S b" if "turns_in_order S reorder n b0" for reorder n
    using bench_turns_ok[OF b0(2) that] .
  have "main_loop config rx ry S reorder \<noteq> Some (Inl e)" if all: "\<forall>n. turns_in_order S reorder n b0" for reorder e
  proof
    assume m: "main_loop config rx ry S reorder = Some (Inl e)"
    have no: "bench_turns reorder n b0 \<noteq> Some (Inl e)" for n using run[OF all[rule_format, of n]] by auto
    have "bench_while not_eof reorder b0 \<noteq> Some (Inl e)" using bench_while_turns no by blast
    then obtain b where b: "bench_while not_eof reorder b0 = Some (Inr b)"
      and rest: "bm_string_received b \<noteq> S \<or> bench_while some_active reorder b = Some (Inl e)"
      using m by (auto simp: main_loop_def b0(1) split: option.splits sum.splits if_splits)
    obtain n where n: "bench_turns reorder n b0 = Some (Inr b)" "\<not> not_eof b" using bench_while_turns[OF b] by blast
    then have "bench_inv S b" using run[OF all[rule_format], of n] by simp
    then have "bm_string_received b = S" using bench_received(2) n(2) by (simp add: not_eof_def)
    then obtain k where "bench_turns reorder k b = Some (Inl e)" using rest bench_while_turns by blast
    then show False using bench_turns_add[OF n(1), of k] no by simp
  qed
  then show ?thesis using b0(1) run bench_received unfolding not_eof_def by blast
qed

lemma small_run_in_order:
  "case bench_start (small_config 9 4) 0 0 [1, 2] of Inl _ \<Rightarrow> False | Inr b0 \<Rightarrow> turns_in_order [1, 2] True 2 b0"
  by code_simp

theorem benchmark_delivers_witness:
  "\<exists>b0 b m. bench_start (small_config 9 4) 0 0 [1, 2] = Inr b0 \<and> bench_turns True 2 b0 = Some (Inr b) \<and>
     bm_string_received b = take m [1, 2] \<and> (\<not> not_eof b \<longrightarrow> bm_string_received b = [1, 2])"
proof -
  have c: "recv_capacity (small_config 9 4) < 2 ^ 32" "send_capacity (small_config 9 4) < 2 ^ 64" "length [1, 2 :: byte] < 2 ^ 31 - 2"
    by (simp_all add: small_config_def)
  obtain b0 where b0: "bench_start (small_config 9 4) 0 0 [1, 2] = Inr b0"
    "turns_in_order [1, 2] True 2 b0 \<longrightarrow> (\<exists>b m. bench_turns True 2 b0 = Some (Inr b) \<and> bm_string_received b = take m [1, 2] \<and>
       (\<not> not_eof b \<longrightarrow> bm_string_received b = [1, 2]))"
    using benchmark_delivers[OF c, of 0 0] by blast
  have "turns_in_order [1, 2] True 2 b0" using small_run_in_order by (simp only: b0(1) sum.case)
  then show ?thesis using b0 by blast
qed

text \<open>The program's own string and configuration satisfy the hypotheses.\<close>

lemma benchmark_sizes:
  "len < 2 ^ 31 - 2" "recv_capacity TCPConfig_default < 2 ^ 32" "send_capacity TCPConfig_default < 2 ^ 64"
  by (simp_all add: len_def TCPConfig_default_def DEFAULT_CAPACITY_def)

end
