(* ===== verification/Spec2Isabelle.thy ===== *)
theory Spec2Isabelle
  imports Sponge_Socket Stream_Copy Packet_Dump Simulator_Correct Web_Get Benchmark
begin

text \<open>
  A verification library for Sponge, the user-space TCP/IP stack under \<^verbatim>\<open>src/\<close>.

  \<^bold>\<open>The program and how its parts interact.\<close>  An application writes to a socket
  (\<^verbatim>\<open>tcp_helpers/tcp_sponge_socket.cc\<close>).  The thread of the socket runs an event loop
  (\<^verbatim>\<open>util/eventloop.cc\<close>) with four rules that move bytes between a pipe to the application, a TCP
  connection (\<^verbatim>\<open>tcp_connection.cc\<close>), and a datagram adapter (\<^verbatim>\<open>fd_adapter.cc\<close>, \<^verbatim>\<open>tuntap_adapter.cc\<close>).
  The connection is a sender (\<^verbatim>\<open>tcp_sender.cc\<close>) and a receiver (\<^verbatim>\<open>tcp_receiver.cc\<close>); the receiver
  puts segments in order with a reassembler (\<^verbatim>\<open>stream_reassembler.cc\<close>) over a byte stream
  (\<^verbatim>\<open>byte_stream.cc\<close>), and both number bytes modulo \<open>2 ^ 32\<close> (\<^verbatim>\<open>wrapping_integers.cc\<close>).  The adapter
  wraps segments in UDP, IPv4, or IPv4 over Ethernet.  In the last case a network interface
  (\<^verbatim>\<open>network_interface.cc\<close>) finds Ethernet addresses with ARP; a router (\<^verbatim>\<open>router.cc\<close>) forwards between
  such interfaces.  The programs under \<^verbatim>\<open>apps/\<close> copy between a socket and the terminal, fetch a web page, dump packets,
  simulate a network of hosts and a router, and measure two connections in one process.

  \<^bold>\<open>Conventions.\<close>  \<open>Sponge_Prelude\<close> has the types and the lemmas shared by all.  A C++ object is a
  \<open>record\<close> with a field per member; a method is a function that takes the object first and returns the
  updated one; names are \<open>Class_method\<close>.  Eight-, 16- and 32-bit integers are words; \<open>uint64_t\<close> and
  \<open>size_t\<close> are natural numbers whose arithmetic \<open>add64\<close>, \<open>sub64\<close>, \<open>mul64\<close> wraps at \<open>2 ^ 64\<close>.  An operation
  that can throw, or whose behaviour C++ leaves undefined, returns \<open>cpp_error + 'a\<close>.  What is outside the
  sources is an argument: the answers of system calls (with a state \<open>'k\<close> of the kernel where order
  matters), the resolver, random numbers, the clock.

  \<^bold>\<open>Theories, in the order of imports.\<close>
  \<^item> \<open>Buffers\<close> (\<^verbatim>\<open>util/buffer\<close>), \<open>Byte_Stream\<close> (\<^verbatim>\<open>byte_stream\<close>): a stream is a bounded queue; the
    contract is the locale \<open>bounded_fifo\<close>, interpreted on the stream.
  \<^item> \<open>Stream_Reassembler\<close> (\<^verbatim>\<open>stream_reassembler\<close>) and \<open>Reassembler_Correct\<close>: the invariant of the store of
    pieces; every push that starts in the window keeps it and makes exactly the expected positions known;
    any order of pushes gives a prefix of the stream, and the end is seen exactly when all of it is there.
  \<^item> \<open>Wrapping\<close> (\<^verbatim>\<open>wrapping_integers\<close>), \<open>Parser\<close> (\<^verbatim>\<open>util/parser\<close>; locale \<open>codec\<close> for a field that reads
    back what was written), \<open>Checksum\<close> (\<^verbatim>\<open>util/util\<close>), \<open>TCP_Segment\<close> (\<^verbatim>\<open>tcp_header\<close>, \<^verbatim>\<open>tcp_segment\<close>): round
    trips, and that a message with its checksum verifies.
  \<^item> \<open>TCP_Receiver\<close>, \<open>TCP_Sender\<close> with \<open>Sender_Correct\<close>, \<open>TCP_Connection\<close> with \<open>Connection_Correct\<close>
    (\<^verbatim>\<open>tcp_receiver\<close>, \<^verbatim>\<open>tcp_sender\<close>, \<^verbatim>\<open>tcp_connection\<close>, \<^verbatim>\<open>tcp_state\<close>, \<^verbatim>\<open>tcp_config\<close>): invariants over any
    sequence of calls, all cases of an acknowledgment, the timer, the handshake, the release, resets.
    Sequences of calls are runs of the locale \<open>step_system\<close>, interpreted for each of them.
  \<^item> \<open>End_To_End\<close>: two connections and a network that loses, duplicates, delays and reorders.
  \<^item> \<open>Net_Address\<close>, \<open>IPv4\<close>, \<open>Ethernet\<close> (\<^verbatim>\<open>util/address\<close>, \<^verbatim>\<open>ipv4_header\<close>, \<^verbatim>\<open>ipv4_datagram\<close>,
    \<^verbatim>\<open>ethernet_header\<close>, \<^verbatim>\<open>ethernet_frame\<close>, \<^verbatim>\<open>arp_message\<close>), \<open>Network_Interface\<close>, \<open>Router\<close>: formats, address
    resolution, and forwarding by the longest prefix.
  \<^item> \<open>File_Descriptor\<close>, \<open>Sockets\<close> (\<^verbatim>\<open>util/file_descriptor\<close>, \<^verbatim>\<open>util/socket\<close>, \<^verbatim>\<open>util/tun\<close>), \<open>Adapters\<close> (locale
    \<open>datagram_adapter\<close>), \<open>Event_Loop\<close> (a wait refines an abstract list of actions), \<open>Sponge_Socket\<close>
    (locale \<open>socket_adapter\<close>): the socket delivers the peer's stream to its owner and ends when it should.
  \<^item> \<open>Stream_Copy\<close> (\<^verbatim>\<open>apps/bidirectional_stream_copy\<close>): the copy loop of the programs passes on what it reads and
    ends when both directions have.
  \<^item> \<open>Command_Line\<close> (\<^verbatim>\<open>apps/tcp_ipv4.cc\<close>, \<^verbatim>\<open>tcp_udp.cc\<close>, \<^verbatim>\<open>tcp_ip_ethernet.cc\<close>, the options of \<^verbatim>\<open>udp_tcpdump.cc\<close>): option
    parsers never read past \<open>argv\<close> and connect to the last two arguments (locale \<open>option_program\<close>, interpreted for
    each program).  \<open>Web_Get\<close> (\<^verbatim>\<open>apps/webget.cc\<close>, \<^verbatim>\<open>tcp_native.cc\<close>): the request is sent whole, the header of the
    response is removed.
  \<^item> \<open>Packet_Dump\<close> (\<^verbatim>\<open>apps/udp_tcpdump.cc\<close>, \<^verbatim>\<open>tun.cc\<close>, \<open>hexdump\<close> of \<^verbatim>\<open>util/util.cc\<close>, the printing functions of
    \<^verbatim>\<open>tcp_header.cc\<close>): the hex dump line by line, and which captures are read out of bounds.
  \<^item> \<open>Network_Simulator\<close> and \<open>Simulator_Correct\<close> (\<^verbatim>\<open>apps/network_simulator.cc\<close>): hosts, router and links; the
    program delivers the datagrams of all its scenarios and exits with status 0.
  \<^item> \<open>Benchmark\<close> (\<^verbatim>\<open>apps/tcp_benchmark.cc\<close>): two connections that exchange segments in or out of order; every turn
    of the loop succeeds and the string received is a prefix of the one sent.

  \<^bold>\<open>Bounds and loops.\<close>  No fuel is used.  Loops with a decreasing measure are \<open>function\<close>s with a
  termination proof.  The loop of \<open>fill_window\<close> and that of the socket may run forever and are
  \<open>partial_function (option)\<close>; the first is proved to end under the sender's invariant, the second when nothing
  is left to do.  So are the loops of the copy program and of the benchmark: the copy is proved to end when both inputs
  have, each turn of the benchmark to return; that the benchmark as a whole ends is not proved.
  Theorems on streams ask for lengths below \<open>2 ^ 62\<close> (\<open>2 ^ 31\<close> end to end, so that no sequence number is
  ambiguous however late it arrives) and a receive capacity below \<open>2 ^ 32\<close>.

  \<^bold>\<open>Not modelled.\<close>  Starting, joining and aborting the thread of a socket (the destructor and \<open>wait_until_closed\<close> of
  \<^verbatim>\<open>tcp_sponge_socket.cc\<close>), because the model of a socket is the sequence of steps of its thread; the programs take
  these operations as arguments.  \<open>timestamp_ms\<close> and \<open>get_random_generator\<close> (\<^verbatim>\<open>util/util.cc\<close>), which only call the standard
  library, and the calls into libpcap of \<^verbatim>\<open>udp_tcpdump.cc\<close>.  Messages on the terminal that change no state, save
  where computing them may fail.  The tests, the examples of the documentation and the setup scripts.

  \<^bold>\<open>Deviations of the code\<close> that the lemmas show are in the theories of the components, among them: the probe of
  a closed window can lose the last byte of a stream (\<open>zero_window_fin_loses_byte\<close>), an early FIN
  is acknowledged with bytes missing (\<open>early_fin_acks_missing_byte\<close>), a shrunk window is overrun
  (\<open>shrunk_window_overrun\<close>), a default route that is not first is ignored (\<open>default_route_not_first\<close>), and a bad
  IPv4 checksum is accepted (\<open>bad_ipv4_checksum_accepted\<close>).  The theorems on streams carry hypotheses that
  exclude these cases.
\<close>

end
